(* ===== verification/YT_Prelude.thy ===== *)
theory YT_Prelude
  imports Main "HOL-Library.Word"
begin

text \<open>
  The shared layer of the development: names for the machine integers of the C++ code, buffers
  as byte lists with checked reads, the faults that end the program (undefined behaviour or an
  uncaught exception) and the bind of the fallible operations, and the generic lemmas on lists
  and words that the components use.  Nothing here models a particular source file.
\<close>

unbundle bit_operations_syntax

section \<open>Machine integers and buffers\<close>

type_synonym u8 = "8 word"
type_synonym u16 = "16 word"
type_synonym u32 = "32 word"
type_synonym u64 = "64 word"

text \<open>
  A pointer into a buffer is the list of the bytes from the address to the end of the object it
  points into; \<open>addr + k\<close> is \<open>drop k addr\<close>, and \<open>addr[i]\<close> is a checked read.
\<close>

type_synonym buffer = "u8 list"

definition peek :: "'a list \<Rightarrow> nat \<Rightarrow> 'a option" where
  "peek addr i = (if i < length addr then Some (addr ! i) else None)"

section \<open>Faults and fallible results\<close>

text \<open>
  The ways an operation can end the program: an access outside an object, a null pointer
  dereferenced, a division by zero, a conversion of a floating-point value the integer type cannot hold, a
  signed addition or multiplication whose result the type cannot hold, an exception no handler catches.
\<close>

datatype fault = OutOfBounds | NullDeref | DivByZero | BadConversion | SignedOverflow | Uncaught string

type_synonym 'a res = "fault + 'a"

definition bind_res :: "'a res \<Rightarrow> ('a \<Rightarrow> 'b res) \<Rightarrow> 'b res" where
  "bind_res r f = (case r of Inl e \<Rightarrow> Inl e | Inr x \<Rightarrow> f x)"

definition of_peek :: "'a option \<Rightarrow> 'a res" where
  "of_peek r = (case r of None \<Rightarrow> Inl OutOfBounds | Some x \<Rightarrow> Inr x)"

text \<open>Facts that evaluate the bind, and facts about the outcome of an operation.\<close>

named_theorems res_simps

lemma bind_res_simps [simp, res_simps]:
  "bind_res (Inl e) f = Inl e" "bind_res (Inr x) f = f x"
  by (simp_all add: bind_res_def)

lemma bind_res_Inr_iff [simp]:
  "bind_res r f = Inr y \<longleftrightarrow> (\<exists>x. r = Inr x \<and> f x = Inr y)"
  by (cases r) auto

lemma bind_res_assoc: "bind_res (bind_res r f) g = bind_res r (\<lambda>x. bind_res (f x) g)"
  by (cases r) simp_all

lemma of_peek_simps [simp, res_simps]:
  "of_peek None = Inl OutOfBounds" "of_peek (Some x) = Inr x"
  by (simp_all add: of_peek_def)

lemma bind_res_cong [fundef_cong]:
  "r = r' \<Longrightarrow> (\<And>x. r' = Inr x \<Longrightarrow> f x = g x) \<Longrightarrow> bind_res r f = bind_res r' g"
  by (auto simp: bind_res_def split: sum.splits)

text \<open>
  The outcome of an operation: a value that satisfies \<open>P\<close>, or one of the faults of \<open>F\<close>.
\<close>

definition holds :: "fault set \<Rightarrow> ('a \<Rightarrow> bool) \<Rightarrow> 'a res \<Rightarrow> bool" where
  "holds F P r = (case r of Inl e \<Rightarrow> e \<in> F | Inr x \<Rightarrow> P x)"

lemma holds_simps [simp]: "holds F P (Inl e) \<longleftrightarrow> e \<in> F" "holds F P (Inr x) \<longleftrightarrow> P x"
  by (simp_all add: holds_def)

lemma holds_bind [simp]: "holds F P (bind_res r f) \<longleftrightarrow> holds F (\<lambda>x. holds F P (f x)) r"
  by (cases r) simp_all

lemma holds_mono: "holds F P r \<Longrightarrow> (\<And>x. P x \<Longrightarrow> Q x) \<Longrightarrow> holds F Q r"
  by (cases r) simp_all

lemma holds_faults: "holds F P r \<Longrightarrow> F \<subseteq> G \<Longrightarrow> holds G P r"
  by (cases r) auto

lemma holds_Inr: "holds F P r \<Longrightarrow> r = Inr x \<Longrightarrow> P x"
  by simp

section \<open>Checked reads\<close>

lemma peek_Some_iff: "peek xs i = Some x \<longleftrightarrow> i < length xs \<and> x = xs ! i"
  by (auto simp: peek_def)

lemma peek_0_Cons [simp]: "peek (x # xs) 0 = Some x"
  by (simp add: peek_def)

lemma peek_Suc_Cons [simp]: "peek (x # xs) (Suc i) = peek xs i"
  by (simp add: peek_def)

lemma peek_numeral_Cons [simp]: "peek (x # xs) (numeral n) = peek xs (pred_numeral n)"
  by (simp add: numeral_eq_Suc)

lemma peek_Nil [simp]: "peek [] i = None"
  by (simp add: peek_def)

section \<open>Words\<close>

lemma unat_of_nat_small: "n < 2 ^ LENGTH('a) \<Longrightarrow> unat (of_nat n :: 'a::len word) = n"
  by (simp add: unat_of_nat take_bit_nat_eq_self)

lemma unat_of_nat_u32: "n < 4294967296 \<Longrightarrow> unat (of_nat n :: u32) = n"
  by (rule unat_of_nat_small) simp

lemma unat_of_nat_u64: "n < 18446744073709551616 \<Longrightarrow> unat (of_nat n :: u64) = n"
  by (rule unat_of_nat_small) simp

lemma unat_u32_less: "unat (x :: u32) < 4294967296"
  using unsigned_less [of x, where ?'a = nat] by simp

lemma unat_u64_less: "unat (x :: u64) < 18446744073709551616"
  using unsigned_less [of x, where ?'a = nat] by simp

lemma unat_ucast_u32_u64 [simp]: "unat (ucast (x :: u32) :: u64) = unat x"
  using unat_u32_less [of x] by (simp add: unsigned_ucast_eq take_bit_nat_eq_self)

text \<open>Cutting 64 bits to 32 is a ring homomorphism.\<close>

lemma ucast_64_32_of_int: "(ucast (of_int k :: u64) :: u32) = of_int k"
  by transfer (simp add: take_bit_take_bit)

lemma ucast_64_32_of_nat [simp]: "(ucast (of_nat n :: u64) :: u32) = of_nat n"
  using ucast_64_32_of_int [of "int n"] by simp

lemma ucast_64_32_add: "(ucast (a + b :: u64) :: u32) = ucast a + ucast b"
proof -
  have "(ucast (of_int (uint a + uint b) :: u64) :: u32) = of_int (uint a + uint b)"
    by (rule ucast_64_32_of_int)
  also have "\<dots> = of_int (uint a) + of_int (uint b)"
    by (rule of_int_add)
  also have "\<dots> = ucast a + ucast b"
    by (simp only: ucast_eq)
  finally show ?thesis by simp
qed

lemma ucast_32_64_32 [simp]: "(ucast (ucast (x :: u32) :: u64) :: u32) = x"
  by (rule bit_word_eqI) (auto simp: bit_simps)

lemma sint_of_nat_u64: "n < 9223372036854775808 \<Longrightarrow> sint (of_nat n :: u64) = int n"
  by transfer (simp add: signed_take_bit_int_eq_self)

end
