(* ===== verification/Transcoder.thy ===== *)
theory Transcoder
  imports YT_Prelude
begin

text \<open>
  \<open>src/utils/transcoder.hpp\<close>: the byte-order readers and writers.  A reader takes the memory
  from the address on and fails where an access leaves it; a writer returns the bytes it stores,
  in address order.  The arithmetic is written at the width the C++ promotions give it:
  \<open>uint8_t\<close> and \<open>uint16_t\<close> operands are promoted to a 32-bit \<open>int\<close>.
\<close>

section \<open>Little endian\<close>

definition readAsLE16 :: "buffer \<Rightarrow> u16 option" where
  "readAsLE16 addr =
     Option.bind (peek addr 1) (\<lambda>b1. Option.bind (peek addr 0) (\<lambda>b0.
       Some (ucast (push_bit 8 (ucast (ucast b1 :: u16)) OR ucast b0 :: u32))))"

definition readAsLE32 :: "buffer \<Rightarrow> u32 option" where
  "readAsLE32 addr =
     Option.bind (readAsLE16 (drop 2 addr)) (\<lambda>hi. Option.bind (readAsLE16 addr) (\<lambda>lo.
       Some (push_bit 16 (ucast hi) OR ucast lo)))"

definition readAsLE64 :: "buffer \<Rightarrow> u64 option" where
  "readAsLE64 addr =
     Option.bind (readAsLE32 (drop 4 addr)) (\<lambda>hi. Option.bind (readAsLE32 addr) (\<lambda>lo.
       Some (push_bit 32 (ucast hi) OR ucast lo)))"

definition writeAsLE16 :: "u16 \<Rightarrow> buffer" where
  "writeAsLE16 v = [ucast v, ucast (drop_bit 8 (ucast v :: u32))]"

definition writeLE32 :: "u32 \<Rightarrow> buffer" where
  "writeLE32 v = writeAsLE16 (ucast v) @ writeAsLE16 (ucast (drop_bit 16 v))"

definition writeAsLE64 :: "u64 \<Rightarrow> buffer" where
  "writeAsLE64 v = writeLE32 (ucast v) @ writeLE32 (ucast (drop_bit 32 v))"

section \<open>Big endian\<close>

definition readAsBE16 :: "buffer \<Rightarrow> u16 option" where
  "readAsBE16 addr =
     Option.bind (peek addr 1) (\<lambda>b1. Option.bind (peek addr 0) (\<lambda>b0.
       Some (ucast (ucast (ucast b1 :: u16) OR push_bit 8 (ucast (ucast b0 :: u16)) :: u32))))"

definition readAsBE32 :: "buffer \<Rightarrow> u32 option" where
  "readAsBE32 addr =
     Option.bind (readAsBE16 (drop 2 addr)) (\<lambda>lo. Option.bind (readAsBE16 addr) (\<lambda>hi.
       Some (ucast lo OR push_bit 16 (ucast hi))))"

definition readAsBE64 :: "buffer \<Rightarrow> u64 option" where
  "readAsBE64 addr =
     Option.bind (readAsBE32 (drop 4 addr)) (\<lambda>lo. Option.bind (readAsBE32 addr) (\<lambda>hi.
       Some (ucast lo OR push_bit 32 (ucast hi))))"

text \<open>
  \<open>writeAsBE16\<close> casts before it shifts: \<open>(uint8_t)value >> 8\<close> shifts the low byte out of an
  \<open>int\<close>, so the first byte stored is always 0.
\<close>

definition writeAsBE16 :: "u16 \<Rightarrow> buffer" where
  "writeAsBE16 v = [ucast (drop_bit 8 (ucast (ucast v :: u8) :: u32)), ucast v]"

definition writeAsBE32 :: "u32 \<Rightarrow> buffer" where
  "writeAsBE32 v = [ucast (drop_bit 24 v), ucast (drop_bit 16 v), ucast (drop_bit 8 v), ucast v]"

definition writeAsBE64 :: "u64 \<Rightarrow> buffer" where
  "writeAsBE64 v =
     [ucast (drop_bit 56 v), ucast (drop_bit 48 v), ucast (drop_bit 40 v), ucast (drop_bit 32 v),
      ucast (drop_bit 24 v), ucast (drop_bit 16 v), ucast (drop_bit 8 v), ucast v]"

section \<open>The contract of a fixed-width codec\<close>

text \<open>
  What the message classes rely on: an encoding has a fixed length, and decoding reads back the
  value whatever follows in the buffer.
\<close>

locale codec =
  fixes enc :: "'v \<Rightarrow> buffer"
    and dec :: "buffer \<Rightarrow> 'v option"
    and width :: "nat"
  assumes length_enc: "length (enc v) = width"
    and dec_enc: "dec (enc v @ rest) = Some v"
    and dec_short: "length b < width \<Longrightarrow> dec b = None"
begin

lemma enc_inject: "enc v = enc w \<longleftrightarrow> v = w"
  by (metis dec_enc option.inject)

lemma dec_enc_alone: "dec (enc v) = Some v"
  using dec_enc [of v "[]"] by simp

lemma dec_at: "dec (drop (length pre) (pre @ enc v @ rest)) = Some v"
  by (simp add: dec_enc)

lemma dec_Some_length: "dec b = Some v \<Longrightarrow> width \<le> length b"
  by (metis dec_short linorder_not_less option.distinct(1))

lemma enc_prefix_free: "enc v @ r = enc w @ s \<Longrightarrow> v = w \<and> r = s"
  by (metis append_eq_append_conv dec_enc length_enc option.inject)

end

section \<open>The codecs of the transcoder\<close>

lemma ucast_halves16:
  "ucast (push_bit 8 (ucast (ucast (ucast (drop_bit 8 (ucast v :: u32)) :: u8) :: u16))
     OR ucast (ucast v :: u8) :: u32) = (v :: u16)"
  by (rule bit_word_eqI) (auto simp: bit_simps)

interpretation le16: codec writeAsLE16 readAsLE16 2
  by unfold_locales (auto simp: writeAsLE16_def readAsLE16_def ucast_halves16 peek_def)

lemma ucast_halves32: "push_bit 16 (ucast (ucast (drop_bit 16 v) :: u16)) OR ucast (ucast v :: u16) = (v :: u32)"
  by (rule bit_word_eqI) (auto simp: bit_simps)

interpretation le32: codec writeLE32 readAsLE32 4
  by unfold_locales
    (auto simp: writeLE32_def readAsLE32_def le16.length_enc le16.dec_enc le16.dec_enc_alone le16.dec_short ucast_halves32)

lemma ucast_halves64: "push_bit 32 (ucast (ucast (drop_bit 32 v) :: u32)) OR ucast (ucast v :: u32) = (v :: u64)"
  by (rule bit_word_eqI) (auto simp: bit_simps)

interpretation le64: codec writeAsLE64 readAsLE64 8
  by unfold_locales
    (auto simp: writeAsLE64_def readAsLE64_def le32.length_enc le32.dec_enc le32.dec_enc_alone le32.dec_short ucast_halves64)

lemma readAsBE16_short: "length b < 2 \<Longrightarrow> readAsBE16 b = None"
  by (auto simp: readAsBE16_def peek_def)

lemma readAsBE16_Cons: "readAsBE16 (x # y # r) = Some (push_bit 8 (ucast x) OR ucast y)"
  by (simp add: readAsBE16_def) (rule bit_word_eqI, auto simp: bit_simps)

lemma readAsBE32_short: "length b < 4 \<Longrightarrow> readAsBE32 b = None"
  by (auto simp: readAsBE32_def readAsBE16_short)

lemma bytes32_join:
  "ucast (push_bit 8 (ucast (ucast (drop_bit 8 v) :: u8)) OR ucast (ucast v :: u8) :: u16) OR
     push_bit 16 (ucast (push_bit 8 (ucast (ucast (drop_bit 24 v) :: u8)) OR ucast (ucast (drop_bit 16 v) :: u8) :: u16))
   = (v :: u32)"
  by (rule bit_word_eqI) (auto simp: bit_simps)

interpretation be32: codec writeAsBE32 readAsBE32 4
  by unfold_locales
    (auto simp: writeAsBE32_def readAsBE32_def readAsBE16_Cons readAsBE16_short bytes32_join)

lemma writeAsBE64_halves: "writeAsBE64 v = writeAsBE32 (ucast (drop_bit 32 v)) @ writeAsBE32 (ucast v)"
  by (auto simp: writeAsBE64_def writeAsBE32_def intro!: bit_word_eqI simp: bit_simps)

lemmas ucast_halves64' = trans [OF or.commute ucast_halves64]

interpretation be64: codec writeAsBE64 readAsBE64 8
  by unfold_locales
    (auto simp: writeAsBE64_halves readAsBE64_def be32.length_enc be32.dec_enc be32.dec_enc_alone be32.dec_short
       ucast_halves64')

section \<open>Byte order, and the broken 16-bit writer\<close>

lemma readAsLE16_Cons: "readAsLE16 (x # y # r) = Some (push_bit 8 (ucast y) OR ucast x)"
  by (simp add: readAsLE16_def) (rule bit_word_eqI, auto simp: bit_simps)

lemma readAsBE32_Cons:
  "readAsBE32 (a # b # c # d # r) =
     Some (push_bit 24 (ucast a) OR push_bit 16 (ucast b) OR push_bit 8 (ucast c) OR ucast d)"
  by (simp add: readAsBE32_def readAsBE16_Cons) (rule bit_word_eqI, auto simp: bit_simps dest: bit_imp_le_length)

lemma readAsLE32_Cons:
  "readAsLE32 (a # b # c # d # r) =
     Some (push_bit 24 (ucast d) OR push_bit 16 (ucast c) OR push_bit 8 (ucast b) OR ucast a)"
  by (simp add: readAsLE32_def readAsLE16_Cons) (rule bit_word_eqI, auto simp: bit_simps dest: bit_imp_le_length)

lemma readAsLE32_None_iff: "readAsLE32 b = None \<longleftrightarrow> length b < 4"
proof -
  have "length b < 4 \<or> (\<exists>w x y z r. b = w # x # y # z # r)"
    by (cases b; cases "tl b"; cases "tl (tl b)"; cases "tl (tl (tl b))") auto
  then show ?thesis
    by (auto simp: le32.dec_short readAsLE32_Cons)
qed

lemma readAsBE32_None_iff: "readAsBE32 b = None \<longleftrightarrow> length b < 4"
proof -
  have "length b < 4 \<or> (\<exists>w x y z r. b = w # x # y # z # r)"
    by (cases b; cases "tl b"; cases "tl (tl b)"; cases "tl (tl (tl b))") auto
  then show ?thesis
    by (auto simp: be32.dec_short readAsBE32_Cons)
qed

lemma readAsBE16_None_iff: "readAsBE16 b = None \<longleftrightarrow> length b < 2"
  by (auto simp: readAsBE16_def peek_def Option.bind_eq_None_conv)

lemma writeAsBE16_bytes: "writeAsBE16 v = [0, ucast v]"
  by (auto simp: writeAsBE16_def intro!: bit_word_eqI simp: bit_simps)

end
