(* ===== verification/Messages.thy ===== *)
theory Messages
  imports Transcoder
begin

text \<open>
  \<open>src/net/incomingmessage.hpp\<close> and \<open>src/net/outgoingmessage.hpp\<close>: the reader over a received
  payload and the builder of a message to send.  \<open>dataBuffer\<close> of an incoming message is the memory
  its pointer reaches; the extraction functions do not look at \<open>buffSize\<close>, so they fail only
  where the read leaves that memory.
\<close>

section \<open>IncomingMessage\<close>

record incoming =
  dataBuffer :: buffer
  buffSize :: u64
  readIndex :: u32

definition IncomingMessage :: "buffer \<Rightarrow> u64 \<Rightarrow> incoming" where
  "IncomingMessage data sz = \<lparr>dataBuffer = data, buffSize = sz, readIndex = 0\<rparr>"

definition getSize :: "incoming \<Rightarrow> u64" where
  "getSize m = buffSize m"

definition setData :: "buffer \<Rightarrow> incoming \<Rightarrow> incoming" where
  "setData d m = m\<lparr>dataBuffer := d\<rparr>"

definition setSize :: "u64 \<Rightarrow> incoming \<Rightarrow> incoming" where
  "setSize s m = m\<lparr>buffSize := s\<rparr>"

text \<open>
  \<open>readIndex\<close> is 32 bits and \<open>size\<close> 64, so the sum is taken in 64 bits.  The result is the inner
  option: the null pointer or the copy; the outer one is the access outside the buffer.
\<close>

definition cpyBuffer :: "u64 \<Rightarrow> incoming \<Rightarrow> buffer option option" where
  "cpyBuffer sz m =
     (if buffSize m < ucast (readIndex m) + sz then Some None
      else if length (dataBuffer m) < unat (readIndex m) + unat sz then None
      else Some (Some (take (unat sz) (drop (unat (readIndex m)) (dataBuffer m)))))"

definition getBuffer :: "incoming \<Rightarrow> buffer" where
  "getBuffer m = drop (unat (readIndex m)) (dataBuffer m)"

definition extractNextByte :: "incoming \<Rightarrow> (u8 \<times> incoming) option" where
  "extractNextByte m =
     map_option (\<lambda>b. (b, m\<lparr>readIndex := readIndex m + 1\<rparr>)) (peek (dataBuffer m) (unat (readIndex m)))"

definition extractNextU16 :: "incoming \<Rightarrow> (u16 \<times> incoming) option" where
  "extractNextU16 m =
     map_option (\<lambda>tmp. (tmp, m\<lparr>readIndex := readIndex m + 2\<rparr>)) (readAsBE16 (getBuffer m))"

definition extractNextU32 :: "incoming \<Rightarrow> (u32 \<times> incoming) option" where
  "extractNextU32 m =
     map_option (\<lambda>tmp. (tmp, m\<lparr>readIndex := readIndex m + 4\<rparr>)) (readAsBE32 (getBuffer m))"

definition extractNextU64 :: "incoming \<Rightarrow> (u64 \<times> incoming) option" where
  "extractNextU64 m =
     map_option (\<lambda>tmp. (tmp, m\<lparr>readIndex := readIndex m + 8\<rparr>)) (readAsBE64 (getBuffer m))"

section \<open>OutgoingMessage\<close>

text \<open>The vector of bytes; the reserved capacity is not observable.\<close>

type_synonym outgoing = buffer

definition OutgoingMessage :: "u64 \<Rightarrow> outgoing" where
  "OutgoingMessage fixedSize = []"

definition addCustom :: "buffer \<Rightarrow> outgoing \<Rightarrow> outgoing" where
  "addCustom bytes out = out @ bytes"

definition addU8 :: "u8 \<Rightarrow> outgoing \<Rightarrow> outgoing" where
  "addU8 b out = out @ [b]"

definition addU16 :: "u16 \<Rightarrow> outgoing \<Rightarrow> outgoing" where
  "addU16 val out = addCustom (writeAsBE16 val) out"

definition addU32 :: "u32 \<Rightarrow> outgoing \<Rightarrow> outgoing" where
  "addU32 val out = addCustom (writeAsBE32 val) out"

definition addU64 :: "u64 \<Rightarrow> outgoing \<Rightarrow> outgoing" where
  "addU64 val out = addCustom (writeAsBE64 val) out"

text \<open>\<open>data()\<close> is \<open>&dataBuffer.at(0)\<close>, which throws on an empty vector.\<close>

definition out_data :: "outgoing \<Rightarrow> buffer res" where
  "out_data out = (if out = [] then Inl (Uncaught ''std::out_of_range'') else Inr out)"

definition out_size :: "outgoing \<Rightarrow> nat" where
  "out_size out = length out"

lemmas out_defs = OutgoingMessage_def addCustom_def addU8_def addU16_def addU32_def addU64_def

section \<open>What a message field promises\<close>

text \<open>
  A field is added by the sender and extracted by the receiver: extraction yields the value that
  was added and moves the read index to the byte after it, wherever the field sits in a payload.
\<close>

definition at_index :: "nat \<Rightarrow> buffer \<Rightarrow> incoming \<Rightarrow> bool" where
  "at_index k b m \<longleftrightarrow> unat (readIndex m) = k \<and> drop k (dataBuffer m) = b"

locale message_field =
  fixes add :: "'v \<Rightarrow> outgoing \<Rightarrow> outgoing"
    and getf :: "incoming \<Rightarrow> ('v \<times> incoming) option"
    and fwidth :: "nat"
  assumes add_append: "add v (pre @ out) = pre @ add v out"
    and length_add: "length (add v out) = length out + fwidth"
    and extract_added:
      "at_index k (add v [] @ rest) m \<Longrightarrow>
       getf m = Some (v, m\<lparr>readIndex := readIndex m + of_nat fwidth\<rparr>)"
    and fwidth_small: "fwidth < 2 ^ 32"
begin

lemma add_alt: "add v out = out @ add v []"
  using add_append [of v out "[]"] by simp

lemma extract_moves:
  assumes "at_index k (add v [] @ rest) m" and "k + fwidth < 2 ^ 32"
  shows "getf m = Some (v, m\<lparr>readIndex := of_nat (k + fwidth)\<rparr>)
       \<and> at_index (k + fwidth) rest (m\<lparr>readIndex := of_nat (k + fwidth)\<rparr>)"
proof -
  have k: "readIndex m = of_nat k"
    using assms(1) by (auto simp: at_index_def)
  have u: "unat (of_nat (k + fwidth) :: u32) = k + fwidth"
    using assms(2) by (intro unat_of_nat_u32) simp
  have "drop fwidth (drop k (dataBuffer m)) = rest"
    using assms(1) length_add [of v "[]"] by (auto simp: at_index_def)
  then show ?thesis
    using extract_added [OF assms(1)] u by (simp add: k at_index_def add.commute)
qed

end

lemma getBuffer_at_index: "at_index k b m \<Longrightarrow> getBuffer m = b"
  by (simp add: at_index_def getBuffer_def)

lemma peek_at_index: "at_index k b m \<Longrightarrow> peek (dataBuffer m) (unat (readIndex m)) = peek b 0"
  by (auto simp: at_index_def peek_def)

interpretation f8: message_field addU8 extractNextByte 1
  by unfold_locales (auto simp: addU8_def extractNextByte_def peek_at_index)

interpretation f32: message_field addU32 extractNextU32 4
  by unfold_locales
    (auto simp: addU32_def addCustom_def extractNextU32_def getBuffer_at_index be32.length_enc be32.dec_enc)

interpretation f64: message_field addU64 extractNextU64 8
  by unfold_locales
    (auto simp: addU64_def addCustom_def extractNextU64_def getBuffer_at_index be64.length_enc be64.dec_enc)

section \<open>Payloads of several fields\<close>

text \<open>The three extractions of a request or cancel payload, and the two of a piece block.\<close>

definition extract2 :: "incoming \<Rightarrow> ((u32 \<times> u32) \<times> incoming) option" where
  "extract2 m =
     Option.bind (extractNextU32 m) (\<lambda>(a, m). Option.bind (extractNextU32 m) (\<lambda>(b, m). Some ((a, b), m)))"

definition extract3 :: "incoming \<Rightarrow> ((u32 \<times> u32 \<times> u32) \<times> incoming) option" where
  "extract3 m =
     Option.bind (extract2 m) (\<lambda>((a, b), m). Option.bind (extractNextU32 m) (\<lambda>(c, m). Some ((a, b, c), m)))"

lemma at_index_start: "at_index 0 b (IncomingMessage b n)"
  by (simp add: at_index_def IncomingMessage_def)

lemma extract1_payload:
  "extractNextU32 (IncomingMessage (writeAsBE32 a @ rest) n) =
     Some (a, \<lparr>dataBuffer = writeAsBE32 a @ rest, buffSize = n, readIndex = 4\<rparr>)"
  using f32.extract_moves [OF at_index_start [of "addU32 a [] @ rest" n]]
  by (simp add: addU32_def addCustom_def IncomingMessage_def)

lemma extract2_payload:
  assumes "p = writeAsBE32 a @ writeAsBE32 b @ rest"
  shows "extract2 (IncomingMessage p n) = Some ((a, b), \<lparr>dataBuffer = p, buffSize = n, readIndex = 8\<rparr>)"
proof -
  have "at_index 4 (addU32 b [] @ rest) \<lparr>dataBuffer = p, buffSize = n, readIndex = 4\<rparr>"
    by (simp add: assms at_index_def addU32_def addCustom_def be32.length_enc)
  from f32.extract_moves [OF this] show ?thesis
    using extract1_payload [of a "writeAsBE32 b @ rest" n] by (simp add: extract2_def assms)
qed

lemma extract3_payload:
  assumes "p = writeAsBE32 a @ writeAsBE32 b @ writeAsBE32 c @ rest"
  shows "extract3 (IncomingMessage p n) = Some ((a, b, c), \<lparr>dataBuffer = p, buffSize = n, readIndex = 12\<rparr>)"
proof -
  have "at_index 8 (addU32 c [] @ rest) \<lparr>dataBuffer = p, buffSize = n, readIndex = 8\<rparr>"
    by (simp add: assms at_index_def addU32_def addCustom_def be32.length_enc)
  from f32.extract_moves [OF this] show ?thesis
    using extract2_payload [of p a b "writeAsBE32 c @ rest" n] assms by (simp add: extract3_def)
qed

end
