(* ===== verification/Text_Format.thy ===== *)
theory Text_Format
  imports Transcoder
begin

text \<open>
  The formatting functions of \<open>src/utils/utils.cpp\<close> that work on integers and bytes: \<open>urlEncode\<close>,
  \<open>parseIp\<close> and \<open>formatTime\<close>, over a model of the standard library's decimal and hexadecimal
  output, and \<open>getcwd\<close> over the system call.  The decoder at the end is the specification the encoder is proved against.
\<close>

section \<open>Decimal output\<close>

definition digit_char :: "nat \<Rightarrow> char" where
  "digit_char d = char_of (48 + d)"

text \<open>\<open>std::to_string\<close> of an unsigned value, and \<open>operator<<\<close> of an \<open>int\<close> that is not negative.\<close>

fun to_string :: "nat \<Rightarrow> string" where
  "to_string n = (if n < 10 then [digit_char n] else to_string (n div 10) @ [digit_char (n mod 10)])"

declare to_string.simps [simp del]

text \<open>Reading a decimal back: the specification side of \<open>to_string\<close>.\<close>

definition char_digit :: "char \<Rightarrow> nat" where
  "char_digit c = of_char c - 48"

definition read_decimal :: "string \<Rightarrow> nat" where
  "read_decimal s = foldl (\<lambda>n c. 10 * n + char_digit c) 0 s"

definition is_digit :: "char \<Rightarrow> bool" where
  "is_digit c \<longleftrightarrow> of_char c \<in> {48 .. (57 :: nat)}"

lemma char_digit_digit_char: "d < 10 \<Longrightarrow> char_digit (digit_char d) = d"
  by (simp add: char_digit_def digit_char_def)

lemma is_digit_digit_char: "d < 10 \<Longrightarrow> is_digit (digit_char d)"
  by (simp add: is_digit_def digit_char_def)

lemma read_decimal_snoc: "read_decimal (s @ [c]) = 10 * read_decimal s + char_digit c"
  by (simp add: read_decimal_def)

lemma read_decimal_to_string [simp]: "read_decimal (to_string n) = n"
proof (induction n rule: to_string.induct)
  case (1 n)
  show ?case
  proof (cases "n < 10")
    case True
    then show ?thesis
      by (simp add: to_string.simps [of n] read_decimal_def char_digit_digit_char)
  next
    case False
    with 1 show ?thesis
      by (simp add: to_string.simps [of n] read_decimal_snoc char_digit_digit_char)
  qed
qed

lemma to_string_digits: "c \<in> set (to_string n) \<Longrightarrow> is_digit c"
proof (induction n rule: to_string.induct)
  case (1 n)
  then show ?case
    by (auto simp: to_string.simps [of n] is_digit_digit_char split: if_splits)
qed

lemma to_string_nonempty: "to_string n \<noteq> []"
  by (subst to_string.simps) simp

lemma to_string_inject: "to_string m = to_string n \<longleftrightarrow> m = n"
  by (metis read_decimal_to_string)

section \<open>formatTime\<close>

definition formatTime :: "nat \<Rightarrow> string" where
  "formatTime seconds =
     (let minutes = seconds div 60;
          remainingSeconds = seconds mod 60;
          minutesStr = to_string minutes;
          secondsStr = to_string remainingSeconds;
          minutesStr = (if minutes < 10 then ''0'' @ minutesStr else minutesStr);
          secondsStr = (if remainingSeconds < 10 then ''0'' @ secondsStr else secondsStr)
      in minutesStr @ '':'' @ secondsStr)"

text \<open>Reading the display back: the minutes before the colon, the seconds after it.\<close>

definition read_time :: "string \<Rightarrow> nat" where
  "read_time s =
     60 * read_decimal (takeWhile (\<lambda>c. c \<noteq> CHR '':'') s)
       + read_decimal (tl (dropWhile (\<lambda>c. c \<noteq> CHR '':'') s))"

lemma not_digit_colon: "\<not> is_digit (CHR '':'')"
  by (simp add: is_digit_def)

lemma takeWhile_digits:
  "\<forall>c \<in> set ds. is_digit c \<Longrightarrow> takeWhile (\<lambda>c. c \<noteq> CHR '':'') (ds @ CHR '':'' # r) = ds"
  and dropWhile_digits:
  "\<forall>c \<in> set ds. is_digit c \<Longrightarrow> dropWhile (\<lambda>c. c \<noteq> CHR '':'') (ds @ CHR '':'' # r) = CHR '':'' # r"
  using not_digit_colon by (induction ds) auto

lemma read_decimal_pad: "read_decimal (CHR ''0'' # s) = read_decimal s"
  by (simp add: read_decimal_def char_digit_def)

lemma is_digit_0: "is_digit (CHR ''0'')"
  by (simp add: is_digit_def)

definition pad2 :: "nat \<Rightarrow> string" where
  "pad2 n = (if n < 10 then CHR ''0'' # to_string n else to_string n)"

lemma pad2_digits: "\<forall>c \<in> set (pad2 n). is_digit c"
  using to_string_digits [of _ n] by (auto simp: pad2_def is_digit_0)

lemma read_decimal_pad2: "read_decimal (pad2 n) = n"
  by (simp add: pad2_def read_decimal_pad)

lemma formatTime_pad2: "formatTime s = pad2 (s div 60) @ CHR '':'' # pad2 (s mod 60)"
  by (simp add: formatTime_def pad2_def Let_def)

lemma length_pad2: "n < 100 \<Longrightarrow> length (pad2 n) = 2"
  using to_string.simps [of n] to_string.simps [of "n div 10"] by (auto simp: pad2_def)

section \<open>parseIp\<close>

text \<open>\<open>0 + byte\<close> promotes the byte to an \<open>int\<close>, so that it is printed as a number.\<close>

definition parseIp :: "u32 \<Rightarrow> string" where
  "parseIp ip =
     (let byte3 = ucast (drop_bit 24 (ip AND 0xFF000000)) :: u8;
          byte2 = ucast (drop_bit 16 (ip AND 0x00FF0000)) :: u8;
          byte1 = ucast (drop_bit 8 (ip AND 0x0000FF00)) :: u8;
          byte0 = ucast (ip AND 0x000000FF) :: u8
      in to_string (unat byte0) @ ''.'' @ to_string (unat byte1) @ ''.'' @
         to_string (unat byte2) @ ''.'' @ to_string (unat byte3))"

section \<open>urlEncode\<close>

definition hex_char :: "nat \<Rightarrow> char" where
  "hex_char d = (if d < 10 then char_of (48 + d) else char_of (55 + d))"

text \<open>\<open>isalnum\<close> in the C locale, and the other characters the encoder keeps.\<close>

definition isalnum :: "char \<Rightarrow> bool" where
  "isalnum c \<longleftrightarrow> of_char c \<in> {48 .. (57 :: nat)} \<or> of_char c \<in> {65 .. (90 :: nat)} \<or> of_char c \<in> {97 .. (122 :: nat)}"

definition kept :: "char \<Rightarrow> bool" where
  "kept c \<longleftrightarrow> isalnum c \<or> c = CHR ''-'' \<or> c = CHR ''_'' \<or> c = CHR ''.'' \<or> c = CHR ''~''"

fun urlEncode :: "string \<Rightarrow> string" where
  "urlEncode [] = []"
| "urlEncode (c # cs) =
     (if kept c then [c] else [CHR ''%'', hex_char (of_char c div 16), hex_char (of_char c mod 16)]) @ urlEncode cs"

text \<open>Percent-decoding, as the receiver of the query does it.\<close>

definition hex_value :: "char \<Rightarrow> nat" where
  "hex_value c = (if of_char c < (58 :: nat) then of_char c - 48 else of_char c - 55)"

fun urlDecode :: "string \<Rightarrow> string" where
  "urlDecode (c # cs) =
     (if c = CHR ''%''
      then (case cs of h # l # r \<Rightarrow> char_of (16 * hex_value h + hex_value l) # urlDecode r | _ \<Rightarrow> [])
      else c # urlDecode cs)"
| "urlDecode [] = []"

lemma hex_value_hex_char: "d < 16 \<Longrightarrow> hex_value (hex_char d) = d"
  by (simp add: hex_value_def hex_char_def)

lemma not_kept_percent: "\<not> kept (CHR ''%'')"
  by (simp add: kept_def isalnum_def)

lemma kept_hex_char: "d < 16 \<Longrightarrow> kept (hex_char d)"
  by (auto simp: kept_def isalnum_def hex_char_def)

lemma urlDecode_urlEncode: "urlDecode (urlEncode s) = s"
  and urlEncode_chars: "set (urlEncode s) \<subseteq> insert (CHR ''%'') (Collect kept)"
proof (induction s)
  case (Cons c cs)
  have "of_char c div 16 < (16 :: nat)"
    by (rule less_mult_imp_div_less) simp
  then show "urlDecode (urlEncode (c # cs)) = c # cs"
    "set (urlEncode (c # cs)) \<subseteq> insert (CHR ''%'') (Collect kept)"
    using Cons not_kept_percent by (auto simp: hex_value_hex_char kept_hex_char)
qed simp_all

section \<open>The current directory\<close>

text \<open>
  \<open>getcwd\<close> tries buffers of one chunk, two chunks, and so on.  What the system call does with a buffer
  of \<open>n\<close> bytes is a parameter: the path, or the failure, \<open>True\<close> for \<open>ERANGE\<close>.
\<close>

type_synonym getcwd_call = "nat \<Rightarrow> bool + string"

function getcwd_loop :: "getcwd_call \<Rightarrow> nat \<Rightarrow> string res" where
  "getcwd_loop sys chunks =
     (if 10240 \<le> chunks
      then Inl (Uncaught ''Cannot determine the current path; the path is apparently unreasonably long'')
      else case sys (255 * chunks) of
             Inr p \<Rightarrow> Inr p
           | Inl erange \<Rightarrow> if \<not> erange then Inl (Uncaught ''Cannot determine the current path.'')
                         else getcwd_loop sys (chunks + 1))"
  by pat_completeness auto
termination
  by (relation "measure (\<lambda>(sys, chunks). 10240 - chunks)") auto

declare getcwd_loop.simps [simp del]

definition getcwd :: "getcwd_call \<Rightarrow> string res" where
  "getcwd sys =
     (case sys 255 of
        Inr p \<Rightarrow> Inr p
      | Inl erange \<Rightarrow> if \<not> erange then Inl (Uncaught ''Cannot determine the current path.'') else getcwd_loop sys 2)"

text \<open>The documented system call: the path and its terminating zero have to fit.\<close>

definition system_getcwd :: "string \<Rightarrow> getcwd_call" where
  "system_getcwd p n = (if length p < n then Inr p else Inl True)"

lemma getcwd_loop_system:
  "getcwd_loop (system_getcwd p) k =
     (if k < 10240 \<and> length p < 255 * 10239 then Inr p
      else Inl (Uncaught ''Cannot determine the current path; the path is apparently unreasonably long''))"
proof (induction "system_getcwd p" k rule: getcwd_loop.induct)
  case (1 k)
  show ?case
  proof (cases "10240 \<le> k \<or> length p < 255 * k")
    case True
    then show ?thesis
      by (subst getcwd_loop.simps) (auto simp: system_getcwd_def)
  next
    case False
    then have "getcwd_loop (system_getcwd p) k = getcwd_loop (system_getcwd p) (k + 1)"
      by (subst getcwd_loop.simps) (simp add: system_getcwd_def)
    also have "\<dots> = (if k + 1 < 10240 \<and> length p < 255 * 10239 then Inr p
        else Inl (Uncaught ''Cannot determine the current path; the path is apparently unreasonably long''))"
      using False by (intro 1) (simp_all add: system_getcwd_def)
    finally show ?thesis
      using False by auto
  qed
qed

lemma getcwd_system:
  "getcwd (system_getcwd p) =
     (if length p < 255 * 10239 then Inr p
      else Inl (Uncaught ''Cannot determine the current path; the path is apparently unreasonably long''))"
  by (simp add: getcwd_def getcwd_loop_system [of p 2] system_getcwd_def [of p 255])

section \<open>Properties\<close>

text \<open>
  C38: percent-decoding the encoded query component gives back the original bytes, and the encoded
  text holds only unreserved characters and percent signs, so that it cannot end the query or add
  a parameter to it.
\<close>

theorem urlEncode_roundtrip:
  "urlDecode (urlEncode s) = s \<and> set (urlEncode s) \<subseteq> insert (CHR ''%'') (Collect kept)"
  by (simp add: urlDecode_urlEncode urlEncode_chars)

text \<open>
  The displayed time determines the number of seconds: the two fields read back as decimals
  are the minutes and the seconds, each at least two digits wide.
\<close>

lemma formatTime_roundtrip:
  "read_time (formatTime s) = s \<and> 5 \<le> length (formatTime s)"
proof -
  have "read_time (formatTime s) = 60 * (s div 60) + s mod 60"
    by (simp add: read_time_def formatTime_pad2 takeWhile_digits dropWhile_digits pad2_digits read_decimal_pad2)
  moreover have "2 \<le> length (pad2 n)" for n
    using length_pad2 [of n] to_string_nonempty [of "n div 10"]
    by (cases "n < 100") (auto simp: pad2_def to_string.simps [of n] Suc_le_eq)
  ultimately show ?thesis
    using add_le_mono [of 2 "length (pad2 (s div 60))" 2 "length (pad2 (s mod 60))"]
    by (simp add: formatTime_pad2)
qed

lemma byte_masks:
  "(0xFF000000 :: u32) = push_bit 24 (mask 8)" "(0x00FF0000 :: u32) = push_bit 16 (mask 8)"
  "(0x0000FF00 :: u32) = push_bit 8 (mask 8)" "(0x000000FF :: u32) = mask 8"
  by (simp_all add: mask_eq_exp_minus_1)

lemma parseIp_byte:
  fixes a b c d :: u8
  shows
    "ucast (drop_bit 24 ((push_bit 24 (ucast d) OR push_bit 16 (ucast c) OR push_bit 8 (ucast b) OR ucast a :: u32)
       AND 0xFF000000)) = d"
    "ucast (drop_bit 16 ((push_bit 24 (ucast d) OR push_bit 16 (ucast c) OR push_bit 8 (ucast b) OR ucast a :: u32)
       AND 0x00FF0000)) = c"
    "ucast (drop_bit 8 ((push_bit 24 (ucast d) OR push_bit 16 (ucast c) OR push_bit 8 (ucast b) OR ucast a :: u32)
       AND 0x0000FF00)) = b"
    "ucast ((push_bit 24 (ucast d) OR push_bit 16 (ucast c) OR push_bit 8 (ucast b) OR ucast a :: u32)
       AND 0x000000FF) = a"
  unfolding byte_masks by (rule bit_word_eqI; auto simp: bit_simps dest: bit_imp_le_length)+

text \<open>
  An address of a tracker's compact peer list, read with the little-endian reader as
  \<open>connectToPeers\<close> does, is printed by \<open>parseIp\<close> in dotted notation in the order of its bytes.
\<close>

lemma parseIp_dotted:
  "map_option parseIp (readAsLE32 (a # b # c # d # r)) =
     Some (to_string (unat a) @ ''.'' @ to_string (unat b) @ ''.'' @ to_string (unat c) @ ''.'' @ to_string (unat d))"
  by (simp only: readAsLE32_Cons option.map parseIp_def Let_def parseIp_byte)

end
