(* ===== verification/Swarm_State.thy ===== *)
theory Swarm_State
  imports Messages Text_Format
begin

text \<open>
  The data of the client: \<open>Torrent\<close> (\<open>src/torrent/torrent.hpp\<close>), \<open>Peer\<close> (\<open>src/torrent/peer.hpp\<close>) and
  \<open>Connection\<close> (\<open>src/net/connection.hpp\<close>) as records, the heap of peers as a function from peer
  identities (the addresses of the shared objects), the file on disk, and what the operating system
  and the Boost libraries provide as a record of functions.  A \<open>size_t\<close> that counts objects in
  memory is a \<open>nat\<close>; a byte count or an offset computed from the torrent file keeps its 64 bits.
\<close>

section \<open>Connection\<close>

text \<open>
  The read callbacks of the program, one constructor per closure: the handshake handlers installed
  by \<open>Peer::connect\<close> and \<open>Peer::authenticate\<close>, \<open>Peer::handle\<close>, and the message handler inside it.
\<close>

datatype read_cb = Connect_handshake | Authenticate_handshake | Handle | Handle_body

text \<open>
  How far \<open>Connection::connect\<close> has got: the resolver runs, then \<open>async_connect\<close>, which opens the socket.
\<close>

datatype connect_stage = NotConnecting | Resolving | Connecting

text \<open>
  \<open>socket_open\<close> is \<open>socket.is_open()\<close>, \<open>remote\<close> the address \<open>remote_endpoint\<close> yields (\<open>None\<close> for an
  error), \<open>reading\<close> the length of the pending \<open>async_read\<close>, \<open>errorCB\<close> whether the error callback
  is set (it is always \<open>Peer::handleError\<close> of the owner), \<open>dialled\<close> the host and the port handed to
  the resolver, \<open>sent\<close> the buffers handed to \<open>async_write\<close> so far.
\<close>

record connection =
  socket_open :: bool
  remote :: "u32 option"
  readCB :: "read_cb option"
  reading :: "u64 option"
  connCB :: bool
  dialled :: "(string \<times> string) option"
  stage :: connect_stage
  errorCB :: bool
  inputStream :: buffer
  sent :: "buffer list"

section \<open>Peer\<close>

datatype pstate = AM_CHOKING | AM_INTERESTED | PEER_CHOKING | PEER_INTERESTED

text \<open>\<open>Peer::Block\<close> and \<open>Peer::Piece\<close>: \<open>bdata\<close> is \<open>None\<close> for the null pointer.\<close>

record block =
  bsize :: nat
  bdata :: "buffer option"

record qpiece =
  index :: nat
  haveBlocks :: nat
  totalBlocks :: nat
  blocks :: "block list"

record peer =
  hasPieceIndexes :: "nat list"
  pieceQueue :: "qpiece list"
  peerId :: buffer
  conn :: connection
  pstate :: "pstate \<Rightarrow> bool"

section \<open>Torrent\<close>

record tpiece =
  finished :: bool
  priority :: int
  hash :: buffer

text \<open>
  \<open>Acceptor\<close>: the port its listening socket is bound to and the field \<open>started\<close>.  The field \<open>acceptor\<close> of
  the torrent is the one it points to, if any.
  \<open>Torrent::File\<close>: \<open>fp\<close> tells whether the pointer is set, the open file itself is \<open>disk\<close> below.
\<close>

record acceptor_rec =
  local_port :: u16
  started :: bool

record file_rec =
  path :: string
  fp :: bool
  fbegin :: u64
  flength :: u64

record torrent =
  acceptor :: "acceptor_rec option"
  activePeers :: "nat list"
  blackListed :: "u32 set"
  pieces :: "tpiece list"
  tfile :: file_rec
  bitfield :: "bool list"
  completedPieces :: nat
  uploadedBytes :: u64
  downloadedBytes :: u64
  wastedBytes :: u64
  pieceHashMisses :: nat
  pieceLength :: u64
  totalSize :: u64
  name :: string
  mainTrackerUrl :: string
  downloadDir :: string
  handshake :: buffer
  ownPeerId :: buffer

section \<open>The world\<close>

text \<open>The reasons a peer is given up for: the messages \<open>Peer::handleError\<close> is called with.\<close>

datatype peer_error =
    HandshakeMismatch
  | BadLengthPrefix
  | BadSize u8
  | RequestWithoutInterest
  | RequestWhileChoked
  | RequestTooBig u32
  | BlockTooBig u64
  | NotAskedFor u32
  | BlockIndexTooBig
  | RemotelyChoked
  | SocketError string

text \<open>An open stream: the contents of the regular file and the position.\<close>

record stream =
  contents :: buffer
  fpos :: nat

text \<open>
  \<open>peers\<close> is the heap, \<open>nextPeer\<close> the next free identity, \<open>errlog\<close> the errors reported to
  \<open>removePeer\<close>, newest last.  \<open>accepted\<close> is not state of the program: it records the pieces, with
  their data, whose hash check succeeded.
\<close>

record world =
  tor :: torrent
  peers :: "nat \<Rightarrow> peer"
  nextPeer :: nat
  disk :: stream
  errlog :: "(nat \<times> peer_error) list"
  accepted :: "(nat \<times> buffer) list"

text \<open>
  What is not under \<open>src/\<close>: the five words of the SHA-1 digest (Boost), the number of bytes
  \<open>fwrite\<close> manages to write at a position, whether the file can be opened again for reading, and the
  bytes \<open>new uint8_t[n]\<close> leaves in the array it allocates.
\<close>

record env =
  sha1_digest :: "buffer \<Rightarrow> nat \<Rightarrow> u32"
  fwrite_count :: "stream \<Rightarrow> buffer \<Rightarrow> nat"
  reopen_ok :: bool
  uninitialised :: "nat \<Rightarrow> u8"

section \<open>Updating parts of the world\<close>

definition upd_tor :: "(torrent \<Rightarrow> torrent) \<Rightarrow> world \<Rightarrow> world" where
  "upd_tor f w = w\<lparr>tor := f (tor w)\<rparr>"

definition upd_peer :: "nat \<Rightarrow> (peer \<Rightarrow> peer) \<Rightarrow> world \<Rightarrow> world" where
  "upd_peer pid f w = w\<lparr>peers := (peers w)(pid := f (peers w pid))\<rparr>"

definition upd_conn :: "nat \<Rightarrow> (connection \<Rightarrow> connection) \<Rightarrow> world \<Rightarrow> world" where
  "upd_conn pid f = upd_peer pid (\<lambda>p. p\<lparr>conn := f (conn p)\<rparr>)"

definition set_flag :: "pstate \<Rightarrow> bool \<Rightarrow> peer \<Rightarrow> peer" where
  "set_flag s b p = p\<lparr>pstate := (pstate p)(s := b)\<rparr>"

text \<open>\<open>state.test(s)\<close> of a peer, and its connection.\<close>

abbreviation flag :: "world \<Rightarrow> nat \<Rightarrow> pstate \<Rightarrow> bool" where
  "flag w pid s \<equiv> pstate (peers w pid) s"

abbreviation conn_of :: "world \<Rightarrow> nat \<Rightarrow> connection" where
  "conn_of w pid \<equiv> conn (peers w pid)"

named_theorems upd_simps

lemma upd_tor_simps [simp, upd_simps]:
  "tor (upd_tor f w) = f (tor w)" "peers (upd_tor f w) = peers w" "disk (upd_tor f w) = disk w"
  "nextPeer (upd_tor f w) = nextPeer w" "errlog (upd_tor f w) = errlog w"
  "accepted (upd_tor f w) = accepted w"
  by (simp_all add: upd_tor_def)

lemma upd_peer_simps [simp, upd_simps]:
  "tor (upd_peer pid f w) = tor w" "disk (upd_peer pid f w) = disk w"
  "nextPeer (upd_peer pid f w) = nextPeer w" "errlog (upd_peer pid f w) = errlog w"
  "accepted (upd_peer pid f w) = accepted w"
  "peers (upd_peer pid f w) q = (if q = pid then f (peers w pid) else peers w q)"
  by (simp_all add: upd_peer_def)

lemma upd_conn_simps [simp, upd_simps]:
  "tor (upd_conn pid f w) = tor w" "disk (upd_conn pid f w) = disk w"
  "nextPeer (upd_conn pid f w) = nextPeer w" "errlog (upd_conn pid f w) = errlog w"
  "accepted (upd_conn pid f w) = accepted w"
  "peers (upd_conn pid f w) q =
     (if q = pid then (peers w pid)\<lparr>conn := f (conn (peers w pid))\<rparr> else peers w q)"
  by (simp_all add: upd_conn_def)

lemma set_flag_simps [simp, upd_simps]:
  "hasPieceIndexes (set_flag s b p) = hasPieceIndexes p" "pieceQueue (set_flag s b p) = pieceQueue p"
  "conn (set_flag s b p) = conn p" "peerId (set_flag s b p) = peerId p"
  "pstate (set_flag s b p) t = (if t = s then b else pstate p t)"
  by (simp_all add: set_flag_def)

end
