(* ===== verification/Net_Connection.thy ===== *)
theory Net_Connection
  imports Swarm_State
begin

text \<open>
  \<open>Connection\<close> of \<open>src/net/connection.cpp\<close> and \<open>connection.hpp\<close>, and the state of \<open>Acceptor\<close>
  (\<open>src/net/acceptor.cpp\<close>).  The socket, the resolver and the stream buffer are Boost.Asio's: what
  is modelled is what the program does to them.  The handlers Asio runs when an operation ends are
  functions of their own here; the events that make it run them are in \<open>Peer_Handler\<close>.
\<close>

section \<open>Connection\<close>

definition new_connection :: connection where
  "new_connection =
     \<lparr>socket_open = False, remote = None, readCB = None, reading = None, connCB = False,
      dialled = None, stage = NotConnecting, errorCB = False, inputStream = [], sent = []\<rparr>"

definition isConnected :: "nat \<Rightarrow> world \<Rightarrow> bool" where
  "isConnected pid w \<longleftrightarrow> socket_open (conn_of w pid)"

text \<open>
  Closing the socket aborts the pending read and a pending connect; their handlers then return
  without a callback.
\<close>

definition conn_close :: "nat \<Rightarrow> world \<Rightarrow> world" where
  "conn_close pid w =
     (if \<not> isConnected pid w then w
      else upd_conn pid (\<lambda>c. c\<lparr>socket_open := False, reading := None, stage := NotConnecting\<rparr>) w)"

definition conn_read :: "u64 \<Rightarrow> read_cb \<Rightarrow> nat \<Rightarrow> world \<Rightarrow> world" where
  "conn_read bytes rc pid w =
     (if \<not> isConnected pid w then w
      else upd_conn pid (\<lambda>c. c\<lparr>readCB := Some rc, reading := Some bytes\<rparr>) w)"

definition conn_write :: "buffer \<Rightarrow> nat \<Rightarrow> world \<Rightarrow> world" where
  "conn_write data pid w =
     (if \<not> isConnected pid w then w else upd_conn pid (\<lambda>c. c\<lparr>sent := sent c @ [data]\<rparr>) w)"

text \<open>The overload for an outgoing message evaluates \<open>om.data()\<close>.\<close>

definition conn_write_out :: "outgoing \<Rightarrow> nat \<Rightarrow> world \<Rightarrow> world res" where
  "conn_write_out om pid w = bind_res (out_data om) (\<lambda>data. Inr (conn_write data pid w))"

text \<open>\<open>host_to_network_long\<close> on the little-endian machines the program is built for.\<close>

definition htonl :: "u32 \<Rightarrow> u32" where
  "htonl v =
     push_bit 24 (v AND 0xFF) OR push_bit 8 (v AND 0xFF00) OR
     drop_bit 8 (v AND 0xFF0000) OR drop_bit 24 v"

definition getIP :: "connection \<Rightarrow> u32" where
  "getIP c =
     (if \<not> socket_open c then 0
      else case remote c of None \<Rightarrow> 0 | Some a \<Rightarrow> htonl a)"

definition getIPString :: "connection \<Rightarrow> string" where
  "getIPString c = parseIp (getIP c)"

definition setErrorCallback :: "bool \<Rightarrow> nat \<Rightarrow> world \<Rightarrow> world" where
  "setErrorCallback cb pid = upd_conn pid (\<lambda>c. c\<lparr>errorCB := cb\<rparr>)"

definition resetAllCallbacks :: "nat \<Rightarrow> world \<Rightarrow> world" where
  "resetAllCallbacks pid = upd_conn pid (\<lambda>c. c\<lparr>readCB := None, connCB := False, errorCB := False\<rparr>)"

text \<open>\<open>connect\<close> stores the callback and starts the resolver; the rest happens in handlers.\<close>

definition conn_connect :: "string \<Rightarrow> string \<Rightarrow> nat \<Rightarrow> world \<Rightarrow> world" where
  "conn_connect host port pid = upd_conn pid (\<lambda>c. c\<lparr>connCB := True, dialled := Some (host, port), stage := Resolving\<rparr>)"

lemmas conn_defs = conn_close_def conn_read_def conn_write_def setErrorCallback_def conn_connect_def isConnected_def

lemma isConnected_upd_tor [simp]: "isConnected pid (upd_tor f w) = isConnected pid w"
  by (simp add: isConnected_def)

section \<open>Acceptor\<close>

text \<open>
  The constructor opens, binds and configures the listening socket; \<open>bound\<close> tells whether the system lets it
  have the port.  If it does not, Boost throws, and nothing on the way to \<open>main\<close> catches it.
\<close>

definition new_acceptor :: "u16 \<Rightarrow> bool \<Rightarrow> torrent \<Rightarrow> torrent res" where
  "new_acceptor p bound t =
     (if bound then Inr (t\<lparr>acceptor := Some \<lparr>local_port = p, started = False\<rparr>\<rparr>)
      else Inl (Uncaught ''boost::system::system_error''))"

definition acceptor_stop :: "torrent \<Rightarrow> torrent" where
  "acceptor_stop t = t\<lparr>acceptor := map_option (\<lambda>a. a\<lparr>started := False\<rparr>) (acceptor t)\<rparr>"

definition acceptor_isStarted :: "torrent \<Rightarrow> bool res" where
  "acceptor_isStarted t = (case acceptor t of None \<Rightarrow> Inl NullDeref | Some a \<Rightarrow> Inr (started a))"

definition initiateAsyncAcceptLoop :: "torrent \<Rightarrow> torrent res" where
  "initiateAsyncAcceptLoop t =
     (case acceptor t of None \<Rightarrow> Inl NullDeref | Some a \<Rightarrow> Inr (t\<lparr>acceptor := Some (a\<lparr>started := True\<rparr>)\<rparr>))"

text \<open>The state the two leave behind: an acceptor that listens, on the port it was made with.\<close>

definition listen :: "u16 \<Rightarrow> torrent \<Rightarrow> torrent" where
  "listen p t = t\<lparr>acceptor := Some \<lparr>local_port = (case acceptor t of None \<Rightarrow> p | Some a \<Rightarrow> local_port a), started = True\<rparr>\<rparr>"

lemma listen_simps [simp]:
  "activePeers (listen p t) = activePeers t" "blackListed (listen p t) = blackListed t" "pieces (listen p t) = pieces t"
  "tfile (listen p t) = tfile t" "bitfield (listen p t) = bitfield t" "completedPieces (listen p t) = completedPieces t"
  "uploadedBytes (listen p t) = uploadedBytes t" "downloadedBytes (listen p t) = downloadedBytes t"
  "wastedBytes (listen p t) = wastedBytes t" "pieceHashMisses (listen p t) = pieceHashMisses t"
  "pieceLength (listen p t) = pieceLength t" "totalSize (listen p t) = totalSize t" "name (listen p t) = name t"
  "mainTrackerUrl (listen p t) = mainTrackerUrl t" "downloadDir (listen p t) = downloadDir t"
  "handshake (listen p t) = handshake t" "ownPeerId (listen p t) = ownPeerId t"
  "acceptor (listen p t) = Some \<lparr>local_port = (case acceptor t of None \<Rightarrow> p | Some a \<Rightarrow> local_port a), started = True\<rparr>"
  by (simp_all add: listen_def)

section \<open>What the layer above relies on when it sends\<close>

text \<open>
  The operations by which a peer puts a buffer on the wire: it reaches the output of that connection
  only, in order, if the connection is live, and changes nothing the interface can observe otherwise.
\<close>

locale wire =
  fixes put :: "buffer \<Rightarrow> nat \<Rightarrow> 'w \<Rightarrow> 'w"
    and out :: "'w \<Rightarrow> nat \<Rightarrow> buffer list"
    and live :: "'w \<Rightarrow> nat \<Rightarrow> bool"
    and rest :: "'w \<Rightarrow> 's"
  assumes out_put: "out (put b p w) q = (if q = p \<and> live w p then out w q @ [b] else out w q)"
    and live_put: "live (put b p w) = live w"
    and rest_put: "rest (put b p w) = rest w"
begin

definition put_all :: "buffer list \<Rightarrow> nat \<Rightarrow> 'w \<Rightarrow> 'w" where
  "put_all bs p w = fold (\<lambda>b. put b p) bs w"

lemma put_all_Nil [simp]: "put_all [] p w = w"
  and put_all_Cons [simp]: "put_all (b # bs) p w = put_all bs p (put b p w)"
  and put_all_append: "put_all (bs @ cs) p w = put_all cs p (put_all bs p w)"
  by (simp_all add: put_all_def)

lemma rest_put_all: "rest (put_all bs p w) = rest w"
  by (induction bs arbitrary: w) (simp_all add: rest_put)

lemma out_put_all: "out (put_all bs p w) q = (if q = p \<and> live w p then out w q @ bs else out w q)"
  by (induction bs arbitrary: w) (auto simp: out_put live_put)

text \<open>One buffer to each of several connections, as a broadcast does; \<open>g\<close> selects the receivers.\<close>

lemma out_broadcast:
  assumes "distinct ps"
  shows "out (fold (\<lambda>p w. if g p then put b p w else w) ps w) q =
     (if q \<in> set ps \<and> g q \<and> live w q then out w q @ [b] else out w q)"
  using assms by (induction ps arbitrary: w) (auto simp: out_put live_put)

lemma rest_broadcast: "rest (fold (\<lambda>p w. if g p then put b p w else w) ps w) = rest w"
  by (induction ps arbitrary: w) (auto simp: rest_put)

end

text \<open>Everything of the world but the output of the connections.\<close>

definition hush :: "world \<Rightarrow> world" where
  "hush w = w\<lparr>peers := (\<lambda>p. (peers w p)\<lparr>conn := (conn (peers w p))\<lparr>sent := []\<rparr>\<rparr>)\<rparr>"

lemma hush_eqD:
  assumes "hush w' = hush w"
  shows "tor w' = tor w" "disk w' = disk w" "errlog w' = errlog w" "nextPeer w' = nextPeer w"
    "hasPieceIndexes (peers w' q) = hasPieceIndexes (peers w q)"
    "pieceQueue (peers w' q) = pieceQueue (peers w q)" "pstate (peers w' q) = pstate (peers w q)"
    "peerId (peers w' q) = peerId (peers w q)"
    "(conn_of w' q)\<lparr>sent := []\<rparr> = (conn_of w q)\<lparr>sent := []\<rparr>"
    "isConnected q w' = isConnected q w" "getIP (conn_of w' q) = getIP (conn_of w q)"
    "accepted w' = accepted w"
proof -
  have "peers (hush w') q = peers (hush w) q"
    using assms by simp
  then have *: "(peers w' q)\<lparr>conn := (conn_of w' q)\<lparr>sent := []\<rparr>\<rparr> = (peers w q)\<lparr>conn := (conn_of w q)\<lparr>sent := []\<rparr>\<rparr>"
    by (simp add: hush_def)
  have c: "(conn_of w' q)\<lparr>sent := []\<rparr> = (conn_of w q)\<lparr>sent := []\<rparr>"
    using arg_cong [OF *, of conn] by simp
  show "hasPieceIndexes (peers w' q) = hasPieceIndexes (peers w q)"
    "pieceQueue (peers w' q) = pieceQueue (peers w q)" "pstate (peers w' q) = pstate (peers w q)"
    "peerId (peers w' q) = peerId (peers w q)"
    "(conn_of w' q)\<lparr>sent := []\<rparr> = (conn_of w q)\<lparr>sent := []\<rparr>"
    using arg_cong [OF *, of hasPieceIndexes] arg_cong [OF *, of pieceQueue] arg_cong [OF *, of pstate]
      arg_cong [OF *, of peerId] c by simp_all
  show "isConnected q w' = isConnected q w" "getIP (conn_of w' q) = getIP (conn_of w q)"
    using arg_cong [OF c, of socket_open] arg_cong [OF c, of remote] by (simp_all add: isConnected_def getIP_def)
  show "tor w' = tor w" "disk w' = disk w" "errlog w' = errlog w" "nextPeer w' = nextPeer w"
    "accepted w' = accepted w"
    using arg_cong [OF assms, of accepted] arg_cong [OF assms, of tor] arg_cong [OF assms, of disk] arg_cong [OF assms, of errlog]
      arg_cong [OF assms, of nextPeer] by (simp_all add: hush_def)
qed

interpretation wr: wire conn_write "\<lambda>w p. sent (conn_of w p)" "\<lambda>w p. isConnected p w" hush
  by unfold_locales (auto simp: conn_write_def isConnected_def hush_def upd_conn_def upd_peer_def fun_eq_iff)

lemma conn_write_frame [simp]:
  "tor (conn_write b p w) = tor w" "disk (conn_write b p w) = disk w" "errlog (conn_write b p w) = errlog w"
  "nextPeer (conn_write b p w) = nextPeer w" "isConnected q (conn_write b p w) = isConnected q w"
  "pieceQueue (peers (conn_write b p w) q) = pieceQueue (peers w q)"
  "hasPieceIndexes (peers (conn_write b p w) q) = hasPieceIndexes (peers w q)"
  "pstate (peers (conn_write b p w) q) = pstate (peers w q)"
  "getIP (conn_of (conn_write b p w) q) = getIP (conn_of w q)"
  "accepted (conn_write b p w) = accepted w"
  using hush_eqD [OF wr.rest_put] by simp_all

lemma conn_write_out_nonempty [simp]: "om \<noteq> [] \<Longrightarrow> conn_write_out om pid w = Inr (conn_write om pid w)"
  by (simp add: conn_write_out_def out_data_def)

end
