(* ===== verification/Peer_Registry.thy ===== *)
theory Peer_Registry
  imports Net_Connection
begin

text \<open>
  The torrent's containers of peers and the operations of \<open>src/torrent/torrent.cpp\<close> and
  \<open>src/torrent/peer.cpp\<close> that add a peer to them or give one up: \<open>addPeer\<close>, \<open>handshaked\<close>,
  \<open>removePeer\<close>, \<open>disconnectPeers\<close>, and \<open>Peer::disconnect\<close>, \<open>Peer::handleError\<close>.  A peer is
  looked up by its address, which a closed socket no longer knows: the order of the two calls in
  \<open>handleError\<close> matters.
\<close>

section \<open>Operations\<close>

definition getRawIp :: "world \<Rightarrow> nat \<Rightarrow> u32" where
  "getRawIp w pid = getIP (conn_of w pid)"

text \<open>\<open>std::find_if\<close> and \<open>erase\<close> of the element found.\<close>

fun erase_first :: "('a \<Rightarrow> bool) \<Rightarrow> 'a list \<Rightarrow> 'a list" where
  "erase_first P [] = []"
| "erase_first P (x # xs) = (if P x then xs else x # erase_first P xs)"

definition addPeer :: "nat \<Rightarrow> torrent \<Rightarrow> torrent" where
  "addPeer pid t = t\<lparr>activePeers := activePeers t @ [pid]\<rparr>"

definition handshaked :: "nat \<Rightarrow> world \<Rightarrow> world" where
  "handshaked pid w =
     upd_tor (\<lambda>t. t\<lparr>blackListed := blackListed t - {getRawIp w pid}\<rparr>) (upd_tor (addPeer pid) w)"

definition removePeer :: "nat \<Rightarrow> peer_error \<Rightarrow> world \<Rightarrow> world" where
  "removePeer pid errmsg w =
     upd_tor (\<lambda>t. t\<lparr>activePeers := erase_first (\<lambda>q. getRawIp w pid = getRawIp w q) (activePeers t)\<rparr>)
       (w\<lparr>errlog := errlog w @ [(pid, errmsg)]\<rparr>)"

definition peer_disconnect :: "nat \<Rightarrow> world \<Rightarrow> world" where
  "peer_disconnect pid w = setErrorCallback False pid (conn_close pid w)"

definition peer_handleError :: "peer_error \<Rightarrow> nat \<Rightarrow> world \<Rightarrow> world" where
  "peer_handleError errmsg pid w = peer_disconnect pid (removePeer pid errmsg w)"

definition disconnectPeers :: "world \<Rightarrow> world" where
  "disconnectPeers w =
     (let w1 = (if acceptor (tor w) = None then w else upd_tor acceptor_stop w)
      in fold peer_disconnect (activePeers (tor w1)) w1)"

text \<open>
  \<open>Connection::handleError\<close>: an aborted operation is ignored; otherwise the error callback, which
  is the owner's \<open>handleError\<close>, and then the socket is closed if the callback did not.
\<close>

definition conn_handleError :: "bool \<Rightarrow> string \<Rightarrow> nat \<Rightarrow> world \<Rightarrow> world" where
  "conn_handleError aborted msg pid w =
     (if aborted then w
      else let w1 = (if errorCB (conn_of w pid) then peer_handleError (SocketError msg) pid w else w)
           in if isConnected pid w1 then conn_close pid w1 else w1)"

section \<open>Lemmas\<close>

lemma set_erase_first_subset: "set (erase_first P xs) \<subseteq> set xs"
  by (induction xs) auto

lemma erase_first_unique:
  "x \<in> set xs \<Longrightarrow> distinct xs \<Longrightarrow> \<forall>y \<in> set xs. P y = (y = x) \<Longrightarrow>
     erase_first P xs = filter (\<lambda>y. y \<noteq> x) xs"
proof (induction xs)
  case Nil
  then show ?case by simp
next
  case (Cons a xs)
  show ?case
  proof (cases "a = x")
    case True
    with Cons.prems(2) have "filter (\<lambda>y. y \<noteq> x) xs = xs"
      by (intro filter_True) auto
    with True Cons.prems(3) show ?thesis by simp
  next
    case False
    with Cons show ?thesis by simp
  qed
qed

lemma conn_close_frame [simp]:
  "tor (conn_close pid w) = tor w" "disk (conn_close pid w) = disk w" "errlog (conn_close pid w) = errlog w"
  "nextPeer (conn_close pid w) = nextPeer w" "accepted (conn_close pid w) = accepted w"
  "pieceQueue (peers (conn_close pid w) q) = pieceQueue (peers w q)"
  "hasPieceIndexes (peers (conn_close pid w) q) = hasPieceIndexes (peers w q)"
  "pstate (peers (conn_close pid w) q) = pstate (peers w q)"
  "sent (conn_of (conn_close pid w) q) = sent (conn_of w q)"
  "isConnected q (conn_close pid w) \<longleftrightarrow> isConnected q w \<and> q \<noteq> pid"
  by (auto simp: conn_defs)

lemma peer_disconnect_frame [simp]:
  "tor (peer_disconnect pid w) = tor w" "disk (peer_disconnect pid w) = disk w"
  "errlog (peer_disconnect pid w) = errlog w" "nextPeer (peer_disconnect pid w) = nextPeer w"
  "accepted (peer_disconnect pid w) = accepted w"
  "pieceQueue (peers (peer_disconnect pid w) q) = pieceQueue (peers w q)"
  "hasPieceIndexes (peers (peer_disconnect pid w) q) = hasPieceIndexes (peers w q)"
  "pstate (peers (peer_disconnect pid w) q) = pstate (peers w q)"
  "sent (conn_of (peer_disconnect pid w) q) = sent (conn_of w q)"
  "isConnected q (peer_disconnect pid w) \<longleftrightarrow> isConnected q w \<and> q \<noteq> pid"
  by (simp_all add: peer_disconnect_def setErrorCallback_def)
    (auto simp: isConnected_def conn_close_def split: if_splits)

lemma removePeer_frame [simp]:
  "disk (removePeer pid e w) = disk w" "peers (removePeer pid e w) = peers w"
  "nextPeer (removePeer pid e w) = nextPeer w" "accepted (removePeer pid e w) = accepted w" "errlog (removePeer pid e w) = errlog w @ [(pid, e)]"
  "isConnected q (removePeer pid e w) = isConnected q w"
  "tor (removePeer pid e w) =
     (tor w)\<lparr>activePeers := erase_first (\<lambda>q. getRawIp w pid = getRawIp w q) (activePeers (tor w))\<rparr>"
  by (simp_all add: removePeer_def isConnected_def)

lemma peer_handleError_frame [simp]:
  "disk (peer_handleError e pid w) = disk w" "nextPeer (peer_handleError e pid w) = nextPeer w"
  "errlog (peer_handleError e pid w) = errlog w @ [(pid, e)]" "accepted (peer_handleError e pid w) = accepted w"
  "pieceQueue (peers (peer_handleError e pid w) q) = pieceQueue (peers w q)"
  "hasPieceIndexes (peers (peer_handleError e pid w) q) = hasPieceIndexes (peers w q)"
  "pstate (peers (peer_handleError e pid w) q) = pstate (peers w q)"
  "sent (conn_of (peer_handleError e pid w) q) = sent (conn_of w q)"
  "isConnected q (peer_handleError e pid w) \<longleftrightarrow> isConnected q w \<and> q \<noteq> pid"
  "tor (peer_handleError e pid w) =
     (tor w)\<lparr>activePeers := erase_first (\<lambda>q. getRawIp w pid = getRawIp w q) (activePeers (tor w))\<rparr>"
  by (simp_all add: peer_handleError_def)

text \<open>The fields of the torrent that giving up a peer does not touch.\<close>

definition registry_frame :: "torrent \<Rightarrow> torrent" where
  "registry_frame t = t\<lparr>activePeers := [], blackListed := {}, acceptor := None\<rparr>"

lemma fold_disconnect:
  "tor (fold peer_disconnect ps w) = tor w"
  "errlog (fold peer_disconnect ps w) = errlog w"
  "isConnected q (fold peer_disconnect ps w) \<longleftrightarrow> isConnected q w \<and> q \<notin> set ps"
  by (induction ps arbitrary: w) auto

section \<open>Properties\<close>

text \<open>
  C32: when no peer is on the active list twice and no two peers of it have the same address, an error of
  one of them takes exactly this peer out of the active list, keeps the others in their order, closes
  its connection and no other, and reports the error once.  (Peers are told apart by their address
  only: of two with one address the first of the list is taken out, whichever of them had the error.)
\<close>

theorem handleError_removes_exactly:
  assumes "pid \<in> set (activePeers (tor w))" and "distinct (activePeers (tor w))"
    and "inj_on (getRawIp w) (set (activePeers (tor w)))"
  shows "activePeers (tor (peer_handleError e pid w)) = filter (\<lambda>q. q \<noteq> pid) (activePeers (tor w))
    \<and> (\<forall>q. isConnected q (peer_handleError e pid w) \<longleftrightarrow> isConnected q w \<and> q \<noteq> pid)
    \<and> errlog (peer_handleError e pid w) = errlog w @ [(pid, e)]"
proof -
  have "erase_first (\<lambda>q. getRawIp w pid = getRawIp w q) (activePeers (tor w)) =
      filter (\<lambda>q. q \<noteq> pid) (activePeers (tor w))"
    by (rule erase_first_unique [OF assms(1, 2)]) (use assms(1, 3) in \<open>auto dest: inj_onD\<close>)
  then show ?thesis by simp
qed

text \<open>
  After \<open>disconnectPeers\<close> the acceptor is stopped and no active peer has an open connection; the
  connections of other peers stay as they are.
\<close>

lemma disconnectPeers_closes_all:
  "(isConnected q (disconnectPeers w) \<longleftrightarrow> isConnected q w \<and> q \<notin> set (activePeers (tor w)))
   \<and> (\<forall>a. acceptor (tor (disconnectPeers w)) = Some a \<longrightarrow> \<not> started a)"
  by (auto simp: disconnectPeers_def Let_def fold_disconnect acceptor_stop_def)

end
