(* ===== verification/Torrent_Geometry.thy ===== *)
theory Torrent_Geometry
  imports Swarm_State
begin

text \<open>
  How the pieces cover the file: \<open>pieceSize\<close>, \<open>pieceDone\<close>, \<open>isFullyDownloaded\<close> and
  \<open>buildTrackerQuery\<close> of \<open>src/torrent/torrent.cpp\<close> and \<open>torrent.hpp\<close>, with the query record of
  \<open>src/torrent/tracker.hpp\<close>, proved against the partition of the file into pieces.
\<close>

section \<open>Operations\<close>

text \<open>
  The result is an \<open>int64_t\<close>; every caller converts it to an unsigned type, so its 64 bits are kept
  as they are.  \<open>totalSize % pieceLength\<close> traps for a piece length of zero.
\<close>

definition pieceSize :: "torrent \<Rightarrow> nat \<Rightarrow> u64 res" where
  "pieceSize t pieceIndex =
     (if Suc pieceIndex = length (pieces t)
      then if pieceLength t = 0 then Inl DivByZero
           else let r = totalSize t mod pieceLength t in if r \<noteq> 0 then Inr r else Inr (pieceLength t)
      else Inr (pieceLength t))"

text \<open>\<open>pieces[pieceIndex].finished\<close>, unchecked.\<close>

definition pieceDone :: "torrent \<Rightarrow> nat \<Rightarrow> bool res" where
  "pieceDone t pieceIndex = bind_res (of_peek (peek (pieces t) pieceIndex)) (\<lambda>p. Inr (finished p))"

definition isFullyDownloaded :: "torrent \<Rightarrow> bool" where
  "isFullyDownloaded t \<longleftrightarrow> completedPieces t = length (pieces t)"

definition getTotalPieces :: "torrent \<Rightarrow> nat" where
  "getTotalPieces t = length (pieces t)"

datatype TrackerEvent = EV_NONE | EV_COMPLETED | EV_STARTED | EV_STOPPED

record TrackerQuery =
  event :: TrackerEvent
  downloaded :: u64
  uploaded :: u64
  remaining :: u64

fun query_loop :: "torrent \<Rightarrow> nat \<Rightarrow> tpiece list \<Rightarrow> u64 \<Rightarrow> u64 res" where
  "query_loop t i [] acc = Inr acc"
| "query_loop t i (p # ps) acc =
     (if finished p then bind_res (pieceSize t i) (\<lambda>s. query_loop t (Suc i) ps (acc + s))
      else query_loop t (Suc i) ps acc)"

definition buildTrackerQuery :: "TrackerEvent \<Rightarrow> torrent \<Rightarrow> TrackerQuery res" where
  "buildTrackerQuery ev t =
     bind_res (query_loop t 0 (pieces t) 0) (\<lambda>d.
       Inr \<lparr>event = ev, downloaded = d, uploaded = 0, remaining = totalSize t - d\<rparr>)"

section \<open>The partition of the file\<close>

text \<open>
  A torrent whose numbers fit together: the pieces of \<open>pieceLength\<close> bytes cover \<open>totalSize\<close> bytes
  and the last of them is not empty.  Piece \<open>i\<close> is then the bytes from \<open>i * pieceLength\<close> up to the
  next piece or the end of the file.
\<close>

definition wf_sizes :: "torrent \<Rightarrow> bool" where
  "wf_sizes t \<longleftrightarrow>
     pieces t \<noteq> [] \<and>
     (length (pieces t) - 1) * unat (pieceLength t) < unat (totalSize t) \<and>
     unat (totalSize t) \<le> length (pieces t) * unat (pieceLength t)"

definition piece_begin :: "torrent \<Rightarrow> nat \<Rightarrow> nat" where
  "piece_begin t i = i * unat (pieceLength t)"

definition piece_end :: "torrent \<Rightarrow> nat \<Rightarrow> nat" where
  "piece_end t i = min (Suc i * unat (pieceLength t)) (unat (totalSize t))"

definition piece_len :: "torrent \<Rightarrow> nat \<Rightarrow> nat" where
  "piece_len t i = piece_end t i - piece_begin t i"

lemma wf_pieceLength_pos: "wf_sizes t \<Longrightarrow> 0 < unat (pieceLength t)"
  by (rule gr0I) (auto simp: wf_sizes_def)

lemma piece_begin_less:
  assumes "wf_sizes t" "i < length (pieces t)"
  shows "piece_begin t i < unat (totalSize t)"
proof -
  have "i * unat (pieceLength t) \<le> (length (pieces t) - 1) * unat (pieceLength t)"
    using assms(2) by (intro mult_le_mono1) simp
  moreover have "(length (pieces t) - 1) * unat (pieceLength t) < unat (totalSize t)"
    using assms(1) by (simp add: wf_sizes_def)
  ultimately show ?thesis
    unfolding piece_begin_def by (rule order.strict_trans1)
qed

lemma piece_len_pos: "wf_sizes t \<Longrightarrow> i < length (pieces t) \<Longrightarrow> 0 < piece_len t i"
  using piece_begin_less [of t i] wf_pieceLength_pos [of t]
  by (simp add: piece_len_def piece_end_def piece_begin_def)

lemma piece_end_le: "piece_end t i \<le> unat (totalSize t)"
  by (simp add: piece_end_def)

lemma piece_begin_le_end:
  "wf_sizes t \<Longrightarrow> i < length (pieces t) \<Longrightarrow> piece_begin t i \<le> piece_end t i"
  using piece_begin_less [of t i] by (simp add: piece_end_def piece_begin_def)

lemma piece_end_before:
  "i < j \<Longrightarrow> piece_end t i \<le> piece_begin t j"
  unfolding piece_end_def piece_begin_def
  by (rule min.coboundedI1) (metis Suc_leI mult_le_mono1)

lemma piece_end_last:
  "wf_sizes t \<Longrightarrow> Suc i = length (pieces t) \<Longrightarrow> piece_end t i = unat (totalSize t)"
  by (auto simp: wf_sizes_def piece_end_def)

lemma piece_end_inner:
  assumes "wf_sizes t" "Suc i < length (pieces t)"
  shows "piece_end t i = piece_begin t (Suc i)"
  using piece_begin_less [OF assms] by (simp add: piece_end_def piece_begin_def)

lemma piece_len_bound: "piece_len t i < 18446744073709551616"
  using unat_u64_less [of "totalSize t"] piece_end_le [of t i] by (simp add: piece_len_def)

text \<open>\<open>pieceSize\<close> computes the length of the piece.\<close>

lemma pieceSize_piece_len:
  assumes wf: "wf_sizes t" and i: "i < length (pieces t)"
  shows "pieceSize t i = Inr (of_nat (piece_len t i))"
proof (cases "Suc i = length (pieces t)")
  case False
  then have "piece_len t i = unat (pieceLength t)"
    using i piece_end_inner [OF wf, of i] by (simp add: piece_len_def piece_begin_def)
  with False show ?thesis by (simp add: pieceSize_def)
next
  case True
  let ?pl = "unat (pieceLength t)" and ?ts = "unat (totalSize t)"
  have pl: "0 < ?pl" "pieceLength t \<noteq> 0"
    using wf_pieceLength_pos [OF wf] by auto
  have len: "piece_len t i = ?ts - i * ?pl"
    using piece_end_last [OF wf True] by (simp add: piece_len_def piece_begin_def)
  have lo: "i * ?pl < ?ts" and hi: "?ts \<le> i * ?pl + ?pl"
    using wf by (auto simp: wf_sizes_def True [symmetric])
  have r: "unat (totalSize t mod pieceLength t) = (?ts - i * ?pl) mod ?pl"
    using lo by (metis (no_types) le_add_diff_inverse2 less_imp_le mod_mult_self1 mult.commute unat_mod_distrib)
  show ?thesis
  proof (cases "?ts = i * ?pl + ?pl")
    case True
    then have "totalSize t mod pieceLength t = 0"
      using r by (simp add: unat_eq_zero)
    then show ?thesis
      using \<open>Suc i = _\<close> pl len True by (simp add: pieceSize_def)
  next
    case False
    then have u: "unat (totalSize t mod pieceLength t) = ?ts - i * ?pl"
    proof -
      have "?ts - i * ?pl < ?pl"
        using False hi pl(1) by linarith
      with r show ?thesis by simp
    qed
    then have nz: "totalSize t mod pieceLength t \<noteq> 0"
      using lo by (metis less_numeral_extra(3) unat_0 zero_less_diff)
    have "totalSize t mod pieceLength t = of_nat (?ts - i * ?pl)"
      using arg_cong [OF u, of "of_nat :: nat \<Rightarrow> u64"] by (simp only: of_nat_unat ucast_id)
    with nz show ?thesis
      using \<open>Suc i = _\<close> pl by (simp add: pieceSize_def Let_def len)
  qed
qed

lemma unat_piece_len: "unat (of_nat (piece_len t i) :: u64) = piece_len t i"
  by (rule unat_of_nat_u64 [OF piece_len_bound])

section \<open>The tracker query\<close>

text \<open>The bytes of the finished pieces, as the partition counts them.\<close>

definition finished_bytes :: "torrent \<Rightarrow> nat \<Rightarrow> nat" where
  "finished_bytes t n = (\<Sum>j<n. if finished (pieces t ! j) then piece_len t j else 0)"

lemma query_loop_sum:
  assumes "wf_sizes t" and "i + length ps = length (pieces t)" and "ps = drop i (pieces t)"
  shows "query_loop t i ps (of_nat (finished_bytes t i)) = Inr (of_nat (finished_bytes t (length (pieces t))))"
  using assms(2, 3)
proof (induction ps arbitrary: i)
  case Nil
  then show ?case by simp
next
  case (Cons p ps)
  from Cons.prems(1) have i: "i < length (pieces t)"
    by simp
  then have p: "p = pieces t ! i" and ps: "ps = drop (Suc i) (pieces t)"
    using Cons_nth_drop_Suc [of i "pieces t"] Cons.prems(2) by (metis list.inject)+
  have "finished_bytes t (Suc i) = finished_bytes t i + (if finished p then piece_len t i else 0)"
    by (simp add: finished_bytes_def p)
  moreover have "query_loop t (Suc i) ps (of_nat (finished_bytes t (Suc i))) =
      Inr (of_nat (finished_bytes t (length (pieces t))))"
    using Cons.prems(1) ps by (intro Cons.IH) simp_all
  ultimately show ?case
    by (cases "finished p") (simp_all add: pieceSize_piece_len [OF assms(1) i])
qed

lemma sum_piece_len:
  "wf_sizes t \<Longrightarrow> n \<le> length (pieces t) \<Longrightarrow>
     (\<Sum>j<n. piece_len t j) = min (n * unat (pieceLength t)) (unat (totalSize t))"
proof (induction n)
  case 0
  then show ?case by simp
next
  case (Suc n)
  then have "piece_begin t n < unat (totalSize t)"
    by (intro piece_begin_less) simp_all
  with Suc show ?case
    by (simp add: piece_len_def piece_end_def piece_begin_def)
qed

lemma finished_bytes_all:
  assumes "wf_sizes t" and "\<forall>p \<in> set (pieces t). finished p"
  shows "finished_bytes t (length (pieces t)) = unat (totalSize t)"
proof -
  have "finished_bytes t (length (pieces t)) = (\<Sum>j<length (pieces t). piece_len t j)"
    unfolding finished_bytes_def using assms(2) by (intro sum.cong) auto
  also have "\<dots> = unat (totalSize t)"
    using assms(1) by (simp add: sum_piece_len wf_sizes_def min_absorb2)
  finally show ?thesis .
qed

lemma finished_bytes_le: "wf_sizes t \<Longrightarrow> finished_bytes t (length (pieces t)) \<le> unat (totalSize t)"
proof -
  assume wf: "wf_sizes t"
  have "finished_bytes t (length (pieces t)) \<le> (\<Sum>j<length (pieces t). piece_len t j)"
    unfolding finished_bytes_def by (rule sum_mono) simp
  also have "\<dots> \<le> unat (totalSize t)"
    using wf by (simp add: sum_piece_len)
  finally show ?thesis .
qed

section \<open>Properties\<close>

text \<open>
  C30: for a torrent whose numbers fit together, \<open>pieceSize\<close> gives each piece the length of its part
  of the file: the parts are not empty, follow one another without gap or overlap, and end where the
  file ends.
\<close>

theorem pieceSize_partition:
  assumes "wf_sizes t" and "i < length (pieces t)"
  shows "\<exists>s. pieceSize t i = Inr s \<and> 0 < unat s \<and>
     piece_begin t i + unat s = (if Suc i = length (pieces t) then unat (totalSize t) else piece_begin t (Suc i))"
  using pieceSize_piece_len [OF assms] piece_len_pos [OF assms] piece_begin_le_end [OF assms]
    piece_end_last [OF assms(1)] piece_end_inner [OF assms(1), of i] assms(2)
  by (auto simp: unat_piece_len) (auto simp: piece_len_def)

text \<open>
  C34: the query sent to the tracker reports the bytes of the finished pieces as downloaded and the
  rest of the file as left, so that the two add up to the file without wrap-around; when every piece
  is finished, everything is downloaded and nothing is left.
\<close>

theorem buildTrackerQuery_counts:
  assumes "wf_sizes t"
  shows "\<exists>q. buildTrackerQuery ev t = Inr q \<and> event q = ev \<and>
     unat (downloaded q) = finished_bytes t (length (pieces t)) \<and>
     unat (downloaded q) + unat (remaining q) = unat (totalSize t) \<and>
     ((\<forall>p \<in> set (pieces t). finished p) \<longrightarrow> downloaded q = totalSize t \<and> remaining q = 0)"
proof -
  let ?n = "finished_bytes t (length (pieces t))"
  have n: "?n \<le> unat (totalSize t)"
    by (rule finished_bytes_le [OF assms])
  then have u: "unat (of_nat ?n :: u64) = ?n"
    using unat_u64_less [of "totalSize t"] by (intro unat_of_nat_u64) simp
  have "finished_bytes t 0 = 0"
    by (simp add: finished_bytes_def)
  with query_loop_sum [OF assms, of 0 "pieces t"] have "query_loop t 0 (pieces t) 0 = Inr (of_nat ?n)"
    by simp
  moreover have "unat (totalSize t - of_nat ?n) = unat (totalSize t) - ?n"
    using n u by (simp add: unat_sub_if' word_le_nat_alt)
  moreover have "of_nat ?n = totalSize t" if "\<forall>p \<in> set (pieces t). finished p"
    using finished_bytes_all [OF assms that] by simp
  ultimately show ?thesis
    using n u by (simp add: buildTrackerQuery_def)
qed

end
