(* ===== verification/Peer_Wire.thy ===== *)
theory Peer_Wire
  imports Peer_Registry Torrent_Geometry
begin

text \<open>
  The messages a peer sends (\<open>src/torrent/peer.cpp\<close>, the \<open>send\<close> functions, \<open>requestPiece\<close> and
  \<open>sendCancelRequest\<close>), and the BitTorrent wire format as their specification: a four-byte
  big-endian length, the message identifier and the payload.
\<close>

section \<open>The wire format\<close>

datatype message =
    Choke | Unchoke | Interested | NotInterested
  | Have u32 | Bitfield buffer | Request u32 u32 u32 | PieceBlock u32 u32 buffer | Cancel u32 u32 u32

fun message_id :: "message \<Rightarrow> u8" where
  "message_id Choke = 0"
| "message_id Unchoke = 1"
| "message_id Interested = 2"
| "message_id NotInterested = 3"
| "message_id (Have _) = 4"
| "message_id (Bitfield _) = 5"
| "message_id (Request _ _ _) = 6"
| "message_id (PieceBlock _ _ _) = 7"
| "message_id (Cancel _ _ _) = 8"

fun payload :: "message \<Rightarrow> buffer" where
  "payload (Have i) = writeAsBE32 i"
| "payload (Bitfield b) = b"
| "payload (Request i b l) = writeAsBE32 i @ writeAsBE32 b @ writeAsBE32 l"
| "payload (PieceBlock i b d) = writeAsBE32 i @ writeAsBE32 b @ d"
| "payload (Cancel i b l) = writeAsBE32 i @ writeAsBE32 b @ writeAsBE32 l"
| "payload _ = []"

definition encode_msg :: "message \<Rightarrow> buffer" where
  "encode_msg m = writeAsBE32 (of_nat (Suc (length (payload m)))) @ message_id m # payload m"

lemma encode_msg_nonempty [simp]: "encode_msg m \<noteq> []"
  by (simp add: encode_msg_def)

section \<open>The send functions\<close>

abbreviation MAX_BLOCK_REQUEST_SIZE :: u64 where
  "MAX_BLOCK_REQUEST_SIZE \<equiv> 16384"

definition sendHave :: "u32 \<Rightarrow> nat \<Rightarrow> world \<Rightarrow> world res" where
  "sendHave i pid w =
     (if flag w pid AM_CHOKING then Inr w
      else conn_write_out (addU32 i (addU8 4 (addU32 5 (OutgoingMessage 9)))) pid w)"

definition sendBitfield :: "buffer \<Rightarrow> nat \<Rightarrow> world \<Rightarrow> world res" where
  "sendBitfield rBitfield pid w =
     conn_write_out
       (addCustom rBitfield (addU8 5 (addU32 (ucast (1 + of_nat (length rBitfield) :: u64))
          (OutgoingMessage (5 + of_nat (length rBitfield)))))) pid w"

definition sendPieceBlock :: "u32 \<Rightarrow> u32 \<Rightarrow> buffer \<Rightarrow> u32 \<Rightarrow> nat \<Rightarrow> world \<Rightarrow> world res" where
  "sendPieceBlock i begin block len pid w =
     conn_write_out
       (addCustom (take (unat len) block) (addU32 begin (addU32 i (addU8 7
          (addU32 (ucast (9 + ucast len :: u64)) (OutgoingMessage (ucast (13 + len))))))))
       pid w"

definition sendRequest :: "u32 \<Rightarrow> u32 \<Rightarrow> u32 \<Rightarrow> nat \<Rightarrow> world \<Rightarrow> world res" where
  "sendRequest i begin len pid w =
     conn_write_out (addU32 len (addU32 begin (addU32 i (addU8 6 (addU32 13 (OutgoingMessage 17)))))) pid w"

definition sendCancel :: "u32 \<Rightarrow> u32 \<Rightarrow> u32 \<Rightarrow> nat \<Rightarrow> world \<Rightarrow> world res" where
  "sendCancel i begin len pid w =
     conn_write_out (addU32 len (addU32 begin (addU32 i (addU8 8 (addU32 13 (OutgoingMessage 17)))))) pid w"

definition sendInterested :: "nat \<Rightarrow> world \<Rightarrow> world" where
  "sendInterested pid w = upd_peer pid (set_flag AM_INTERESTED True) (conn_write [0, 0, 0, 1, 2] pid w)"

text \<open>
  The loops of \<open>requestPiece\<close> and \<open>sendCancelRequest\<close>: \<open>begin\<close> and \<open>len\<close> (the source's \<open>length\<close>) are \<open>size_t\<close>, and are
  cut to 32 bits where they are passed on.
\<close>

function request_loop :: "u32 \<Rightarrow> u64 \<Rightarrow> u64 \<Rightarrow> nat \<Rightarrow> world \<Rightarrow> world res" where
  "request_loop i begin len pid w =
     (if MAX_BLOCK_REQUEST_SIZE < len
      then bind_res (sendRequest i (ucast begin) 16384 pid w)
             (request_loop i (begin + MAX_BLOCK_REQUEST_SIZE) (len - MAX_BLOCK_REQUEST_SIZE) pid)
      else sendRequest i (ucast begin) (ucast len) pid w)"
  by pat_completeness auto
termination
  by (relation "measure (\<lambda>(i, begin, len, pid, w). unat len)")
    (auto simp: word_less_nat_alt unat_sub word_le_nat_alt)

function cancel_loop :: "u32 \<Rightarrow> u64 \<Rightarrow> u64 \<Rightarrow> nat \<Rightarrow> world \<Rightarrow> world res" where
  "cancel_loop i begin len pid w =
     (if MAX_BLOCK_REQUEST_SIZE < len
      then bind_res (sendCancel i (ucast begin) 16384 pid w)
             (cancel_loop i (begin + MAX_BLOCK_REQUEST_SIZE) (len - MAX_BLOCK_REQUEST_SIZE) pid)
      else sendCancel i (ucast begin) (ucast len) pid w)"
  by pat_completeness auto
termination
  by (relation "measure (\<lambda>(i, begin, len, pid, w). unat len)")
    (auto simp: word_less_nat_alt unat_sub word_le_nat_alt)

declare request_loop.simps [simp del] cancel_loop.simps [simp del]

definition requestPiece :: "nat \<Rightarrow> nat \<Rightarrow> world \<Rightarrow> world res" where
  "requestPiece pieceIndex pid w =
     (if flag w pid PEER_CHOKING then Inr (peer_handleError RemotelyChoked pid w)
      else bind_res (pieceSize (tor w) pieceIndex) (\<lambda>len.
             request_loop (of_nat pieceIndex) 0 len pid w))"

definition sendCancelRequest :: "qpiece \<Rightarrow> nat \<Rightarrow> world \<Rightarrow> world res" where
  "sendCancelRequest p pid w =
     bind_res (pieceSize (tor w) (index p)) (\<lambda>len.
       cancel_loop (of_nat (index p)) 0 len pid w)"

text \<open>
  \<open>ceil(double(pieceLength) / MAX_BLOCK_REQUEST_SIZE)\<close>: a 32-bit integer and its quotient by a power
  of two are exact in a double, so the rounding up is the integer one.
\<close>

definition num_blocks :: "u32 \<Rightarrow> nat" where
  "num_blocks pl = (unat pl + 16383) div 16384"

definition new_qpiece :: "u32 \<Rightarrow> nat \<Rightarrow> qpiece" where
  "new_qpiece i numBlocks =
     \<lparr>index = unat i, haveBlocks = 0, totalBlocks = numBlocks,
      blocks = replicate numBlocks \<lparr>bsize = 0, bdata = None\<rparr>\<rparr>"

definition sendPieceRequest :: "u32 \<Rightarrow> nat \<Rightarrow> world \<Rightarrow> world res" where
  "sendPieceRequest i pid w0 =
     (let w = sendInterested pid w0
      in bind_res (pieceSize (tor w) (unat i)) (\<lambda>s.
           let piece = new_qpiece i (num_blocks (ucast s));
               w = upd_peer pid (\<lambda>p. p\<lparr>pieceQueue := pieceQueue p @ [piece]\<rparr>) w
           in if flag w pid PEER_CHOKING then Inr w else requestPiece (unat i) pid w))"

section \<open>The send functions write the wire format\<close>

lemma sendRequest_encode: "sendRequest i b l pid w = Inr (conn_write (encode_msg (Request i b l)) pid w)"
  by (simp add: sendRequest_def encode_msg_def out_defs be32.length_enc)

lemma sendCancel_encode: "sendCancel i b l pid w = Inr (conn_write (encode_msg (Cancel i b l)) pid w)"
  by (simp add: sendCancel_def encode_msg_def out_defs be32.length_enc)

lemma sendHave_encode:
  "sendHave i pid w = Inr (if flag w pid AM_CHOKING then w else conn_write (encode_msg (Have i)) pid w)"
  by (simp add: sendHave_def encode_msg_def out_defs be32.length_enc)

lemma sendBitfield_encode:
  "sendBitfield b pid w = Inr (conn_write (encode_msg (Bitfield b)) pid w)"
  by (simp add: sendBitfield_def encode_msg_def out_defs ucast_64_32_add)

lemma sendPieceBlock_encode:
  assumes "length block = unat len"
  shows "sendPieceBlock i b block len pid w = Inr (conn_write (encode_msg (PieceBlock i b block)) pid w)"
  using assms by (simp add: sendPieceBlock_def encode_msg_def out_defs be32.length_enc ucast_64_32_add)

lemma sendInterested_encode:
  "sendInterested pid w = upd_peer pid (set_flag AM_INTERESTED True) (conn_write (encode_msg Interested) pid w)"
  by (simp add: sendInterested_def encode_msg_def writeAsBE32_def)

section \<open>The blocks of a piece\<close>

text \<open>The ranges the loops walk through, and their closed form for a piece of \<open>l\<close> bytes.\<close>

fun block_ranges :: "nat \<Rightarrow> nat \<Rightarrow> (nat \<times> nat) list" where
  "block_ranges b l = (if 16384 < l then (b, 16384) # block_ranges (b + 16384) (l - 16384) else [(b, l)])"

declare block_ranges.simps [simp del]

definition block_count :: "nat \<Rightarrow> nat" where
  "block_count l = (l + 16383) div 16384"

definition block_list :: "nat \<Rightarrow> (nat \<times> nat) list" where
  "block_list l = map (\<lambda>k. (16384 * k, min 16384 (l - 16384 * k))) [0..<block_count l]"

lemma block_count_step:
  assumes "16384 < l"
  shows "block_count l = Suc (block_count (l - 16384))"
proof -
  have "l + 16383 = (l - 16384 + 16383) + 16384"
    using assms by simp
  then show ?thesis
    unfolding block_count_def by (metis Suc_eq_plus1 div_add_self2 zero_neq_numeral)
qed

lemma block_ranges_closed:
  "0 < l \<Longrightarrow> block_ranges b l = map (\<lambda>k. (b + 16384 * k, min 16384 (l - 16384 * k))) [0..<block_count l]"
proof (induction b l rule: block_ranges.induct)
  case (1 b l)
  show ?case
  proof (cases "16384 < l")
    case True
    have "block_ranges (b + 16384) (l - 16384) =
        map (\<lambda>k. (b + 16384 + 16384 * k, min 16384 (l - 16384 - 16384 * k))) [0..<block_count (l - 16384)]"
      using "1.IH" True by simp
    also have "\<dots> = map (\<lambda>k. (b + 16384 * k, min 16384 (l - 16384 * k))) [Suc 0..<Suc (block_count (l - 16384))]"
      unfolding map_Suc_upt [symmetric] map_map by (simp add: algebra_simps)
    finally show ?thesis
      using True by (simp add: block_ranges.simps [of b l] block_count_step upt_conv_Cons min_def del: upt_Suc)
  next
    case False
    with "1.prems" have "block_count l = 1"
      by (simp add: block_count_def Suc_le_eq div_nat_eqI)
    with False show ?thesis by (simp add: block_ranges.simps [of b l])
  qed
qed

lemma block_list_ranges: "0 < l \<Longrightarrow> block_ranges 0 l = block_list l"
  using block_ranges_closed [of l 0] by (simp add: block_list_def)

lemma num_blocks_count: "num_blocks (of_nat l) = block_count l" if "l < 4294967296"
  using that by (simp add: num_blocks_def block_count_def unat_of_nat_u32)

section \<open>The interface of the block loops\<close>

text \<open>
  Both loops send one message per block; what they rely on is that the send function writes the
  encoding of the message made for the block.
\<close>

locale block_sender =
  fixes send :: "u32 \<Rightarrow> u32 \<Rightarrow> u32 \<Rightarrow> nat \<Rightarrow> world \<Rightarrow> world res"
    and mk :: "u32 \<Rightarrow> u32 \<Rightarrow> u32 \<Rightarrow> message"
    and loop :: "u32 \<Rightarrow> u64 \<Rightarrow> u64 \<Rightarrow> nat \<Rightarrow> world \<Rightarrow> world res"
  assumes send_encodes: "send i x y pid w = Inr (conn_write (encode_msg (mk i x y)) pid w)"
    and loop_unfold: "loop i b l pid w =
      (if 16384 < l then bind_res (send i (ucast b) 16384 pid w) (loop i (b + 16384) (l - 16384) pid)
       else send i (ucast b) (ucast l) pid w)"
begin

lemma loop_ranges:
  "b + l < 18446744073709551616 \<Longrightarrow>
     loop i (of_nat b) (of_nat l) pid w =
       Inr (wr.put_all (map (\<lambda>(b, l). encode_msg (mk i (of_nat b) (of_nat l))) (block_ranges b l)) pid w)"
proof (induction b l arbitrary: w rule: block_ranges.induct)
  case (1 b l)
  have l: "unat (of_nat l :: u64) = l"
    using "1.prems" by (intro unat_of_nat_u64) simp
  show ?case
  proof (cases "16384 < l")
    case True
    have "(of_nat b + 16384 :: u64) = of_nat (b + 16384)" "(of_nat l - 16384 :: u64) = of_nat (l - 16384)"
      using True by (simp_all add: of_nat_diff)
    moreover have "(16384 :: u64) < of_nat l"
      using True l by (simp add: word_less_nat_alt)
    ultimately show ?thesis
      using True "1.IH" [OF True] "1.prems"
      by (subst loop_unfold) (simp add: send_encodes block_ranges.simps [of b l])
  next
    case False
    then have "\<not> (16384 :: u64) < of_nat l"
      using l by (simp add: word_less_nat_alt)
    with False show ?thesis
      by (subst loop_unfold) (simp add: send_encodes block_ranges.simps [of b l])
  qed
qed

end

interpretation req: block_sender sendRequest Request request_loop
  by unfold_locales (rule sendRequest_encode, subst request_loop.simps, rule refl)

interpretation can: block_sender sendCancel Cancel cancel_loop
  by unfold_locales (rule sendCancel_encode, subst cancel_loop.simps, rule refl)

text \<open>The blocks put together are the piece.\<close>

lemma concat_block_ranges:
  "b + l \<le> length data \<Longrightarrow>
     concat (map (\<lambda>(b, l). take l (drop b data)) (block_ranges b l)) = take l (drop b data)"
proof (induction b l rule: block_ranges.induct)
  case (1 b l)
  show ?case
  proof (cases "16384 < l")
    case True
    then have "take l (drop b data) = take 16384 (drop b data) @ take (l - 16384) (drop (b + 16384) data)"
      by (metis add.commute drop_drop le_add_diff_inverse less_imp_le take_add)
    with True "1.IH" "1.prems" show ?thesis
      by (simp add: block_ranges.simps [of b l])
  next
    case False
    then show ?thesis by (simp add: block_ranges.simps [of b l])
  qed
qed

lemma block_ranges_bounds:
  "0 < l \<Longrightarrow> (c, n) \<in> set (block_ranges b l) \<Longrightarrow> 0 < n \<and> n \<le> 16384 \<and> b \<le> c \<and> c + n \<le> b + l"
proof (induction b l arbitrary: c n rule: block_ranges.induct)
  case (1 b l)
  then show ?case
    by (cases "16384 < l") (force simp: block_ranges.simps [of b l])+
qed

lemma concat_block_list:
  "0 < length data \<Longrightarrow> concat (map (\<lambda>(b, l). take l (drop b data)) (block_list (length data))) = data"
  using concat_block_ranges [of 0 "length data" data] by (simp add: block_list_ranges)

lemma block_list_bounds:
  "0 < l \<Longrightarrow> (c, n) \<in> set (block_list l) \<Longrightarrow> 0 < n \<and> n \<le> 16384 \<and> c + n \<le> l"
  using block_ranges_bounds [of l c n 0] by (simp add: block_list_ranges)

text \<open>The requests for a piece, as messages.\<close>

definition piece_requests :: "torrent \<Rightarrow> nat \<Rightarrow> buffer list" where
  "piece_requests t i =
     map (\<lambda>(b, l). encode_msg (Request (of_nat i) (of_nat b) (of_nat l))) (block_list (piece_len t i))"

text \<open>The request for the \<open>b\<close>-th block of piece \<open>k\<close>, and all of them for a piece.\<close>

definition request_message :: "torrent \<Rightarrow> nat \<Rightarrow> nat \<Rightarrow> message" where
  "request_message t k b = Request (of_nat k) (of_nat (16384 * b)) (of_nat (min 16384 (piece_len t k - 16384 * b)))"

definition request_messages :: "torrent \<Rightarrow> nat \<Rightarrow> message list" where
  "request_messages t k = map (request_message t k) [0..<block_count (piece_len t k)]"

lemma piece_requests_messages: "piece_requests t k = map encode_msg (request_messages t k)"
  by (simp add: piece_requests_def request_messages_def request_message_def block_list_def)

definition piece_cancels :: "torrent \<Rightarrow> nat \<Rightarrow> buffer list" where
  "piece_cancels t i =
     map (\<lambda>(b, l). encode_msg (Cancel (of_nat i) (of_nat b) (of_nat l))) (block_list (piece_len t i))"

lemma requestPiece_run:
  assumes "wf_sizes (tor w)" "i < length (pieces (tor w))" and "\<not> flag w pid PEER_CHOKING"
  shows "requestPiece i pid w = Inr (wr.put_all (piece_requests (tor w) i) pid w)"
  using req.loop_ranges [of 0 "piece_len (tor w) i" "of_nat i" pid w] piece_len_bound [of "tor w" i]
    piece_len_pos [OF assms(1, 2)] assms(3)
  by (simp add: requestPiece_def pieceSize_piece_len [OF assms(1, 2)] block_list_ranges piece_requests_def)

lemma sendCancelRequest_run:
  assumes "wf_sizes (tor w)" "index p < length (pieces (tor w))"
  shows "sendCancelRequest p pid w = Inr (wr.put_all (piece_cancels (tor w) (index p)) pid w)"
  using can.loop_ranges [of 0 "piece_len (tor w) (index p)" "of_nat (index p)" pid w]
    piece_len_bound [of "tor w" "index p"] piece_len_pos [OF assms]
  by (simp add: sendCancelRequest_def pieceSize_piece_len [OF assms] block_list_ranges piece_cancels_def)

section \<open>Properties\<close>

text \<open>
  C27: asking an unchoked, connected peer for a piece writes to this peer, and to no other, one
  request per block: the blocks are not empty and at most 16 KiB, and put together in the order of
  the requests they are the piece.  Nothing else of the state changes.
\<close>

theorem requestPiece_covers_piece:
  assumes "wf_sizes (tor w)" "i < length (pieces (tor w))" "\<not> flag w pid PEER_CHOKING" "isConnected pid w"
  shows "\<exists>w' bs. requestPiece i pid w = Inr w' \<and> hush w' = hush w \<and>
      sent (conn_of w' pid) = sent (conn_of w pid) @
        map (\<lambda>(b, l). encode_msg (Request (of_nat i) (of_nat b) (of_nat l))) bs \<and>
      (\<forall>q. q \<noteq> pid \<longrightarrow> sent (conn_of w' q) = sent (conn_of w q)) \<and>
      (\<forall>(b, l) \<in> set bs. 0 < l \<and> l \<le> 16384) \<and>
      (\<forall>data. length data = piece_len (tor w) i \<longrightarrow> concat (map (\<lambda>(b, l). take l (drop b data)) bs) = data)"
proof -
  let ?l = "piece_len (tor w) i"
  have pos: "0 < ?l"
    by (rule piece_len_pos [OF assms(1, 2)])
  have "\<forall>(b, l) \<in> set (block_list ?l). 0 < l \<and> l \<le> 16384"
    using block_list_bounds [OF pos] by fast
  moreover have "\<forall>data. length data = ?l \<longrightarrow> concat (map (\<lambda>(b, l). take l (drop b data)) (block_list ?l)) = data"
    using concat_block_list pos by metis
  ultimately show ?thesis
    using requestPiece_run [OF assms(1-3)] wr.rest_put_all wr.out_put_all assms(4)
    by (intro exI [of _ "wr.put_all (piece_requests (tor w) i) pid w"] exI [of _ "block_list ?l"])
      (simp add: piece_requests_def)
qed

end
