(* ===== verification/Torrent_Store.thy ===== *)
theory Torrent_Store
  imports Peer_Wire
begin

text \<open>
  The part of \<open>src/torrent/torrent.cpp\<close> that checks, stores and serves piece data: \<open>checkPieceHash\<close>,
  \<open>handlePieceCompleted\<close>, \<open>handleBlockRequest\<close> and \<open>getRawBitfield\<close>, over a model of the C stream
  on the download file.
\<close>

section \<open>The file\<close>

text \<open>
  Writing at an offset: a gap before the offset is filled with zeros, as the file system does.
\<close>

definition write_at :: "nat \<Rightarrow> buffer \<Rightarrow> buffer \<Rightarrow> buffer" where
  "write_at off xs d = take off (d @ replicate (off - length d) 0) @ xs @ drop (off + length xs) d"

definition slice :: "nat \<Rightarrow> nat \<Rightarrow> 'a list \<Rightarrow> 'a list" where
  "slice off n d = take n (drop off d)"

text \<open>\<open>fseek\<close> with \<open>SEEK_SET\<close> fails on a negative offset and then leaves the position alone.\<close>

definition fseek :: "u64 \<Rightarrow> stream \<Rightarrow> stream option" where
  "fseek off s = (if sint off < 0 then None else Some (s\<lparr>fpos := unat off\<rparr>))"

definition fwrite :: "env \<Rightarrow> buffer \<Rightarrow> stream \<Rightarrow> nat \<times> stream" where
  "fwrite env data s =
     (let n = min (fwrite_count env s data) (length data)
      in (n, \<lparr>contents = write_at (fpos s) (take n data) (contents s), fpos = fpos s + n\<rparr>))"

definition fread :: "nat \<Rightarrow> stream \<Rightarrow> buffer \<times> stream" where
  "fread n s = (let got = slice (fpos s) n (contents s) in (got, s\<lparr>fpos := fpos s + length got\<rparr>))"

section \<open>Checking and storing a piece\<close>

text \<open>The digest as the twenty bytes the code assembles from the five words.\<close>

definition digest_bytes :: "env \<Rightarrow> buffer \<Rightarrow> buffer" where
  "digest_bytes env data = concat (map (\<lambda>i. writeAsBE32 (sha1_digest env data i)) [0..<5])"

definition checkPieceHash :: "env \<Rightarrow> torrent \<Rightarrow> buffer \<Rightarrow> nat \<Rightarrow> bool" where
  "checkPieceHash env t data i =
     (if length (pieces t) \<le> i then False else digest_bytes env data = hash (pieces t ! i))"

text \<open>The loop over the active peers at the end of \<open>handlePieceCompleted\<close>.\<close>

fun sendHave_loop :: "u32 \<Rightarrow> nat list \<Rightarrow> world \<Rightarrow> world res" where
  "sendHave_loop i [] w = Inr w"
| "sendHave_loop i (p # ps) w = bind_res (sendHave i p w) (sendHave_loop i ps)"

text \<open>
  \<open>&pieceData[0]\<close> needs an element; the bitset's \<open>set\<close> and \<open>pieces[index]\<close> need the index in range;
  both \<open>throw\<close>s end the network thread, since nothing catches them.
\<close>

definition handlePieceCompleted :: "env \<Rightarrow> nat \<Rightarrow> u32 \<Rightarrow> buffer \<Rightarrow> world \<Rightarrow> world res" where
  "handlePieceCompleted env pid i pieceData w =
     (if pieceData = [] then Inl OutOfBounds
      else if \<not> checkPieceHash env (tor w) pieceData (unat i) then
        Inr (upd_tor (\<lambda>t. t\<lparr>pieceHashMisses := pieceHashMisses t + 1,
                            wastedBytes := wastedBytes t + of_nat (length pieceData)\<rparr>) w)
      else if \<not> fp (tfile (tor w)) then Inl NullDeref
      else
        (let beginPos = ucast i * pieceLength (tor w)
         in case fseek (beginPos - fbegin (tfile (tor w))) (disk w) of
              None \<Rightarrow> Inl (Uncaught ''fseek failed'')
            | Some s \<Rightarrow>
                (case fwrite env pieceData s of (wrote, s') \<Rightarrow>
                   if wrote \<noteq> length pieceData then Inl (Uncaught ''fwrite failed'')
                   else if length (bitfield (tor w)) \<le> unat i then Inl OutOfBounds
                   else
                     sendHave_loop i (activePeers (tor w))
                       (upd_tor (\<lambda>t. t\<lparr>bitfield := (bitfield t)[unat i := True],
                                       pieces := (pieces t)[unat i := (pieces t ! unat i)\<lparr>finished := True\<rparr>],
                                       downloadedBytes := downloadedBytes t + of_nat (length pieceData),
                                       completedPieces := completedPieces t + 1\<rparr>)
                         (w\<lparr>disk := s', accepted := accepted w @ [(unat i, pieceData)]\<rparr>)))))"

section \<open>Serving a block\<close>

text \<open>
  \<open>begin + length\<close> is a 32-bit addition that is widened afterwards.  The array comes uninitialised
  from \<open>new\<close>, \<open>fread\<close> fills a prefix of it, and the whole of it is sent.
\<close>

definition handleBlockRequest :: "env \<Rightarrow> nat \<Rightarrow> u32 \<Rightarrow> u32 \<Rightarrow> u32 \<Rightarrow> world \<Rightarrow> world res" where
  "handleBlockRequest env pid pIndex begin len w =
     (if length (pieces (tor w)) \<le> unat pIndex then Inr (peer_disconnect pid w)
      else bind_res (pieceSize (tor w) (unat pIndex)) (\<lambda>psize.
        let blockEnd = ucast (begin + len) :: u64
        in if psize < blockEnd then Inr (peer_disconnect pid w)
           else
             let blockBegin = ucast begin + ucast pIndex * pieceLength (tor w)
             in if \<not> fp (tfile (tor w)) \<and> \<not> reopen_ok env then Inr w
                else
                  let w = (if fp (tfile (tor w)) then w
                           else upd_tor (\<lambda>t. t\<lparr>tfile := (tfile t)\<lparr>fp := True\<rparr>\<rparr>) (w\<lparr>disk := (disk w)\<lparr>fpos := 0\<rparr>\<rparr>));
                      s = (case fseek (blockBegin - fbegin (tfile (tor w))) (disk w) of
                             None \<Rightarrow> disk w | Some s \<Rightarrow> s)
                  in case fread (unat len) s of (got, s') \<Rightarrow>
                       let w = w\<lparr>disk := s'\<rparr>
                       in if got = [] then Inr w
                          else bind_res
                            (sendPieceBlock pIndex begin
                               (got @ map (uninitialised env) [length got..<unat len]) len pid w)
                            (\<lambda>w. Inr (upd_tor (\<lambda>t. t\<lparr>uploadedBytes := uploadedBytes t + ucast len\<rparr>) w))))"

section \<open>The bit field to send\<close>

text \<open>
  \<open>boost::to_block_range\<close> of a \<open>dynamic_bitset<uint8_t>\<close>: eight flags to a byte, the first in the
  lowest bit, unused bits zero; then each byte is reversed by swapping halves, pairs and neighbours.
\<close>

definition block_byte :: "bool list \<Rightarrow> nat \<Rightarrow> u8" where
  "block_byte bf k = horner_sum of_bool 2 (take 8 (drop (8 * k) bf))"

definition to_block_range :: "bool list \<Rightarrow> buffer" where
  "to_block_range bf = map (block_byte bf) [0..<(length bf + 7) div 8]"

definition reverse_bits :: "u8 \<Rightarrow> u8" where
  "reverse_bits b0 =
     (let b1 = drop_bit 4 (b0 AND 0xF0) OR push_bit 4 (b0 AND 0x0F);
          b2 = drop_bit 2 (b1 AND 0xCC) OR push_bit 2 (b1 AND 0x33);
          b3 = drop_bit 1 (b2 AND 0xAA) OR push_bit 1 (b2 AND 0x55)
      in b3)"

definition getRawBitfield :: "torrent \<Rightarrow> buffer" where
  "getRawBitfield t = map reverse_bits (to_block_range (bitfield t))"

text \<open>
  The receiving side of the bit field, the loop of the \<open>BITFIELD\<close> case of \<open>Peer::handleMessage\<close>: the
  indexes to append to \<open>hasPieceIndexes\<close>, byte by byte, the highest bit first.
\<close>

definition scan_byte :: "nat \<Rightarrow> nat \<Rightarrow> u8 \<Rightarrow> nat list" where
  "scan_byte npieces i b =
     filter (\<lambda>n. n < npieces)
       (map (\<lambda>j. i * 8 + j) (filter (\<lambda>j. (ucast b :: u32) AND push_bit (7 - j) 1 \<noteq> 0) [0..<8]))"

fun bitfield_scan :: "nat \<Rightarrow> nat \<Rightarrow> buffer \<Rightarrow> nat list" where
  "bitfield_scan npieces i [] = []"
| "bitfield_scan npieces i (b # raw) = scan_byte npieces i b @ bitfield_scan npieces (Suc i) raw"

section \<open>Lemmas on the file\<close>

lemma length_write_at: "length (write_at off xs d) = max (length d) (off + length xs)"
  by (simp add: write_at_def)

lemma slice_write_at_same: "slice off (length xs) (write_at off xs d) = xs"
  by (simp add: slice_def write_at_def)

lemma nth_write_at:
  "k < length (write_at off xs d) \<Longrightarrow>
     write_at off xs d ! k =
       (if k < off then (if k < length d then d ! k else 0)
        else if k < off + length xs then xs ! (k - off) else d ! k)"
  by (auto simp: write_at_def nth_append length_write_at min_def)

lemma slice_write_at_other:
  assumes "b + n \<le> length d" and "b + n \<le> off \<or> off + length xs \<le> b"
  shows "slice b n (write_at off xs d) = slice b n d"
proof (rule nth_equalityI)
  show "length (slice b n (write_at off xs d)) = length (slice b n d)"
    using assms by (simp add: slice_def length_write_at)
  fix k assume "k < length (slice b n (write_at off xs d))"
  then have "k < n" "b + k < length d"
    using assms by (auto simp: slice_def length_write_at)
  with assms show "slice b n (write_at off xs d) ! k = slice b n d ! k"
    by (auto simp: slice_def nth_write_at length_write_at)
qed

section \<open>The bit field round trip\<close>

lemma bit_block_byte:
  "bit (block_byte bf k) j \<longleftrightarrow> j < 8 \<and> 8 * k + j < length bf \<and> bf ! (8 * k + j)"
  by (auto simp: block_byte_def bit_horner_sum_bit_word_iff)

lemma less_8_cases: "(j :: nat) < 8 \<Longrightarrow> j = 0 \<or> j = 1 \<or> j = 2 \<or> j = 3 \<or> j = 4 \<or> j = 5 \<or> j = 6 \<or> j = 7"
  by arith

lemma bit_mult_2: "bit (a * 2 :: u8) n \<longleftrightarrow> 0 < n \<and> n < 8 \<and> bit a (n - 1)"
proof -
  have "a * 2 = push_bit 1 a" by simp
  then show ?thesis by (simp only: bit_push_bit_iff) (auto simp: Suc_le_eq)
qed

lemma bit_reverse_bits:
  assumes "j < 8"
  shows "bit (reverse_bits b) j = bit b (7 - j)"
  using less_8_cases [OF assms]
  by (elim disjE) (simp_all add: reverse_bits_def Let_def bit_mult_2 bit_simps)

lemma bit_test: "j < 8 \<Longrightarrow> (ucast (b :: u8) :: u32) AND push_bit (7 - j) 1 \<noteq> 0 \<longleftrightarrow> bit b (7 - j)"
  by (auto simp add: and_exp_eq_0_iff_not_bit push_bit_of_1 bit_simps)

lemma scan_byte_alt:
  "scan_byte n i b = filter (\<lambda>x. x < n \<and> bit b (7 - (x - i * 8))) [i * 8..<i * 8 + 8]"
proof -
  have "filter (\<lambda>j. (ucast b :: u32) AND push_bit (7 - j) 1 \<noteq> 0) [0..<8] = filter (\<lambda>j. bit b (7 - j)) [0..<8]"
    using bit_test by (intro filter_cong) auto
  moreover have "[i * 8..<i * 8 + 8] = map (\<lambda>j. i * 8 + j) [0..<8]"
    using map_add_upt [of "i * 8" 8] by (simp only: add.commute)
  ultimately show ?thesis
    by (simp add: scan_byte_def filter_map o_def conj_commute)
qed

lemma scan_sent_byte:
  "scan_byte (length bf) k (reverse_bits (block_byte bf k)) =
     filter (\<lambda>x. x < length bf \<and> bf ! x) [k * 8..<k * 8 + 8]"
  unfolding scan_byte_alt
proof (rule filter_cong [OF refl])
  fix x assume "x \<in> set [k * 8..<k * 8 + 8]"
  then have "x - k * 8 < 8" "8 * k + (x - k * 8) = x"
    by auto
  then show "(x < length bf \<and> bit (reverse_bits (block_byte bf k)) (7 - (x - k * 8))) = (x < length bf \<and> bf ! x)"
    by (simp add: bit_reverse_bits bit_block_byte)
qed

lemma bitfield_scan_blocks:
  "bitfield_scan (length bf) k (map reverse_bits (map (block_byte bf) [k..<k + m])) =
     filter (\<lambda>x. x < length bf \<and> bf ! x) [k * 8..<(k + m) * 8]"
proof (induction m arbitrary: k)
  case 0
  then show ?case by simp
next
  case (Suc m)
  have "[k..<k + Suc m] = k # [Suc k..<Suc k + m]"
    by (simp add: upt_rec)
  moreover have "[k * 8..<(k + Suc m) * 8] = [k * 8..<k * 8 + 8] @ [Suc k * 8..<(Suc k + m) * 8]"
    using upt_add_eq_append [of "k * 8" "k * 8 + 8" "m * 8"] by (simp add: add.commute algebra_simps)
  ultimately show ?case
    using Suc [of "Suc k"] by (simp add: scan_sent_byte del: upt_Suc)
qed

lemma length_getRawBitfield: "length (getRawBitfield t) = (length (bitfield t) + 7) div 8"
  by (simp add: getRawBitfield_def to_block_range_def)

lemma bitfield_scan_sent:
  assumes "length (bitfield t) = n"
  shows "bitfield_scan n 0 (getRawBitfield t) = filter (\<lambda>x. bitfield t ! x) [0..<n]"
proof -
  let ?m = "(n + 7) div 8"
  have "n \<le> ?m * 8" by linarith
  then obtain r where r: "?m * 8 = n + r"
    using le_Suc_ex by blast
  have "bitfield_scan n 0 (getRawBitfield t) = filter (\<lambda>x. x < n \<and> bitfield t ! x) [0..<?m * 8]"
    using bitfield_scan_blocks [of "bitfield t" 0 ?m] assms by (simp add: getRawBitfield_def to_block_range_def)
  also have "\<dots> = filter (\<lambda>x. x < n \<and> bitfield t ! x) [0..<n]"
    by (simp add: r upt_add_eq_append [of 0 n r] filter_empty_conv)
  also have "\<dots> = filter (\<lambda>x. bitfield t ! x) [0..<n]"
    by (rule filter_cong) auto
  finally show ?thesis .
qed

section \<open>Announcing a piece\<close>

lemma sendHave_loop_run:
  "sendHave_loop i ps w =
     Inr (fold (\<lambda>p w. if \<not> flag w0 p AM_CHOKING then conn_write (encode_msg (Have i)) p w else w) ps w)"
  if "\<And>p. pstate (peers w p) = pstate (peers w0 p)"
  using that
proof (induction ps arbitrary: w)
  case Nil
  then show ?case by simp
next
  case (Cons p ps)
  then show ?case
    using Cons.IH [of "if \<not> flag w0 p AM_CHOKING then conn_write (encode_msg (Have i)) p w else w"]
    by (simp add: sendHave_encode)
qed

text \<open>The world after the announcement.\<close>

definition announce :: "u32 \<Rightarrow> nat list \<Rightarrow> world \<Rightarrow> world" where
  "announce i ps w = fold (\<lambda>p v. if \<not> flag w p AM_CHOKING then conn_write (encode_msg (Have i)) p v else v) ps w"

lemma sendHave_loop_announce: "sendHave_loop i ps w = Inr (announce i ps w)"
  by (simp add: sendHave_loop_run announce_def)

lemma hush_announce: "hush (announce i ps w) = hush w"
  unfolding announce_def by (rule wr.rest_broadcast)

lemma sent_announce:
  "distinct ps \<Longrightarrow> sent (conn_of (announce i ps w) q) =
     sent (conn_of w q) @
       (if q \<in> set ps \<and> \<not> flag w q AM_CHOKING \<and> isConnected q w then [encode_msg (Have i)] else [])"
  unfolding announce_def by (simp add: wr.out_broadcast)

lemmas announce_frame [simp] = hush_eqD [OF hush_announce]

section \<open>Storing\<close>

lemma fseek_of_nat: "n < 9223372036854775808 \<Longrightarrow> fseek (of_nat n) s = Some (s\<lparr>fpos := n\<rparr>)"
proof -
  assume n: "n < 9223372036854775808"
  then have u: "unat (of_nat n :: u64) = n"
    by (intro unat_of_nat_u64) simp
  with n show ?thesis by (simp add: fseek_def sint_of_nat_u64)
qed

text \<open>The offset of a piece fits in the file offset type.\<close>

definition offsets_fit :: "torrent \<Rightarrow> bool" where
  "offsets_fit t \<longleftrightarrow> fbegin (tfile t) = 0 \<and> unat (totalSize t) < 9223372036854775808"

lemma piece_offset: "(ucast i :: u64) * pieceLength t = of_nat (piece_begin t (unat i))"
  by (simp only: piece_begin_def of_nat_mult of_nat_unat ucast_id)

lemma fseek_piece:
  assumes "wf_sizes t" "offsets_fit t" "unat i < length (pieces t)"
  shows "fseek (ucast i * pieceLength t - fbegin (tfile t)) s = Some (s\<lparr>fpos := piece_begin t (unat i)\<rparr>)"
  using piece_begin_less [OF assms(1, 3)] assms(2)
  by (simp add: piece_offset offsets_fit_def fseek_of_nat)

text \<open>The torrent after a piece is stored.\<close>

definition store_piece :: "nat \<Rightarrow> nat \<Rightarrow> torrent \<Rightarrow> torrent" where
  "store_piece i n t =
     t\<lparr>bitfield := (bitfield t)[i := True], pieces := (pieces t)[i := (pieces t ! i)\<lparr>finished := True\<rparr>],
       downloadedBytes := downloadedBytes t + of_nat n, completedPieces := completedPieces t + 1\<rparr>"

lemma handlePieceCompleted_mismatch:
  assumes "d \<noteq> []" "\<not> checkPieceHash env (tor w) d (unat i)"
  shows "handlePieceCompleted env pid i d w =
    Inr (upd_tor (\<lambda>t. t\<lparr>pieceHashMisses := pieceHashMisses t + 1,
                        wastedBytes := wastedBytes t + of_nat (length d)\<rparr>) w)"
  using assms by (simp add: handlePieceCompleted_def)

text \<open>The stream the data is written to, and the world after all of it is written.\<close>

definition piece_stream :: "nat \<Rightarrow> world \<Rightarrow> stream" where
  "piece_stream i w = (disk w)\<lparr>fpos := piece_begin (tor w) i\<rparr>"

definition stored :: "u32 \<Rightarrow> buffer \<Rightarrow> world \<Rightarrow> world" where
  "stored i d w =
     announce i (activePeers (tor w))
       (upd_tor (store_piece (unat i) (length d))
         (w\<lparr>disk := \<lparr>contents = write_at (piece_begin (tor w) (unat i)) d (contents (disk w)),
                     fpos = piece_begin (tor w) (unat i) + length d\<rparr>,
              accepted := accepted w @ [(unat i, d)]\<rparr>))"

lemma handlePieceCompleted_match:
  assumes "wf_sizes (tor w)" "offsets_fit (tor w)" "length (bitfield (tor w)) = length (pieces (tor w))"
    and "fp (tfile (tor w))" "d \<noteq> []" "checkPieceHash env (tor w) d (unat i)"
  shows "handlePieceCompleted env pid i d w =
    (if length d \<le> fwrite_count env (piece_stream (unat i) w) d then Inr (stored i d w)
     else Inl (Uncaught ''fwrite failed''))"
proof -
  have i: "unat i < length (pieces (tor w))"
    using assms(6) by (auto simp: checkPieceHash_def split: if_splits)
  let ?s = "piece_stream (unat i) w"
  have ok: "fwrite env d ?s =
      (length d, \<lparr>contents = write_at (fpos ?s) d (contents ?s), fpos = fpos ?s + length d\<rparr>)"
    if "length d \<le> fwrite_count env ?s d"
    using that by (simp add: fwrite_def min_absorb2 Let_def)
  have short: "fst (fwrite env d ?s) \<noteq> length d" if "\<not> length d \<le> fwrite_count env ?s d"
    using that by (simp add: fwrite_def Let_def)
  note unfold = handlePieceCompleted_def sendHave_loop_announce store_piece_def [abs_def] stored_def
    piece_stream_def Let_def
  show ?thesis
  proof (cases "length d \<le> fwrite_count env ?s d")
    case True
    with ok have "fwrite env d ?s =
        (length d, \<lparr>contents = write_at (fpos ?s) d (contents ?s), fpos = fpos ?s + length d\<rparr>)"
      by simp
    with True show ?thesis
      using i assms fseek_piece [OF assms(1, 2) i, of "disk w"] by (simp add: unfold)
  next
    case False
    obtain n s' where "fwrite env d ?s = (n, s')"
      by fastforce
    with False short show ?thesis
      using i assms fseek_piece [OF assms(1, 2) i, of "disk w"] by (simp add: unfold)
  qed
qed

section \<open>Serving\<close>

text \<open>
  The request that passes the range check: what is sent is what \<open>fread\<close> finds at the position, padded
  to the requested length with what the fresh array happened to hold.
\<close>

lemma handleBlockRequest_run:
  assumes "wf_sizes (tor w)" "offsets_fit (tor w)" "unat i < length (pieces (tor w))" "fp (tfile (tor w))"
    and "unat (b + len) \<le> piece_len (tor w) (unat i)"
    and pos: "pos = piece_begin (tor w) (unat i) + unat b" "pos < 9223372036854775808"
    and got: "got = slice pos (unat len) (contents (disk w))" "got \<noteq> []"
  shows "handleBlockRequest env pid i b len w =
    Inr (upd_tor (\<lambda>t. t\<lparr>uploadedBytes := uploadedBytes t + ucast len\<rparr>)
      (conn_write (encode_msg (PieceBlock i b (got @ map (uninitialised env) [length got..<unat len]))) pid
        (w\<lparr>disk := (disk w)\<lparr>fpos := pos + length got\<rparr>\<rparr>)))"
proof -
  let ?blk = "got @ map (uninitialised env) [length got..<unat len]"
  have "length ?blk = unat len"
    by (simp add: got(1) slice_def)
  note blk = sendPieceBlock_encode [OF this]
  have "ucast b + ucast i * pieceLength (tor w) = (of_nat pos :: u64)"
    unfolding pos(1) of_nat_add of_nat_unat piece_offset by (rule add.commute)
  moreover have "\<not> (of_nat (piece_len (tor w) (unat i)) :: u64) < ucast (b + len)"
    using assms(5) by (simp add: word_less_nat_alt unat_piece_len)
  ultimately show ?thesis
    using assms(2-4) got blk fseek_of_nat [OF pos(2)]
    by (simp add: handleBlockRequest_def pieceSize_piece_len [OF assms(1, 3)] fread_def Let_def offsets_fit_def)
qed

section \<open>Properties\<close>

text \<open>
  C31: the bit field sent to a peer, read by the receiving loop of the same program, yields exactly
  the indexes of the pieces the sender has, in increasing order: the padding bits of the last byte
  add nothing.
\<close>

theorem getRawBitfield_roundtrip:
  "bitfield_scan (length (bitfield t)) 0 (getRawBitfield t) =
     filter (\<lambda>i. bitfield t ! i) [0..<length (bitfield t)]"
  by (rule bitfield_scan_sent) (rule refl)

text \<open>
  C14: completing a piece.  If the digest of the data is the piece's hash, the data is in the file at
  the offset of the piece, the piece and its bit are marked and no other, the counters advance, and
  every active peer that is connected and not choked by us is told once.  Otherwise the file, the
  pieces and the connections stay as they are and the bytes are counted as wasted.
\<close>

theorem handlePieceCompleted_correct:
  assumes "wf_sizes (tor w)" "offsets_fit (tor w)" "length (bitfield (tor w)) = length (pieces (tor w))"
    and "fp (tfile (tor w))" "d \<noteq> []" "distinct (activePeers (tor w))"
    and "\<And>s. length d \<le> fwrite_count env s d"
  shows "\<exists>w'. handlePieceCompleted env pid i d w = Inr w' \<and>
    (if checkPieceHash env (tor w) d (unat i)
     then slice (piece_begin (tor w) (unat i)) (length d) (contents (disk w')) = d
        \<and> (\<forall>j < length (pieces (tor w)).
             finished (pieces (tor w') ! j) = (j = unat i \<or> finished (pieces (tor w) ! j))
           \<and> bitfield (tor w') ! j = (j = unat i \<or> bitfield (tor w) ! j))
        \<and> downloadedBytes (tor w') = downloadedBytes (tor w) + of_nat (length d)
        \<and> completedPieces (tor w') = completedPieces (tor w) + 1
        \<and> (\<forall>q. sent (conn_of w' q) = sent (conn_of w q) @
             (if q \<in> set (activePeers (tor w)) \<and> \<not> flag w q AM_CHOKING \<and> isConnected q w
              then [encode_msg (Have i)] else []))
     else disk w' = disk w \<and> peers w' = peers w \<and> pieces (tor w') = pieces (tor w)
        \<and> bitfield (tor w') = bitfield (tor w) \<and> completedPieces (tor w') = completedPieces (tor w)
        \<and> wastedBytes (tor w') = wastedBytes (tor w) + of_nat (length d)
        \<and> pieceHashMisses (tor w') = pieceHashMisses (tor w) + 1)"
proof (cases "checkPieceHash env (tor w) d (unat i)")
  case False
  then show ?thesis
    using handlePieceCompleted_mismatch [OF assms(5) False] by simp
next
  case True
  then have "unat i < length (pieces (tor w))"
    by (auto simp: checkPieceHash_def split: if_splits)
  with True assms(3, 6, 7) handlePieceCompleted_match [OF assms(1-5) True] show ?thesis
    by (simp add: stored_def slice_write_at_same store_piece_def sent_announce nth_list_update isConnected_def)
qed

text \<open>
  C16: a request for a range inside the piece, whose bytes are in the file, is answered with exactly
  these bytes of the file; the file is not changed and the upload counter advances by their number.
\<close>

theorem handleBlockRequest_serves:
  assumes "wf_sizes (tor w)" "offsets_fit (tor w)" "unat i < length (pieces (tor w))" "fp (tfile (tor w))"
    and "isConnected pid w" "0 < unat len" "unat b + unat len \<le> piece_len (tor w) (unat i)"
    and "piece_end (tor w) (unat i) \<le> length (contents (disk w))" "piece_len (tor w) (unat i) < 2 ^ 32"
  shows "\<exists>w'. handleBlockRequest env pid i b len w = Inr w' \<and> contents (disk w') = contents (disk w) \<and>
      sent (conn_of w' pid) = sent (conn_of w pid) @ [encode_msg (PieceBlock i b
        (slice (piece_begin (tor w) (unat i) + unat b) (unat len) (contents (disk w))))] \<and>
      (\<forall>q. q \<noteq> pid \<longrightarrow> sent (conn_of w' q) = sent (conn_of w q)) \<and>
      uploadedBytes (tor w') = uploadedBytes (tor w) + ucast len"
proof -
  let ?pos = "piece_begin (tor w) (unat i) + unat b"
  let ?got = "slice ?pos (unat len) (contents (disk w))"
  have e: "?pos + unat len \<le> piece_end (tor w) (unat i)"
    using assms(7) piece_begin_le_end [OF assms(1, 3)] by (simp add: piece_len_def)
  then have l: "length ?got = unat len"
    using assms(8) by (simp add: slice_def)
  then have "?got \<noteq> []"
    using assms(6) by auto
  moreover have "unat (b + len) \<le> piece_len (tor w) (unat i)"
    using assms(7, 9) by (simp add: unat_word_ariths)
  moreover have "?pos < 9223372036854775808"
    using e piece_end_le [of "tor w" "unat i"] assms(2, 6) by (simp add: offsets_fit_def)
  ultimately show ?thesis
    using handleBlockRequest_run [OF assms(1-4) _ refl _ refl, where b = b and len = len and env = env and pid = pid]
      assms(5) l
    by (simp add: wr.out_put [where p = pid] isConnected_def)
qed

text \<open>
  A request whose range ends beyond the piece is refused by disconnecting the peer, as long as
  the 32-bit sum of its offset and length does not wrap; nothing is sent.
\<close>

lemma handleBlockRequest_rejects:
  assumes "wf_sizes (tor w)" "unat i < length (pieces (tor w))"
    and "piece_len (tor w) (unat i) < unat b + unat len" "unat b + unat len < 2 ^ 32"
  shows "handleBlockRequest env pid i b len w = Inr (peer_disconnect pid w) \<and>
    (\<forall>q. sent (conn_of (peer_disconnect pid w) q) = sent (conn_of w q))"
proof -
  have "unat (b + len) = unat b + unat len"
    using assms(4) by (simp add: unat_word_ariths)
  then have "(of_nat (piece_len (tor w) (unat i)) :: u64) < ucast (b + len)"
    using assms(3) by (simp add: word_less_nat_alt unat_piece_len)
  then show ?thesis
    using assms(2) by (simp add: handleBlockRequest_def pieceSize_piece_len [OF assms(1, 2)])
qed

text \<open>
  C17: the range check of \<open>handleBlockRequest\<close> can be bypassed.  An offset beyond the end of the piece
  whose 32-bit sum with the length wraps to a small number is accepted, and the bytes at that offset
  from the beginning of the piece, which belong to other pieces, are sent to the peer.
\<close>

theorem handleBlockRequest_range_bypass:
  assumes "wf_sizes (tor w)" "offsets_fit (tor w)" "unat i < length (pieces (tor w))" "fp (tfile (tor w))"
    and "isConnected pid w" "0 < unat len"
    and "2 ^ 32 \<le> unat b + unat len" "unat b + unat len - 2 ^ 32 \<le> piece_len (tor w) (unat i)"
    and "piece_begin (tor w) (unat i) + unat b + unat len \<le> unat (totalSize (tor w))"
    and "unat (totalSize (tor w)) \<le> length (contents (disk w))"
  shows "\<exists>w'. handleBlockRequest env pid i b len w = Inr w' \<and>
      sent (conn_of w' pid) = sent (conn_of w pid) @ [encode_msg (PieceBlock i b
        (slice (piece_begin (tor w) (unat i) + unat b) (unat len) (contents (disk w))))]"
proof -
  let ?pos = "piece_begin (tor w) (unat i) + unat b"
  let ?got = "slice ?pos (unat len) (contents (disk w))"
  have l: "length ?got = unat len"
    using assms(9, 10) by (simp add: slice_def)
  then have "?got \<noteq> []"
    using assms(6) by auto
  moreover have "unat (b + len) = unat b + unat len - 2 ^ 32"
    using assms(7) unat_u32_less [of b] unat_u32_less [of len]
    by (simp add: unat_word_ariths le_mod_geq)
  moreover have "?pos < 9223372036854775808"
    using assms(2, 6, 9) by (simp add: offsets_fit_def)
  ultimately show ?thesis
    using handleBlockRequest_run [OF assms(1-4) _ refl _ refl, where b = b and len = len and env = env and pid = pid]
      assms(5, 8) l
    by (simp add: wr.out_put [where p = pid] isConnected_def)
qed

end
