(* ===== verification/Piece_Selection.thy ===== *)
theory Piece_Selection
  imports Torrent_Store
begin

text \<open>
  \<open>Torrent::selectPieceAndRequest\<close>: which piece is asked from a peer.  The priority of a piece counts
  how often it was asked for; the loop stops at the first piece nobody was asked for, and otherwise
  ends with the piece of the smallest count.
\<close>

section \<open>Operations\<close>

abbreviation INT32_MAX :: int where
  "INT32_MAX \<equiv> 2147483647"

text \<open>The ways the loop ends: the early \<open>return\<close>, or the values of \<open>index\<close> and \<open>priority\<close> after it.\<close>

datatype choice = Fresh nat | Best nat int

fun select_scan :: "nat list \<Rightarrow> nat \<Rightarrow> tpiece list \<Rightarrow> nat \<Rightarrow> int \<Rightarrow> choice" where
  "select_scan has i [] idx prio = Best idx prio"
| "select_scan has i (p # ps) idx prio =
     (if finished p \<or> i \<notin> set has then select_scan has (Suc i) ps idx prio
      else if priority p = 0 then Fresh i
      else if priority p < prio then select_scan has (Suc i) ps i (priority p)
      else select_scan has (Suc i) ps idx prio)"

definition set_priority :: "nat \<Rightarrow> int \<Rightarrow> torrent \<Rightarrow> torrent" where
  "set_priority i v t = t\<lparr>pieces := (pieces t)[i := (pieces t ! i)\<lparr>priority := v\<rparr>]\<rparr>"

definition selectPieceAndRequest :: "nat \<Rightarrow> world \<Rightarrow> world res" where
  "selectPieceAndRequest pid w =
     (case select_scan (hasPieceIndexes (peers w pid)) 0 (pieces (tor w)) 0 INT32_MAX of
        Fresh i \<Rightarrow> sendPieceRequest (of_nat i) pid (upd_tor (set_priority i 1) w)
      | Best idx prio \<Rightarrow>
          if prio \<noteq> INT32_MAX
          then sendPieceRequest (of_nat idx) pid
                 (upd_tor (\<lambda>t. set_priority idx (priority (pieces t ! idx) + 1) t) w)
          else Inr w)"

section \<open>The specification of the choice\<close>

text \<open>The pieces worth asking the peer for, and the order in which the selection prefers them.\<close>

definition candidates :: "nat list \<Rightarrow> tpiece list \<Rightarrow> nat set" where
  "candidates has ps = {i. i < length ps \<and> \<not> finished (ps ! i) \<and> i \<in> set has}"

definition preferred :: "tpiece list \<Rightarrow> nat \<Rightarrow> nat \<Rightarrow> bool" where
  "preferred ps i j \<longleftrightarrow>
     priority (ps ! i) < priority (ps ! j) \<or> priority (ps ! i) = priority (ps ! j) \<and> i \<le> j"

definition priorities_ok :: "tpiece list \<Rightarrow> bool" where
  "priorities_ok ps \<longleftrightarrow> (\<forall>p \<in> set ps. 0 \<le> priority p \<and> priority p \<le> INT32_MAX)"

definition best_choice :: "nat list \<Rightarrow> tpiece list \<Rightarrow> nat \<Rightarrow> bool" where
  "best_choice has ps i \<longleftrightarrow>
     i \<in> candidates has ps \<and> priority (ps ! i) < INT32_MAX \<and> (\<forall>j \<in> candidates has ps. preferred ps i j)"

text \<open>
  What the loop has established after the first \<open>i\<close> pieces: the current best is preferred to every
  candidate seen, or none of them had a priority below the maximum.
\<close>

definition scanned :: "nat list \<Rightarrow> tpiece list \<Rightarrow> nat \<Rightarrow> nat \<Rightarrow> int \<Rightarrow> bool" where
  "scanned has all i idx prio \<longleftrightarrow>
     (\<forall>j \<in> candidates has all. j < i \<longrightarrow> 0 < priority (all ! j)) \<and>
     (if prio = INT32_MAX then \<forall>j \<in> candidates has all. j < i \<longrightarrow> priority (all ! j) = INT32_MAX
      else idx < i \<and> idx \<in> candidates has all \<and> prio = priority (all ! idx) \<and> prio < INT32_MAX \<and>
           (\<forall>j \<in> candidates has all. j < i \<longrightarrow> preferred all idx j))"

lemma scanned_skip:
  "scanned has all i idx prio \<Longrightarrow> i \<notin> candidates has all \<Longrightarrow> scanned has all (Suc i) idx prio"
  unfolding scanned_def by (auto simp: less_Suc_eq split: if_splits)

lemma scanned_take:
  "scanned has all i idx prio \<Longrightarrow> i \<in> candidates has all \<Longrightarrow> 0 < priority (all ! i) \<Longrightarrow>
   priority (all ! i) < prio \<Longrightarrow> prio \<le> INT32_MAX \<Longrightarrow> scanned has all (Suc i) i (priority (all ! i))"
  unfolding scanned_def preferred_def by (fastforce simp: less_Suc_eq split: if_splits)

lemma scanned_keep:
  "scanned has all i idx prio \<Longrightarrow> 0 < priority (all ! i) \<Longrightarrow> \<not> priority (all ! i) < prio \<Longrightarrow>
   priority (all ! i) \<le> INT32_MAX \<Longrightarrow> scanned has all (Suc i) idx prio"
  unfolding scanned_def preferred_def by (auto simp: less_Suc_eq split: if_splits)

definition choice_ok :: "nat list \<Rightarrow> tpiece list \<Rightarrow> choice \<Rightarrow> bool" where
  "choice_ok has all c \<longleftrightarrow>
     (case c of
        Fresh i \<Rightarrow> best_choice has all i \<and> priority (all ! i) = 0
      | Best idx prio \<Rightarrow>
          if prio = INT32_MAX then \<forall>j \<in> candidates has all. priority (all ! j) = INT32_MAX
          else best_choice has all idx)"

lemma select_scan_ok:
  assumes "priorities_ok all" and "all = pre @ ps" and "i = length pre" and "prio \<le> INT32_MAX"
    and "scanned has all i idx prio"
  shows "choice_ok has all (select_scan has i ps idx prio)"
  using assms(2-5)
proof (induction ps arbitrary: pre i idx prio)
  case Nil
  then show ?case
    unfolding choice_ok_def best_choice_def scanned_def by (auto simp: candidates_def)
next
  case (Cons p ps)
  have p: "all ! i = p" "i < length all"
    using Cons.prems by simp_all
  then have pr: "0 \<le> priority p" "priority p \<le> INT32_MAX"
    using assms(1) by (auto simp: priorities_ok_def Cons.prems(1))
  have next_pre: "all = (pre @ [p]) @ ps" "Suc i = length (pre @ [p])"
    using Cons.prems by simp_all
  note IH = Cons.IH [OF next_pre]
  show ?case
  proof (cases "finished p \<or> i \<notin> set has")
    case True
    then have "i \<notin> candidates has all"
      using p by (auto simp: candidates_def)
    with IH [OF Cons.prems(3) scanned_skip [OF Cons.prems(4)]] True show ?thesis by simp
  next
    case False
    then have c: "i \<in> candidates has all"
      using p by (simp add: candidates_def)
    show ?thesis
    proof (cases "priority p = 0")
      case True
      have "preferred all i j" if j: "j \<in> candidates has all" for j
      proof -
        have "0 \<le> priority (all ! j)"
          using j assms(1) by (simp add: candidates_def priorities_ok_def)
        moreover have "j < i \<Longrightarrow> 0 < priority (all ! j)"
          using j Cons.prems(4) by (simp add: scanned_def)
        ultimately show ?thesis
          using True p(1) by (cases "j < i") (auto simp: preferred_def)
      qed
      then have "best_choice has all i"
        using c True p(1) by (simp add: best_choice_def)
      with True False p show ?thesis by (simp add: choice_ok_def)
    next
      case nz: False
      with pr p have pos: "0 < priority (all ! i)" by simp
      show ?thesis
      proof (cases "priority p < prio")
        case True
        have "choice_ok has all (select_scan has (Suc i) ps i (priority (all ! i)))"
          using scanned_take [OF Cons.prems(4) c pos] True p Cons.prems(3) pr(2) by (intro IH) simp_all
        with True False nz p show ?thesis by simp
      next
        case le: False
        have "choice_ok has all (select_scan has (Suc i) ps idx prio)"
          using scanned_keep [OF Cons.prems(4) pos] le p pr(2) by (intro IH Cons.prems(3)) simp_all
        with le False nz p show ?thesis by simp
      qed
    qed
  qed
qed

lemma select_scan_choice:
  "priorities_ok ps \<Longrightarrow> choice_ok has ps (select_scan has 0 ps 0 INT32_MAX)"
  by (rule select_scan_ok [where pre = "[]"]) (simp_all add: scanned_def)

section \<open>What a piece request does\<close>

text \<open>Indexes and block counts that survive the conversions to 32 bits.\<close>

definition pieces_fit :: "torrent \<Rightarrow> bool" where
  "pieces_fit t \<longleftrightarrow> length (pieces t) \<le> 2 ^ 32 \<and> unat (pieceLength t) < 2 ^ 32"

definition fresh_qpiece :: "torrent \<Rightarrow> nat \<Rightarrow> qpiece" where
  "fresh_qpiece t i =
     \<lparr>index = i, haveBlocks = 0, totalBlocks = block_count (piece_len t i),
      blocks = replicate (block_count (piece_len t i)) \<lparr>bsize = 0, bdata = None\<rparr>\<rparr>"

definition enqueue_piece :: "nat \<Rightarrow> nat \<Rightarrow> world \<Rightarrow> world" where
  "enqueue_piece i pid w =
     upd_peer pid (\<lambda>p. p\<lparr>pieceQueue := pieceQueue p @ [fresh_qpiece (tor w) i]\<rparr>) (sendInterested pid w)"

lemma piece_len_le: "piece_len t i \<le> unat (pieceLength t)"
  by (simp add: piece_len_def piece_end_def piece_begin_def)

lemma unat_index:
  "pieces_fit t \<Longrightarrow> i < length (pieces t) \<Longrightarrow> unat (of_nat i :: u32) = i"
  by (intro unat_of_nat_u32) (simp add: pieces_fit_def)

lemma sendInterested_frame [simp]:
  "tor (sendInterested pid w) = tor w" "disk (sendInterested pid w) = disk w"
  "errlog (sendInterested pid w) = errlog w" "nextPeer (sendInterested pid w) = nextPeer w"
  "accepted (sendInterested pid w) = accepted w"
  "isConnected q (sendInterested pid w) = isConnected q w"
  "pieceQueue (peers (sendInterested pid w) q) = pieceQueue (peers w q)"
  "hasPieceIndexes (peers (sendInterested pid w) q) = hasPieceIndexes (peers w q)"
  "flag (sendInterested pid w) q s = (if q = pid \<and> s = AM_INTERESTED then True else flag w q s)"
  "sent (conn_of (sendInterested pid w) q) =
     sent (conn_of w q) @ (if q = pid \<and> isConnected pid w then [encode_msg Interested] else [])"
  by (simp_all add: sendInterested_encode wr.out_put)
    (simp_all add: isConnected_def conn_write_def)

lemma isConnected_upd_queue [simp]:
  "isConnected q (upd_peer pid (\<lambda>p. p\<lparr>pieceQueue := f p\<rparr>) w) = isConnected q w"
  by (simp add: isConnected_def)

lemma sendPieceRequest_run:
  assumes "wf_sizes (tor w)" "pieces_fit (tor w)" "i < length (pieces (tor w))"
  shows "sendPieceRequest (of_nat i) pid w =
    Inr (wr.put_all (if flag w pid PEER_CHOKING then [] else piece_requests (tor w) i) pid (enqueue_piece i pid w))"
proof -
  note i = unat_index [OF assms(2, 3)]
  have "num_blocks (of_nat (piece_len (tor w) i)) = block_count (piece_len (tor w) i)"
    using assms(2) piece_len_le [of "tor w" i] by (intro num_blocks_count) (simp add: pieces_fit_def)
  then have q: "new_qpiece (of_nat i) (num_blocks (of_nat (piece_len (tor w) i))) = fresh_qpiece (tor w) i"
    by (simp add: new_qpiece_def fresh_qpiece_def i)
  note s = pieceSize_piece_len [OF assms(1, 3)]
  have e: "upd_peer pid (\<lambda>p. p\<lparr>pieceQueue := pieceQueue p @ [fresh_qpiece (tor w) i]\<rparr>) (sendInterested pid w) =
      enqueue_piece i pid w"
    by (simp add: enqueue_piece_def)
  have t: "tor (enqueue_piece i pid w) = tor w" and f: "flag (enqueue_piece i pid w) pid PEER_CHOKING = flag w pid PEER_CHOKING"
    by (simp_all add: enqueue_piece_def)
  show ?thesis
    using requestPiece_run [of "enqueue_piece i pid w" i pid] assms(1, 3) f
    by (simp add: sendPieceRequest_def Let_def s q e t i)
qed

section \<open>The selection as one step\<close>

lemma set_priority_geometry [simp]:
  "length (pieces (set_priority i v t)) = length (pieces t)"
  "wf_sizes (set_priority i v t) = wf_sizes t" "pieces_fit (set_priority i v t) = pieces_fit t"
  "piece_len (set_priority i v t) j = piece_len t j"
  "piece_requests (set_priority i v t) j = piece_requests t j"
  "fresh_qpiece (set_priority i v t) j = fresh_qpiece t j"
  by (simp_all add: set_priority_def wf_sizes_def pieces_fit_def piece_len_def piece_end_def piece_begin_def
    piece_requests_def fresh_qpiece_def)

definition request_best :: "nat \<Rightarrow> nat \<Rightarrow> world \<Rightarrow> world" where
  "request_best i pid w =
     wr.put_all (if flag w pid PEER_CHOKING then [] else piece_requests (tor w) i) pid
       (enqueue_piece i pid (upd_tor (set_priority i (priority (pieces (tor w) ! i) + 1)) w))"

lemma selectPieceAndRequest_run:
  assumes "wf_sizes (tor w)" "pieces_fit (tor w)" "priorities_ok (pieces (tor w))"
  shows "selectPieceAndRequest pid w = Inr w \<and>
      (\<forall>j \<in> candidates (hasPieceIndexes (peers w pid)) (pieces (tor w)). priority (pieces (tor w) ! j) = INT32_MAX)
    \<or> (\<exists>i. best_choice (hasPieceIndexes (peers w pid)) (pieces (tor w)) i \<and>
          selectPieceAndRequest pid w = Inr (request_best i pid w))"
proof -
  let ?has = "hasPieceIndexes (peers w pid)" and ?ps = "pieces (tor w)"
  have run: "sendPieceRequest (of_nat i) pid (upd_tor (set_priority i (priority (?ps ! i) + 1)) w) =
      Inr (request_best i pid w)" if "best_choice ?has ?ps i" for i
  proof -
    have "i < length ?ps"
      using that by (simp add: best_choice_def candidates_def)
    then show ?thesis
      using sendPieceRequest_run [of "upd_tor (set_priority i (priority (?ps ! i) + 1)) w" i pid] assms(1, 2)
      by (simp add: request_best_def)
  qed
  show ?thesis
  proof (cases "select_scan ?has 0 ?ps 0 INT32_MAX")
    case (Fresh i)
    with select_scan_choice [OF assms(3), of ?has] have "best_choice ?has ?ps i" "priority (?ps ! i) = 0"
      by (simp_all add: choice_ok_def)
    with run [of i] Fresh show ?thesis
      by (auto simp: selectPieceAndRequest_def)
  next
    case (Best idx prio)
    with select_scan_choice [OF assms(3), of ?has] show ?thesis
      using run [of idx]
      by (cases "prio = INT32_MAX") (auto simp: choice_ok_def selectPieceAndRequest_def upd_tor_def)
  qed
qed

lemma request_best_tor: "tor (request_best i pid w) = set_priority i (priority (pieces (tor w) ! i) + 1) (tor w)"
  using hush_eqD(1) [OF wr.rest_put_all] by (simp add: request_best_def enqueue_piece_def)

lemma request_best_queue:
  "pieceQueue (peers (request_best i pid w) q) =
     pieceQueue (peers w q) @ (if q = pid then [fresh_qpiece (tor w) i] else [])"
  using hush_eqD(6) [OF wr.rest_put_all] by (simp add: request_best_def enqueue_piece_def)

lemma request_best_sent:
  "sent (conn_of (request_best i pid w) q) =
     sent (conn_of w q) @
       (if q = pid \<and> isConnected pid w
        then encode_msg Interested # (if flag w pid PEER_CHOKING then [] else piece_requests (tor w) i) else [])"
  by (simp add: request_best_def wr.out_put_all enqueue_piece_def)

lemma priorities_ok_bump:
  assumes "priorities_ok (pieces t)" "best_choice has (pieces t) i"
  shows "priorities_ok (pieces (set_priority i (priority (pieces t ! i) + 1) t))"
proof -
  have "i < length (pieces t)" "priority (pieces t ! i) < INT32_MAX"
    using assms(2) by (simp_all add: best_choice_def candidates_def)
  moreover from this(1) have "0 \<le> priority (pieces t ! i)"
    using assms(1) by (simp add: priorities_ok_def)
  ultimately show ?thesis
    using assms(1) by (auto simp: priorities_ok_def set_priority_def dest!: set_update_subset_insert [THEN subsetD])
qed

section \<open>Properties\<close>

text \<open>
  C18: the selection asks for the best candidate: a piece the peer has and we do not, asked for least
  often so far, the first of those.  Exactly its count goes up, without leaving the 32-bit range; one
  fresh entry with room for all its blocks joins the queue of this peer; the peer is told we are
  interested and, unless it chokes us, the requests of the whole piece follow.  With no candidate
  left, nothing happens.
\<close>

theorem selectPieceAndRequest_best:
  assumes "wf_sizes (tor w)" "pieces_fit (tor w)" "priorities_ok (pieces (tor w))"
  shows "\<exists>w'. selectPieceAndRequest pid w = Inr w' \<and> priorities_ok (pieces (tor w')) \<and>
    (w' = w \<and> (\<forall>j \<in> candidates (hasPieceIndexes (peers w pid)) (pieces (tor w)).
                  priority (pieces (tor w) ! j) = INT32_MAX)
     \<or> (\<exists>i. best_choice (hasPieceIndexes (peers w pid)) (pieces (tor w)) i
          \<and> tor w' = set_priority i (priority (pieces (tor w) ! i) + 1) (tor w)
          \<and> (\<forall>q. pieceQueue (peers w' q) =
               pieceQueue (peers w q) @ (if q = pid then [fresh_qpiece (tor w) i] else []))
          \<and> (\<forall>q. sent (conn_of w' q) = sent (conn_of w q) @
               (if q = pid \<and> isConnected pid w
                then encode_msg Interested # (if flag w pid PEER_CHOKING then [] else piece_requests (tor w) i)
                else []))))"
  using selectPieceAndRequest_run [OF assms, of pid]
proof (elim disjE exE conjE)
  fix i
  assume i: "best_choice (hasPieceIndexes (peers w pid)) (pieces (tor w)) i"
    and run: "selectPieceAndRequest pid w = Inr (request_best i pid w)"
  have "priorities_ok (pieces (tor (request_best i pid w)))"
    using priorities_ok_bump [OF assms(3) i] by (simp add: request_best_tor)
  with i run show ?thesis
    using request_best_tor request_best_queue request_best_sent by blast
qed (use assms(3) in blast)

end
