(* ===== verification/Peer_Handler.thy ===== *)
theory Peer_Handler
  imports Piece_Selection
begin

text \<open>
  The protocol of a peer, \<open>src/torrent/peer.cpp\<close>: the handshakes, the framing of the messages and
  \<open>handleMessage\<close> with all its cases, and the read handler of \<open>src/net/connection.cpp\<close> that runs
  them.  Each case of the \<open>switch\<close> is a definition of its own; it either returns from
  \<open>handleMessage\<close> or breaks out of the \<open>switch\<close>, after which the next length prefix is read.
\<close>

datatype flow = Return world | Break world

section \<open>Handshake\<close>

definition protocol_name :: buffer where
  "protocol_name = map of_char ''BitTorrent protocol''"

text \<open>
  The test both handshake handlers make; the data holds at least \<open>size\<close> bytes.  The length byte and
  the protocol name are joined by \<open>&&\<close>.
\<close>

definition handshake_mismatch :: "buffer \<Rightarrow> buffer \<Rightarrow> nat \<Rightarrow> bool" where
  "handshake_mismatch myHandshake peerHandshake sz \<longleftrightarrow>
     sz \<noteq> 68 \<or>
     (slice 0 1 peerHandshake \<noteq> [19] \<and> slice 1 19 peerHandshake \<noteq> protocol_name) \<or>
     slice 28 20 peerHandshake \<noteq> slice 28 20 myHandshake"

definition set_peerId :: "buffer \<Rightarrow> nat \<Rightarrow> world \<Rightarrow> world" where
  "set_peerId i pid = upd_peer pid (\<lambda>p. p\<lparr>peerId := i\<rparr>)"

definition peer_connect :: "string \<Rightarrow> string \<Rightarrow> nat \<Rightarrow> world \<Rightarrow> world" where
  "peer_connect ip port pid w = conn_connect ip port pid (setErrorCallback True pid w)"

text \<open>The connect callback of \<open>Peer::connect\<close>, and the read callback it installs.\<close>

definition on_connected :: "nat \<Rightarrow> world \<Rightarrow> world" where
  "on_connected pid w = conn_read 68 Connect_handshake pid (conn_write (handshake (tor w)) pid w)"

definition on_connect_handshake :: "nat \<Rightarrow> buffer \<Rightarrow> nat \<Rightarrow> world \<Rightarrow> world" where
  "on_connect_handshake pid data sz w =
     (if handshake_mismatch (handshake (tor w)) data sz then peer_handleError HandshakeMismatch pid w
      else conn_read 4 Handle pid (handshaked pid (set_peerId (slice 48 20 data) pid w)))"

definition peer_authenticate :: "nat \<Rightarrow> world \<Rightarrow> world" where
  "peer_authenticate pid w = conn_read 68 Authenticate_handshake pid (setErrorCallback True pid w)"

definition on_authenticate_handshake :: "nat \<Rightarrow> buffer \<Rightarrow> nat \<Rightarrow> world \<Rightarrow> world res" where
  "on_authenticate_handshake pid data sz w =
     (if handshake_mismatch (handshake (tor w)) data sz then Inr (peer_handleError HandshakeMismatch pid w)
      else
        let w1 = handshaked pid (conn_write (handshake (tor w)) pid (set_peerId (slice 48 20 data) pid w))
        in bind_res (sendBitfield (getRawBitfield (tor w1)) pid w1) (\<lambda>w2. Inr (conn_read 4 Handle pid w2)))"

section \<open>Peer::handle\<close>

definition peer_handle :: "nat \<Rightarrow> buffer \<Rightarrow> nat \<Rightarrow> world \<Rightarrow> world res" where
  "peer_handle pid data sz w =
     (if sz \<noteq> 4 then Inr (peer_handleError BadLengthPrefix pid w)
      else bind_res (of_peek (readAsBE32 data)) (\<lambda>len.
        Inr (if len = 0 then conn_read 4 Handle pid w else conn_read (ucast len) Handle_body pid w)))"

section \<open>The cases of Peer::handleMessage\<close>

definition fail_with :: "peer_error \<Rightarrow> nat \<Rightarrow> world \<Rightarrow> flow res" where
  "fail_with e pid w = Inr (Return (peer_handleError e pid w))"

definition on_choke :: "nat \<Rightarrow> incoming \<Rightarrow> world \<Rightarrow> flow res" where
  "on_choke pid m w =
     (if getSize m \<noteq> 0 then fail_with (BadSize 0) pid w
      else Inr (Break (upd_peer pid (set_flag PEER_CHOKING True) w)))"

fun request_all :: "qpiece list \<Rightarrow> nat \<Rightarrow> world \<Rightarrow> world res" where
  "request_all [] pid w = Inr w"
| "request_all (q # qs) pid w = bind_res (requestPiece (index q) pid w) (request_all qs pid)"

definition on_unchoke :: "nat \<Rightarrow> incoming \<Rightarrow> world \<Rightarrow> flow res" where
  "on_unchoke pid m w =
     (if getSize m \<noteq> 0 then fail_with (BadSize 1) pid w
      else
        let w1 = upd_peer pid (set_flag PEER_CHOKING False) w
        in bind_res (request_all (pieceQueue (peers w1 pid)) pid w1) (\<lambda>w2. Inr (Break w2)))"

definition on_interested :: "nat \<Rightarrow> incoming \<Rightarrow> world \<Rightarrow> flow res" where
  "on_interested pid m w =
     (if getSize m \<noteq> 0 then fail_with (BadSize 2) pid w
      else
        let w1 = upd_peer pid (set_flag PEER_INTERESTED True) w
        in if flag w1 pid AM_CHOKING
           then Inr (Break (upd_peer pid (set_flag AM_CHOKING False) (conn_write [0, 0, 0, 1, 1] pid w1)))
           else Inr (Break w1))"

definition on_not_interested :: "nat \<Rightarrow> incoming \<Rightarrow> world \<Rightarrow> flow res" where
  "on_not_interested pid m w =
     (if getSize m \<noteq> 0 then fail_with (BadSize 3) pid w
      else Inr (Break (upd_peer pid (set_flag PEER_INTERESTED False) w)))"

definition on_have :: "nat \<Rightarrow> incoming \<Rightarrow> world \<Rightarrow> flow res" where
  "on_have pid m w =
     (if getSize m \<noteq> 4 then fail_with (BadSize 4) pid w
      else bind_res (of_peek (extractNextU32 m)) (\<lambda>(p, m).
        Inr (Break
          (if unat p \<notin> set (hasPieceIndexes (peers w pid))
           then upd_peer pid (\<lambda>r. r\<lparr>hasPieceIndexes := hasPieceIndexes r @ [unat p]\<rparr>) w
           else w))))"

definition on_bitfield :: "nat \<Rightarrow> incoming \<Rightarrow> world \<Rightarrow> flow res" where
  "on_bitfield pid m w =
     (if getSize m < 1 then fail_with (BadSize 5) pid w
      else
        let raw = getBuffer m; msgSize = unat (getSize m)
        in if length raw < msgSize then Inl OutOfBounds
           else
             let found = bitfield_scan (getTotalPieces (tor w)) 0 (take msgSize raw);
                 w1 = upd_peer pid (\<lambda>r. r\<lparr>hasPieceIndexes := hasPieceIndexes r @ found\<rparr>) w
             in if \<not> isFullyDownloaded (tor w1)
                then bind_res (selectPieceAndRequest pid w1) (\<lambda>w2. Inr (Break w2))
                else Inr (Break w1))"

definition on_request :: "env \<Rightarrow> nat \<Rightarrow> incoming \<Rightarrow> world \<Rightarrow> flow res" where
  "on_request env pid m w =
     (if getSize m \<noteq> 12 then fail_with (BadSize 6) pid w
      else if \<not> flag w pid PEER_INTERESTED then fail_with RequestWithoutInterest pid w
      else if flag w pid AM_CHOKING then fail_with RequestWhileChoked pid w
      else bind_res (of_peek (extract3 m)) (\<lambda>((i, begin, len), m).
        if 16384 < len then fail_with (RequestTooBig len) pid w
        else bind_res (pieceDone (tor w) (unat i)) (\<lambda>fin.
          if \<not> fin then Inr (Break w)
          else bind_res (handleBlockRequest env pid i begin len w) (\<lambda>w1. Inr (Break w1)))))"

text \<open>\<open>std::find_if\<close> as a position, and \<open>erase\<close> at a position.\<close>

fun find_pos :: "('a \<Rightarrow> bool) \<Rightarrow> 'a list \<Rightarrow> nat option" where
  "find_pos P [] = None"
| "find_pos P (x # xs) = (if P x then Some 0 else map_option Suc (find_pos P xs))"

definition remove_at :: "nat \<Rightarrow> 'a list \<Rightarrow> 'a list" where
  "remove_at k xs = take k xs @ drop (Suc k) xs"

lemma find_pos_Some: "find_pos P xs = Some k \<Longrightarrow> k < length xs \<and> P (xs ! k)"
  by (induction xs arbitrary: k) (auto split: if_splits)

lemma set_remove_at_subset: "set (remove_at k xs) \<subseteq> set xs"
  by (auto simp: remove_at_def dest: in_set_takeD in_set_dropD)

definition upd_queue :: "(qpiece list \<Rightarrow> qpiece list) \<Rightarrow> nat \<Rightarrow> world \<Rightarrow> world" where
  "upd_queue f pid = upd_peer pid (\<lambda>p. p\<lparr>pieceQueue := f (pieceQueue p)\<rparr>)"

lemma upd_queue_frame [simp]:
  "tor (upd_queue f pid w) = tor w" "disk (upd_queue f pid w) = disk w"
  "pieceQueue (peers (upd_queue f pid w) q) = (if q = pid then f (pieceQueue (peers w pid)) else pieceQueue (peers w q))"
  by (simp_all add: upd_queue_def)

text \<open>The bytes of the blocks one after the other; a block of positive size needs its data.\<close>

fun assemble :: "block list \<Rightarrow> buffer res" where
  "assemble [] = Inr []"
| "assemble (b # bs) =
     (if bsize b = 0 then assemble bs
      else case bdata b of
             None \<Rightarrow> Inl NullDeref
           | Some d \<Rightarrow> if length d < bsize b then Inl OutOfBounds
                       else bind_res (assemble bs) (\<lambda>r. Inr (take (bsize b) d @ r)))"

text \<open>Storing the block in the queued piece: \<open>blocks[blockIndex] = \<dots>\<close> and \<open>haveBlocks++\<close>.\<close>

definition put_block :: "nat \<Rightarrow> nat \<Rightarrow> buffer option \<Rightarrow> qpiece \<Rightarrow> qpiece" where
  "put_block k n d q = q\<lparr>blocks := (blocks q)[k := \<lparr>bsize = n, bdata = d\<rparr>], haveBlocks := haveBlocks q + 1\<rparr>"

definition on_piece_block :: "env \<Rightarrow> nat \<Rightarrow> incoming \<Rightarrow> world \<Rightarrow> flow res" where
  "on_piece_block env pid m w =
     (if getSize m < 9 then fail_with (BadSize 7) pid w
      else bind_res (of_peek (extract2 m)) (\<lambda>((i, begin), m).
        let msgSize = getSize m - 8
        in if msgSize \<le> 0 \<or> 16384 < msgSize then fail_with (BlockTooBig msgSize) pid w
        else case find_pos (\<lambda>q. index q = unat i) (pieceQueue (peers w pid)) of
          None \<Rightarrow> fail_with (NotAskedFor i) pid w
        | Some k \<Rightarrow>
            let piece = pieceQueue (peers w pid) ! k; blockIndex = unat begin div 16384
            in if totalBlocks piece \<le> blockIndex then fail_with BlockIndexTooBig pid w
            else bind_res (pieceDone (tor w) (unat i)) (\<lambda>fin.
              if fin then
                bind_res (sendCancelRequest piece pid w) (\<lambda>w1. Inr (Break (upd_queue (remove_at k) pid w1)))
              else bind_res (of_peek (cpyBuffer msgSize m)) (\<lambda>d.
                let piece1 = put_block blockIndex (unat msgSize) d piece;
                    w1 = upd_queue (\<lambda>qs. qs[k := piece1]) pid w
                in if haveBlocks piece1 = totalBlocks piece1 then
                     bind_res (assemble (blocks piece1)) (\<lambda>pieceData.
                     bind_res (handlePieceCompleted env pid i pieceData w1) (\<lambda>w2.
                       let w3 = upd_queue (remove_at k) pid w2
                       in if completedPieces (tor w3) \<noteq> getTotalPieces (tor w3)
                          then bind_res (selectPieceAndRequest pid w3) (\<lambda>w4. Inr (Break w4))
                          else Inr (Break w3)))
                   else Inr (Break w1)))))"

definition on_cancel :: "nat \<Rightarrow> incoming \<Rightarrow> world \<Rightarrow> flow res" where
  "on_cancel pid m w =
     (if getSize m \<noteq> 12 then fail_with (BadSize 8) pid w
      else bind_res (of_peek (extract3 m)) (\<lambda>_. Inr (Break w)))"

section \<open>Peer::handleMessage and the read handler\<close>

definition message_case :: "env \<Rightarrow> nat \<Rightarrow> u8 \<Rightarrow> incoming \<Rightarrow> world \<Rightarrow> flow res" where
  "message_case env pid messageID m w =
     (if messageID = 0 then on_choke pid m w
      else if messageID = 1 then on_unchoke pid m w
      else if messageID = 2 then on_interested pid m w
      else if messageID = 3 then on_not_interested pid m w
      else if messageID = 4 then on_have pid m w
      else if messageID = 5 then on_bitfield pid m w
      else if messageID = 6 then on_request env pid m w
      else if messageID = 7 then on_piece_block env pid m w
      else if messageID = 8 then on_cancel pid m w
      else Inr (Break w))"

definition handleMessage :: "env \<Rightarrow> nat \<Rightarrow> u8 \<Rightarrow> incoming \<Rightarrow> world \<Rightarrow> world res" where
  "handleMessage env pid messageID inMsg w =
     bind_res (message_case env pid messageID inMsg w) (\<lambda>r.
       case r of Return w1 \<Rightarrow> Inr w1 | Break w1 \<Rightarrow> Inr (conn_read 4 Handle pid w1))"

text \<open>The closure \<open>Peer::handle\<close> installs for the body of a message.\<close>

definition on_body :: "env \<Rightarrow> nat \<Rightarrow> buffer \<Rightarrow> nat \<Rightarrow> world \<Rightarrow> world res" where
  "on_body env pid data sz w =
     bind_res (of_peek (peek data 0)) (\<lambda>mid.
       handleMessage env pid mid (IncomingMessage (drop 1 data) (of_nat sz - 1)) w)"

definition run_read_cb :: "env \<Rightarrow> read_cb \<Rightarrow> nat \<Rightarrow> buffer \<Rightarrow> nat \<Rightarrow> world \<Rightarrow> world res" where
  "run_read_cb env cb pid data sz w =
     (case cb of
        Connect_handshake \<Rightarrow> Inr (on_connect_handshake pid data sz w)
      | Authenticate_handshake \<Rightarrow> on_authenticate_handshake pid data sz w
      | Handle \<Rightarrow> peer_handle pid data sz w
      | Handle_body \<Rightarrow> on_body env pid data sz w)"

text \<open>
  The handler of \<open>async_read\<close> when it succeeds with the bytes asked for: they are committed to the
  input stream, the callback sees the readable part of it, and afterwards they are consumed.
\<close>

definition on_read :: "env \<Rightarrow> nat \<Rightarrow> buffer \<Rightarrow> world \<Rightarrow> world res" where
  "on_read env pid bytes w =
     (let w1 = upd_conn pid (\<lambda>c. c\<lparr>inputStream := inputStream c @ bytes, reading := None\<rparr>) w;
          c1 = conn_of w1 pid;
          finish = upd_conn pid (\<lambda>c. c\<lparr>inputStream := drop (length bytes) (inputStream c)\<rparr>)
      in case readCB c1 of
           None \<Rightarrow> Inr (finish w1)
         | Some cb \<Rightarrow> bind_res (run_read_cb env cb pid (inputStream c1) (length bytes) w1) (\<lambda>w2. Inr (finish w2)))"

text \<open>The same handler when it fails after a part of the bytes.\<close>

definition on_read_error :: "nat \<Rightarrow> buffer \<Rightarrow> string \<Rightarrow> world \<Rightarrow> world" where
  "on_read_error pid bytes msg w =
     conn_handleError False msg pid
       (upd_conn pid (\<lambda>c. c\<lparr>inputStream := inputStream c @ bytes, reading := None\<rparr>) w)"

end
