(* ===== verification/Swarm_Invariant.thy ===== *)
theory Swarm_Invariant
  imports Peer_Handler
begin

text \<open>
  The invariant of the client's state, and the proof that every operation of the peers and of the
  torrent keeps it: the bit field, the finished marks and the counter agree; the queued pieces are
  well-formed; and every piece marked finished is on the disk with the hash of the torrent file.
\<close>

section \<open>The part of the state the invariant speaks about\<close>

definition core ::
  "world \<Rightarrow> tpiece list \<times> bool list \<times> nat \<times> u64 \<times> u64 \<times> file_rec \<times> buffer \<times> (nat \<times> buffer) list \<times> (nat \<Rightarrow> qpiece list)"
where
  "core w = (pieces (tor w), bitfield (tor w), completedPieces (tor w), pieceLength (tor w), totalSize (tor w),
             tfile (tor w), contents (disk w), accepted w, \<lambda>pid. pieceQueue (peers w pid))"

lemma core_eqI:
  "pieces (tor w') = pieces (tor w) \<Longrightarrow> bitfield (tor w') = bitfield (tor w) \<Longrightarrow>
   completedPieces (tor w') = completedPieces (tor w) \<Longrightarrow> pieceLength (tor w') = pieceLength (tor w) \<Longrightarrow>
   totalSize (tor w') = totalSize (tor w) \<Longrightarrow> tfile (tor w') = tfile (tor w) \<Longrightarrow>
   contents (disk w') = contents (disk w) \<Longrightarrow> accepted w' = accepted w \<Longrightarrow> (\<And>p. pieceQueue (peers w' p) = pieceQueue (peers w p)) \<Longrightarrow>
   core w' = core w"
  by (simp add: core_def)

named_theorems core_simps

lemma hush_eqD_all:
  "hush w' = hush w \<Longrightarrow> tor w' = tor w \<and> disk w' = disk w \<and> accepted w' = accepted w \<and>
     (\<forall>q. pieceQueue (peers w' q) = pieceQueue (peers w q))"
  by (intro conjI allI hush_eqD(1, 2, 6, 12))

lemma core_hush: "hush w' = hush w \<Longrightarrow> core w' = core w"
  by (drule hush_eqD_all) (rule core_eqI, simp_all)

lemma core_conn_write [core_simps]: "core (conn_write b pid w) = core w"
  by (rule core_eqI) simp_all

lemma core_upd_conn [core_simps]: "core (upd_conn pid f w) = core w"
  by (rule core_eqI) simp_all

lemma core_set_flag [core_simps]: "core (upd_peer pid (set_flag s b) w) = core w"
  by (rule core_eqI) simp_all

lemma core_conn_read [core_simps]: "core (conn_read n cb pid w) = core w"
  by (simp add: conn_read_def core_upd_conn)

lemma core_conn_close [core_simps]: "core (conn_close pid w) = core w"
  by (rule core_eqI) simp_all

lemma core_peer_disconnect [core_simps]: "core (peer_disconnect pid w) = core w"
  by (rule core_eqI) simp_all

lemma core_peer_handleError [core_simps]: "core (peer_handleError e pid w) = core w"
  by (rule core_eqI) simp_all

lemma core_handshaked [core_simps]: "core (handshaked pid w) = core w"
  by (rule core_eqI) (simp_all add: handshaked_def addPeer_def)

lemma core_set_peerId [core_simps]: "core (set_peerId i pid w) = core w"
  by (rule core_eqI) (simp_all add: set_peerId_def)

lemma core_has [core_simps]: "core (upd_peer pid (\<lambda>r. r\<lparr>hasPieceIndexes := f r\<rparr>) w) = core w"
  by (rule core_eqI) simp_all

lemma core_put_all [core_simps]: "core (wr.put_all bs pid w) = core w"
  by (rule core_hush) (rule wr.rest_put_all)

lemma core_conn_handleError [core_simps]: "core (conn_handleError ab msg pid w) = core w"
  by (simp add: conn_handleError_def Let_def core_simps)

lemma core_fold_disconnect [core_simps]: "core (fold peer_disconnect ps w) = core w"
  by (induction ps arbitrary: w) (simp_all add: core_simps)

section \<open>The invariant\<close>

definition block_ok :: "block \<Rightarrow> bool" where
  "block_ok b \<longleftrightarrow>
     (case bdata b of None \<Rightarrow> bsize b = 0 | Some d \<Rightarrow> 0 < bsize b \<and> length d = bsize b)"

definition qpiece_ok :: "torrent \<Rightarrow> qpiece \<Rightarrow> bool" where
  "qpiece_ok t q \<longleftrightarrow>
     index q < length (pieces t) \<and> totalBlocks q = block_count (piece_len t (index q)) \<and>
     length (blocks q) = totalBlocks q \<and> haveBlocks q < totalBlocks q \<and> (\<forall>b \<in> set (blocks q). block_ok b)"

definition finished_set :: "tpiece list \<Rightarrow> nat set" where
  "finished_set ps = {i. i < length ps \<and> finished (ps ! i)}"

text \<open>Numbers that fit: fixed when the torrent file is read, and kept by everything.\<close>

definition geometry_ok :: "torrent \<Rightarrow> bool" where
  "geometry_ok t \<longleftrightarrow> wf_sizes t \<and> offsets_fit t \<and> pieces_fit t \<and> fp (tfile t)"

definition marks_ok :: "torrent \<Rightarrow> bool" where
  "marks_ok t \<longleftrightarrow>
     length (bitfield t) = length (pieces t) \<and> (\<forall>i < length (pieces t). bitfield t ! i = finished (pieces t ! i)) \<and>
     completedPieces t = card (finished_set (pieces t)) \<and> priorities_ok (pieces t)"

text \<open>
  The pieces whose data was accepted: exactly the finished ones, each once, with the hash of the
  torrent file.
\<close>

definition accepted_ok :: "env \<Rightarrow> world \<Rightarrow> bool" where
  "accepted_ok env w \<longleftrightarrow>
     fst ` set (accepted w) = finished_set (pieces (tor w)) \<and> distinct (map fst (accepted w)) \<and>
     (\<forall>(i, d) \<in> set (accepted w). digest_bytes env d = hash (pieces (tor w) ! i))"

text \<open>
  The integrity of the file: the accepted data is where its piece belongs.  The hash check does not
  compare lengths, so this needs that no data of another length was accepted for a piece: that no
  collision of the digest was sent to the client.
\<close>

definition full_length :: "world \<Rightarrow> bool" where
  "full_length w \<longleftrightarrow> (\<forall>(i, d) \<in> set (accepted w). length d = piece_len (tor w) i)"

definition on_disk :: "torrent \<Rightarrow> buffer \<Rightarrow> nat \<Rightarrow> buffer \<Rightarrow> bool" where
  "on_disk t c i d \<longleftrightarrow> piece_end t i \<le> length c \<and> slice (piece_begin t i) (piece_len t i) c = d"

definition data_ok :: "world \<Rightarrow> bool" where
  "data_ok w \<longleftrightarrow> (\<forall>(i, d) \<in> set (accepted w). on_disk (tor w) (contents (disk w)) i d)"

text \<open>
  What concerns the torrent and the file, what concerns the queues, and both together: the invariant
  of the client.
\<close>

definition store_inv :: "env \<Rightarrow> world \<Rightarrow> bool" where
  "store_inv env w \<longleftrightarrow>
     geometry_ok (tor w) \<and> marks_ok (tor w) \<and> accepted_ok env w \<and> (full_length w \<longrightarrow> data_ok w)"

definition queues_ok :: "world \<Rightarrow> bool" where
  "queues_ok w \<longleftrightarrow> (\<forall>pid. \<forall>q \<in> set (pieceQueue (peers w pid)). qpiece_ok (tor w) q)"

definition client_inv :: "env \<Rightarrow> world \<Rightarrow> bool" where
  "client_inv env w \<longleftrightarrow> store_inv env w \<and> queues_ok w"

lemma geometryD:
  assumes "geometry_ok t"
  shows "wf_sizes t" "offsets_fit t" "pieces_fit t" "fp (tfile t)"
  using assms by (simp_all add: geometry_ok_def)

lemma marksD:
  assumes "marks_ok t"
  shows "length (bitfield t) = length (pieces t)" "completedPieces t = card (finished_set (pieces t))"
    "priorities_ok (pieces t)" "i < length (pieces t) \<Longrightarrow> bitfield t ! i = finished (pieces t ! i)"
  using assms by (simp_all add: marks_ok_def)

lemma store_invD:
  assumes "store_inv env w"
  shows "geometry_ok (tor w)" "marks_ok (tor w)" "accepted_ok env w" "full_length w \<Longrightarrow> data_ok w"
  using assms by (simp_all add: store_inv_def)

lemma client_invD:
  assumes "client_inv env w"
  shows "store_inv env w" "queues_ok w" "geometry_ok (tor w)" "marks_ok (tor w)"
  using assms by (simp_all add: client_inv_def store_inv_def)

lemma queues_okD: "queues_ok w \<Longrightarrow> q \<in> set (pieceQueue (peers w pid)) \<Longrightarrow> qpiece_ok (tor w) q"
  by (simp add: queues_ok_def)

section \<open>Steps that leave the core alone\<close>

text \<open>Two torrents with the same numbers.\<close>

definition same_sizes :: "torrent \<Rightarrow> torrent \<Rightarrow> bool" where
  "same_sizes t' t \<longleftrightarrow>
     length (pieces t') = length (pieces t) \<and> pieceLength t' = pieceLength t \<and> totalSize t' = totalSize t"

lemma same_sizesD:
  assumes "same_sizes t' t"
  shows "length (pieces t') = length (pieces t)" "piece_begin t' = piece_begin t" "piece_end t' = piece_end t"
    "piece_len t' = piece_len t" "qpiece_ok t' = qpiece_ok t"
proof -
  have n: "length (pieces t') = length (pieces t)" "pieceLength t' = pieceLength t" "totalSize t' = totalSize t"
    using assms by (simp_all add: same_sizes_def)
  then show "length (pieces t') = length (pieces t)" by simp
  show b: "piece_begin t' = piece_begin t" and e: "piece_end t' = piece_end t"
    by (simp_all only: fun_eq_iff piece_begin_def piece_end_def n simp_thms)
  then show l: "piece_len t' = piece_len t"
    by (simp only: fun_eq_iff piece_len_def simp_thms)
  show "qpiece_ok t' = qpiece_ok t"
    by (simp only: fun_eq_iff qpiece_ok_def n l simp_thms)
qed

lemma geometry_ok_same: "same_sizes t' t \<Longrightarrow> tfile t' = tfile t \<Longrightarrow> geometry_ok t' = geometry_ok t"
  by (auto simp: same_sizes_def geometry_ok_def wf_sizes_def offsets_fit_def pieces_fit_def)

lemma queues_ok_same:
  "same_sizes (tor w') (tor w) \<Longrightarrow> (\<And>p. set (pieceQueue (peers w' p)) \<subseteq> set (pieceQueue (peers w p))) \<Longrightarrow>
     queues_ok w \<Longrightarrow> queues_ok w'"
  by (drule same_sizesD(5)) (auto simp: queues_ok_def)

text \<open>A step that keeps the sizes, the hashes, the marks of the pieces and the file.\<close>

lemma data_same:
  assumes s: "same_sizes (tor w') (tor w)" and "map hash (pieces (tor w')) = map hash (pieces (tor w))"
    and "finished_set (pieces (tor w')) = finished_set (pieces (tor w))"
    and "accepted w' = accepted w" "contents (disk w') = contents (disk w)"
  shows "full_length w' = full_length w" "data_ok w' = data_ok w" "accepted_ok env w' = accepted_ok env w"
proof -
  show "full_length w' = full_length w" "data_ok w' = data_ok w"
    using same_sizesD [OF s] assms(4, 5) by (simp_all add: full_length_def data_ok_def on_disk_def)
  have h: "hash (pieces (tor w') ! i) = hash (pieces (tor w) ! i)" if "i < length (pieces (tor w))" for i
    using arg_cong [OF assms(2), of "\<lambda>xs. xs ! i"] that same_sizesD(1) [OF s] by simp
  have "i < length (pieces (tor w))" if "fst ` set (accepted w) = finished_set (pieces (tor w))"
    "(i, d) \<in> set (accepted w)" for i d
    using that by (force simp: finished_set_def)
  with h show "accepted_ok env w' = accepted_ok env w"
    using assms(3, 4) by (auto simp: accepted_ok_def)
qed

lemma core_same_sizes: "core w' = core w \<Longrightarrow> same_sizes (tor w') (tor w)"
  by (simp add: core_def same_sizes_def)

lemma store_inv_core: "core w' = core w \<Longrightarrow> store_inv env w' = store_inv env w"
proof -
  assume c: "core w' = core w"
  note s = core_same_sizes [OF this]
  have e: "tfile (tor w') = tfile (tor w)" "pieces (tor w') = pieces (tor w)" "bitfield (tor w') = bitfield (tor w)"
      "completedPieces (tor w') = completedPieces (tor w)" "contents (disk w') = contents (disk w)"
    using c by (simp_all add: core_def)
  have "accepted w' = accepted w"
    using c by (simp add: core_def)
  with e data_same [OF s] show ?thesis
    using geometry_ok_same [OF s e(1)] by (simp add: store_inv_def marks_ok_def)
qed

lemma queues_ok_core: "core w' = core w \<Longrightarrow> queues_ok w' = queues_ok w"
  using same_sizesD(5) [OF core_same_sizes, of w' w] by (simp add: queues_ok_def core_def fun_eq_iff)

lemma client_inv_core: "core w' = core w \<Longrightarrow> client_inv env w' = client_inv env w"
  using store_inv_core [of w' w] queues_ok_core [of w' w] by (simp add: client_inv_def)

end
