(* ===== verification/Handler_Safety.thy ===== *)
theory Handler_Safety
  imports Swarm_Invariant
begin

text \<open>
  The invariant of \<open>Swarm_Invariant\<close> is kept by the selection of pieces, by the storing of a piece
  and by every case of \<open>handleMessage\<close>, and these are free of the faults the C++ code could raise,
  but for the two that are named in the statements.
\<close>

section \<open>Selecting a piece\<close>

lemma set_priority_same [simp]: "same_sizes (set_priority i v t) t"
  by (simp add: same_sizes_def set_priority_def)

lemma set_priority_finished [simp]: "finished (pieces (set_priority i v t) ! j) = finished (pieces t ! j)"
  by (cases "length (pieces t) \<le> i") (auto simp: set_priority_def nth_list_update list_update_beyond)

lemma set_priority_hash [simp]: "hash (pieces (set_priority i v t) ! j) = hash (pieces t ! j)"
  by (cases "length (pieces t) \<le> i") (auto simp: set_priority_def nth_list_update list_update_beyond)

lemma set_priority_finished_set [simp]: "finished_set (pieces (set_priority i v t)) = finished_set (pieces t)"
  by (simp add: finished_set_def)

lemma set_priority_fields [simp]:
  "bitfield (set_priority i v t) = bitfield t" "completedPieces (set_priority i v t) = completedPieces t"
  "tfile (set_priority i v t) = tfile t"
  by (simp_all add: set_priority_def)

lemma set_priority_hashes [simp]: "map hash (pieces (set_priority i v t)) = map hash (pieces t)"
  by (rule nth_equalityI) simp_all

lemma store_inv_request_best:
  assumes "store_inv env w" "best_choice has (pieces (tor w)) i"
  shows "store_inv env (request_best i pid w)"
proof -
  let ?v = "priority (pieces (tor w) ! i) + 1"
  note s = set_priority_same [of i ?v "tor w"]
  have d: "contents (disk (request_best i pid w)) = contents (disk w)"
    "accepted (request_best i pid w) = accepted w"
    using hush_eqD(2, 12) [OF wr.rest_put_all] by (simp_all add: request_best_def enqueue_piece_def)
  have "marks_ok (set_priority i ?v (tor w))"
    using priorities_ok_bump [OF marksD(3) assms(2)] store_invD(2) [OF assms(1)] by (simp add: marks_ok_def)
  then show ?thesis
    using assms(1) geometry_ok_same [OF s] data_same [of "request_best i pid w" w] d
    by (simp add: store_inv_def request_best_tor)
qed

lemma fresh_qpiece_ok: "wf_sizes t \<Longrightarrow> i < length (pieces t) \<Longrightarrow> qpiece_ok t (fresh_qpiece t i)"
  using piece_len_pos [of t i] by (auto simp: qpiece_ok_def fresh_qpiece_def block_ok_def block_count_def)

lemma client_inv_request_best:
  assumes "client_inv env w" "best_choice has (pieces (tor w)) i"
  shows "client_inv env (request_best i pid w)"
proof -
  have i: "i < length (pieces (tor w))"
    using assms(2) by (simp add: best_choice_def candidates_def)
  have "qpiece_ok (tor (request_best i pid w)) = qpiece_ok (tor w)"
    by (simp add: request_best_tor same_sizesD(5) [OF set_priority_same])
  then have "queues_ok (request_best i pid w)"
    using client_invD(2) [OF assms(1)] fresh_qpiece_ok [OF geometryD(1) [OF client_invD(3) [OF assms(1)]] i]
    by (auto simp: queues_ok_def request_best_queue)
  with store_inv_request_best [OF client_invD(1) [OF assms(1)] assms(2)] show ?thesis
    by (simp add: client_inv_def)
qed

lemma selectPieceAndRequest_safe:
  assumes "client_inv env w"
  shows "holds {} (client_inv env) (selectPieceAndRequest pid w)"
  using selectPieceAndRequest_run [of w pid] client_inv_request_best [OF assms]
    geometryD(1, 3) [OF client_invD(3) [OF assms]] marksD(3) [OF client_invD(4) [OF assms]] assms
  by auto

section \<open>Storing a piece\<close>

lemma finished_set_store:
  "i < length (pieces t) \<Longrightarrow> finished_set (pieces (store_piece i n t)) = insert i (finished_set (pieces t))"
  by (auto simp: finished_set_def store_piece_def nth_list_update)

lemma store_piece_same [simp]: "same_sizes (store_piece i n t) t"
  by (simp add: same_sizes_def store_piece_def)

lemma store_piece_hash [simp]: "hash (pieces (store_piece i n t) ! j) = hash (pieces t ! j)"
  by (cases "length (pieces t) \<le> i") (auto simp: store_piece_def nth_list_update list_update_beyond)

lemma finite_finished_set [simp]: "finite (finished_set ps)"
  by (simp add: finished_set_def)

lemma marks_ok_store_piece:
  assumes "marks_ok t" "i < length (pieces t)" "\<not> finished (pieces t ! i)"
  shows "marks_ok (store_piece i n t)"
proof -
  have "i \<notin> finished_set (pieces t)"
    using assms(3) by (simp add: finished_set_def)
  moreover have "priorities_ok (pieces (store_piece i n t))"
    using marksD(3) [OF assms(1)] assms(2)
    by (auto simp: priorities_ok_def store_piece_def dest!: set_update_subset_insert [THEN subsetD])
  ultimately show ?thesis
    using assms(1, 2) finished_set_store [OF assms(2), of n] by (simp add: marks_ok_def)
      (simp add: store_piece_def nth_list_update)
qed

lemma store_piece_hashes [simp]: "map hash (pieces (store_piece i n t)) = map hash (pieces t)"
  using store_piece_same by (intro nth_equalityI) (auto simp: same_sizes_def)

lemma on_disk_stored:
  assumes "geometry_ok (tor w)" "unat i < length (pieces (tor w))" "length d = piece_len (tor w) (unat i)"
  shows "on_disk (tor w) (contents (disk (stored i d w))) (unat i) d"
    and "j < length (pieces (tor w)) \<Longrightarrow> j \<noteq> unat i \<Longrightarrow> on_disk (tor w) (contents (disk w)) j e \<Longrightarrow>
           on_disk (tor w) (contents (disk (stored i d w))) j e"
proof -
  let ?t = "tor w" and ?c = "contents (disk w)"
  note wf = geometryD(1) [OF assms(1)]
  have c: "contents (disk (stored i d w)) = write_at (piece_begin ?t (unat i)) d ?c"
    by (simp add: stored_def)
  have e: "piece_begin ?t (unat i) + length d = piece_end ?t (unat i)"
    using piece_begin_le_end [OF wf assms(2)] assms(3) by (simp add: piece_len_def)
  show "on_disk ?t (contents (disk (stored i d w))) (unat i) d"
    using assms(3) e slice_write_at_same [of "piece_begin ?t (unat i)" d ?c]
    by (simp add: on_disk_def c length_write_at)
  assume j: "j < length (pieces ?t)" "j \<noteq> unat i" "on_disk ?t ?c j e"
  have b: "piece_begin ?t j + piece_len ?t j = piece_end ?t j"
    using piece_begin_le_end [OF wf j(1)] by (simp add: piece_len_def)
  have "piece_end ?t j \<le> piece_begin ?t (unat i) \<or> piece_end ?t (unat i) \<le> piece_begin ?t j"
    using j(2) piece_end_before [of j "unat i" ?t] piece_end_before [of "unat i" j ?t] by linarith
  with j(3) b e show "on_disk ?t (contents (disk (stored i d w))) j e"
    by (simp add: on_disk_def c length_write_at slice_write_at_other le_max_iff_disj)
qed

lemma store_inv_stored:
  assumes "store_inv env w" "unat i < length (pieces (tor w))" "\<not> finished (pieces (tor w) ! unat i)"
    and "digest_bytes env d = hash (pieces (tor w) ! unat i)"
  shows "store_inv env (stored i d w)"
proof -
  let ?t = "store_piece (unat i) (length d) (tor w)" and ?a = "accepted w @ [(unat i, d)]"
  note s = store_piece_same [of "unat i" "length d" "tor w"]
  have t: "tor (stored i d w) = ?t" "accepted (stored i d w) = ?a"
    by (simp_all add: stored_def)
  note acc = store_invD(3) [OF assms(1)]
  have notin: "unat i \<notin> fst ` set (accepted w)" and le: "j \<in> fst ` set (accepted w) \<Longrightarrow> j < length (pieces (tor w))" for j
    using acc assms(3) by (auto simp: accepted_ok_def finished_set_def)
  have "accepted_ok env (stored i d w)"
    using acc assms(4) notin by (auto simp: accepted_ok_def t finished_set_store [OF assms(2)])
  moreover have "data_ok (stored i d w)" if "full_length (stored i d w)"
  proof -
    have l: "length d = piece_len (tor w) (unat i)" and "full_length w"
      using that by (simp_all add: full_length_def t same_sizesD(4) [OF s])
    note old = store_invD(4) [OF assms(1) this(2)]
    have "on_disk (tor w) (contents (disk (stored i d w))) j e" if je: "(j, e) \<in> set ?a" for j e
    proof (cases "(j, e) = (unat i, d)")
      case True
      then show ?thesis
        using on_disk_stored(1) [OF store_invD(1) [OF assms(1)] assms(2) l] by simp
    next
      case False
      then have "(j, e) \<in> set (accepted w)"
        using je by auto
      then show ?thesis
        using old le notin by (intro on_disk_stored(2) [OF store_invD(1) [OF assms(1)] assms(2) l]) (force simp: data_ok_def)+
    qed
    then show ?thesis
      using same_sizesD [OF s] by (auto simp: data_ok_def t on_disk_def)
  qed
  moreover have "geometry_ok ?t"
    using geometry_ok_same [OF s] store_invD(1) [OF assms(1)] by (simp add: store_piece_def)
  ultimately show ?thesis
    using marks_ok_store_piece [OF store_invD(2) [OF assms(1)] assms(2, 3)] by (simp add: store_inv_def t)
qed

lemma handlePieceCompleted_safe:
  assumes "store_inv env w" "unat i < length (pieces (tor w))" "\<not> finished (pieces (tor w) ! unat i)" "d \<noteq> []"
  shows "holds {Uncaught ''fwrite failed''}
    (\<lambda>w'. store_inv env w' \<and> same_sizes (tor w') (tor w) \<and> (\<forall>p. pieceQueue (peers w' p) = pieceQueue (peers w p)))
    (handlePieceCompleted env pid i d w)"
proof (cases "checkPieceHash env (tor w) d (unat i)")
  case True
  then have "digest_bytes env d = hash (pieces (tor w) ! unat i)"
    by (simp add: checkPieceHash_def split: if_splits)
  note inv = store_inv_stored [OF assms(1-3) this]
  have "pieceQueue (peers (stored i d w) p) = pieceQueue (peers w p)" for p
    by (simp add: stored_def)
  moreover have "same_sizes (tor (stored i d w)) (tor w)"
    by (simp add: stored_def)
  ultimately show ?thesis
    using inv handlePieceCompleted_match [OF _ _ _ _ assms(4) True, of pid]
      geometryD [OF store_invD(1) [OF assms(1)]] marksD(1) [OF store_invD(2) [OF assms(1)]] by simp
next
  case False
  let ?w = "upd_tor (\<lambda>t. t\<lparr>pieceHashMisses := pieceHashMisses t + 1,
                        wastedBytes := wastedBytes t + of_nat (length d)\<rparr>) w"
  have c: "core ?w = core w"
    by (rule core_eqI) simp_all
  show ?thesis
    using assms(1) store_inv_core [OF c] core_same_sizes [OF c] handlePieceCompleted_mismatch [OF assms(4) False]
    by simp
qed

section \<open>Serving a block\<close>

lemma contents_seek [simp]: "contents (case fseek off s of None \<Rightarrow> s | Some s' \<Rightarrow> s') = contents s"
  by (simp add: fseek_def)

lemma core_serve:
  "contents s' = contents (disk w) \<Longrightarrow>
     core (upd_tor (\<lambda>t. t\<lparr>uploadedBytes := u t\<rparr>) (conn_write b pid (w\<lparr>disk := s'\<rparr>))) = core w"
  by (rule core_eqI) simp_all

lemma handleBlockRequest_safe:
  assumes "geometry_ok (tor w)"
  shows "holds {} (\<lambda>w'. core w' = core w) (handleBlockRequest env pid i b len w)"
proof (cases "length (pieces (tor w)) \<le> unat i")
  case True
  then show ?thesis by (simp add: handleBlockRequest_def core_simps)
next
  case False
  then have i: "unat i < length (pieces (tor w))" by simp
  let ?pos = "ucast b + ucast i * pieceLength (tor w) - fbegin (tfile (tor w))"
  let ?s = "case fseek ?pos (disk w) of None \<Rightarrow> disk w | Some s \<Rightarrow> s"
  let ?got = "fst (fread (unat len) ?s)" and ?s' = "snd (fread (unat len) ?s)"
  have c: "contents ?s' = contents (disk w)"
    by (simp add: fread_def Let_def)
  have "length (?got @ map (uninitialised env) [length ?got..<unat len]) = unat len"
    by (simp add: fread_def Let_def slice_def)
  note blk = sendPieceBlock_encode [OF this]
  have "core (w\<lparr>disk := ?s'\<rparr>) = core w"
    using c by (intro core_eqI) simp_all
  then show ?thesis
    using i geometryD(4) [OF assms] blk core_serve [OF c]
    by (simp add: handleBlockRequest_def pieceSize_piece_len [OF geometryD(1) [OF assms] i] Let_def core_simps
        split_beta)
qed

section \<open>Reading the payload\<close>

text \<open>A received message: nothing read yet, and the announced size does not exceed the memory behind it.\<close>

definition msg_ok :: "incoming \<Rightarrow> bool" where
  "msg_ok m \<longleftrightarrow> readIndex m = 0 \<and> unat (buffSize m) \<le> length (dataBuffer m)"

lemma extractNextU32_total:
  assumes "unat (readIndex m) + 4 \<le> length (dataBuffer m)"
  shows "\<exists>v. extractNextU32 m = Some (v, m\<lparr>readIndex := readIndex m + 4\<rparr>)"
proof -
  have "readAsBE32 (getBuffer m) \<noteq> None"
    using assms by (simp add: readAsBE32_None_iff getBuffer_def del: not_None_eq)
  then show ?thesis
    by (auto simp: extractNextU32_def)
qed

lemma getSize_readIndex [simp]: "getSize (m\<lparr>readIndex := x\<rparr>) = getSize m"
  by (simp add: getSize_def)

lemma extract2_total:
  assumes "msg_ok m" "8 \<le> unat (buffSize m)"
  shows "\<exists>i b. extract2 m = Some ((i, b), m\<lparr>readIndex := 8\<rparr>)"
proof -
  have l: "readIndex m = 0" "8 \<le> length (dataBuffer m)"
    using assms by (simp_all add: msg_ok_def)
  obtain i where i: "extractNextU32 m = Some (i, m\<lparr>readIndex := 4\<rparr>)"
    using extractNextU32_total [of m] l by auto
  obtain b where "extractNextU32 (m\<lparr>readIndex := 4\<rparr>) = Some (b, m\<lparr>readIndex := 8\<rparr>)"
    using extractNextU32_total [of "m\<lparr>readIndex := 4\<rparr>"] l by auto
  with i show ?thesis by (simp add: extract2_def)
qed

lemma extract3_total:
  assumes "msg_ok m" "12 \<le> unat (buffSize m)"
  shows "\<exists>i b l. extract3 m = Some ((i, b, l), m\<lparr>readIndex := 12\<rparr>)"
proof -
  obtain i b where ib: "extract2 m = Some ((i, b), m\<lparr>readIndex := 8\<rparr>)"
    using extract2_total [OF assms(1)] assms(2) by auto
  obtain l where "extractNextU32 (m\<lparr>readIndex := 8\<rparr>) = Some (l, m\<lparr>readIndex := 12\<rparr>)"
    using extractNextU32_total [of "m\<lparr>readIndex := 8\<rparr>"] assms by (auto simp: msg_ok_def)
  with ib show ?thesis by (simp add: extract3_def)
qed

lemma cpyBuffer_total:
  assumes "msg_ok m" "8 \<le> unat (buffSize m)"
  shows "\<exists>d. cpyBuffer (buffSize m - 8) (m\<lparr>readIndex := 8\<rparr>) = Some (Some d) \<and> length d = unat (buffSize m - 8)"
proof -
  have "unat (buffSize m - 8) = unat (buffSize m) - 8"
    using assms(2) by (simp add: unat_sub word_le_nat_alt)
  then show ?thesis
    using assms by (auto simp: cpyBuffer_def msg_ok_def min_def)
qed

section \<open>The assembled piece\<close>

definition block_bytes :: "block \<Rightarrow> buffer" where
  "block_bytes b = (case bdata b of None \<Rightarrow> [] | Some d \<Rightarrow> d)"

lemma assemble_blocks: "(\<And>b. b \<in> set bs \<Longrightarrow> block_ok b) \<Longrightarrow> assemble bs = Inr (concat (map block_bytes bs))"
proof (induction bs)
  case Nil
  then show ?case by simp
next
  case (Cons b bs)
  moreover have "block_ok b"
    using Cons.prems by simp
  ultimately show ?case
    by (cases "bdata b") (auto simp: block_ok_def block_bytes_def)
qed

lemma put_block_blocks_ok:
  assumes "qpiece_ok t q" "d \<noteq> []"
  shows "\<forall>b \<in> set (blocks (put_block k (length d) (Some d) q)). block_ok b"
proof
  fix b assume "b \<in> set (blocks (put_block k (length d) (Some d) q))"
  then have "b = \<lparr>bsize = length d, bdata = Some d\<rparr> \<or> b \<in> set (blocks q)"
    by (auto simp: put_block_def dest!: set_update_subset_insert [THEN subsetD])
  then show "block_ok b"
    using assms by (auto simp: qpiece_ok_def block_ok_def)
qed

lemma put_block_ok:
  assumes "qpiece_ok t q" "d \<noteq> []" "haveBlocks q + 1 \<noteq> totalBlocks q"
  shows "qpiece_ok t (put_block k (length d) (Some d) q)"
  using assms(1, 3) put_block_blocks_ok [OF assms(1, 2), of k] by (simp add: qpiece_ok_def) (simp add: put_block_def)

lemma assemble_put_block:
  assumes "qpiece_ok t q" "d \<noteq> []" "k < totalBlocks q"
  shows "\<exists>r. r \<noteq> [] \<and> assemble (blocks (put_block k (length d) (Some d) q)) = Inr r"
proof -
  let ?bs = "blocks (put_block k (length d) (Some d) q)"
  have "k < length (blocks q)"
    using assms(1, 3) by (simp add: qpiece_ok_def)
  then have "\<lparr>bsize = length d, bdata = Some d\<rparr> \<in> set ?bs"
    by (simp add: put_block_def set_update_memI)
  then have "concat (map block_bytes ?bs) \<noteq> []"
    using assms(2) by (auto simp: block_bytes_def intro!: bexI)
  then show ?thesis
    using assemble_blocks put_block_blocks_ok [OF assms(1, 2)] by blast
qed

section \<open>The cases of handleMessage\<close>

text \<open>What holds of the world when a case ends, by \<open>return\<close> or by \<open>break\<close>.\<close>

definition flow_holds :: "(world \<Rightarrow> bool) \<Rightarrow> flow \<Rightarrow> bool" where
  "flow_holds P r = (case r of Return w \<Rightarrow> P w | Break w \<Rightarrow> P w)"

lemma flow_holds_simps [simp]: "flow_holds P (Return w) = P w" "flow_holds P (Break w) = P w"
  by (simp_all add: flow_holds_def)

lemma fail_with_safe: "client_inv env w \<Longrightarrow> holds F (flow_holds (client_inv env)) (fail_with e pid w)"
  by (simp add: fail_with_def client_inv_core [OF core_peer_handleError])

lemmas quiet_simps = fail_with_safe client_inv_core [OF core_set_flag] client_inv_core [OF core_conn_write]
  client_inv_core [OF core_has] client_inv_core [OF core_conn_read]

lemma on_choke_safe: "client_inv env w \<Longrightarrow> holds F (flow_holds (client_inv env)) (on_choke pid m w)"
  by (simp add: on_choke_def quiet_simps)

lemma on_interested_safe: "client_inv env w \<Longrightarrow> holds F (flow_holds (client_inv env)) (on_interested pid m w)"
  by (simp add: on_interested_def quiet_simps Let_def)

lemma on_not_interested_safe: "client_inv env w \<Longrightarrow> holds F (flow_holds (client_inv env)) (on_not_interested pid m w)"
  by (simp add: on_not_interested_def quiet_simps)

lemma core_requestPiece:
  assumes "wf_sizes (tor w)" "i < length (pieces (tor w))"
  shows "holds F (\<lambda>w'. core w' = core w) (requestPiece i pid w)"
proof (cases "flag w pid PEER_CHOKING")
  case True
  then show ?thesis by (simp add: requestPiece_def core_peer_handleError)
next
  case False
  show ?thesis by (simp only: requestPiece_run [OF assms False] core_put_all holds_simps)
qed

lemma core_request_all:
  assumes "wf_sizes (tor w)" "\<forall>q \<in> set qs. index q < length (pieces (tor w))"
  shows "holds F (\<lambda>w'. core w' = core w) (request_all qs pid w)"
  using assms
proof (induction qs arbitrary: w)
  case Nil
  then show ?case by simp
next
  case (Cons q qs)
  have "holds F (\<lambda>w'. core w' = core w) (requestPiece (index q) pid w)"
    using Cons.prems by (intro core_requestPiece) simp_all
  then show ?case
  proof (simp, elim holds_mono)
    fix v assume c: "core v = core w"
    then have "pieces (tor v) = pieces (tor w)" "wf_sizes (tor v) = wf_sizes (tor w)"
      by (simp_all add: core_def wf_sizes_def)
    then have "holds F (\<lambda>w'. core w' = core v) (request_all qs pid v)"
      using Cons.prems by (intro Cons.IH) simp_all
    with c show "holds F (\<lambda>w'. core w' = core w) (request_all qs pid v)" by simp
  qed
qed

lemma on_unchoke_safe:
  assumes "client_inv env w"
  shows "holds F (flow_holds (client_inv env)) (on_unchoke pid m w)"
proof -
  let ?w1 = "upd_peer pid (set_flag PEER_CHOKING False) w"
  have i: "client_inv env ?w1"
    using assms by (simp add: quiet_simps)
  have "\<forall>q \<in> set (pieceQueue (peers ?w1 pid)). index q < length (pieces (tor ?w1))"
    using queues_okD [OF client_invD(2) [OF i], of _ pid] by (simp add: qpiece_ok_def)
  from core_request_all [OF geometryD(1) [OF client_invD(3) [OF i]] this, of F pid]
  have "holds F (client_inv env) (request_all (pieceQueue (peers ?w1 pid)) pid ?w1)"
    by (rule holds_mono) (simp add: i client_inv_core [of _ ?w1])
  then show ?thesis
    using assms by (simp add: on_unchoke_def quiet_simps Let_def)
qed

lemma on_have_safe:
  assumes "client_inv env w" "msg_ok m"
  shows "holds F (flow_holds (client_inv env)) (on_have pid m w)"
proof (cases "getSize m = 4")
  case True
  then obtain v where "extractNextU32 m = Some (v, m\<lparr>readIndex := 4\<rparr>)"
    using extractNextU32_total [of m] assms(2) by (auto simp: msg_ok_def getSize_def)
  then show ?thesis
    using assms(1) by (simp add: on_have_def True quiet_simps)
next
  case False
  then show ?thesis
    using assms(1) by (simp add: on_have_def quiet_simps)
qed

lemma on_bitfield_safe:
  assumes "client_inv env w" "msg_ok m"
  shows "holds F (flow_holds (client_inv env)) (on_bitfield pid m w)"
proof -
  have "holds F (client_inv env) (selectPieceAndRequest pid v)" if "client_inv env v" for v
    by (rule holds_faults [OF selectPieceAndRequest_safe [OF that]]) simp
  then show ?thesis
    using assms by (simp add: on_bitfield_def quiet_simps Let_def msg_ok_def getSize_def getBuffer_def)
qed

lemma on_cancel_safe:
  assumes "client_inv env w" "msg_ok m"
  shows "holds F (flow_holds (client_inv env)) (on_cancel pid m w)"
  using extract3_total [OF assms(2)] assms(1)
  by (cases "getSize m = 12") (auto simp: on_cancel_def quiet_simps getSize_def)

lemma on_request_safe:
  assumes "client_inv env w" "msg_ok m"
  shows "holds {OutOfBounds} (flow_holds (client_inv env)) (on_request env pid m w)"
proof (cases "getSize m = 12 \<and> flag w pid PEER_INTERESTED \<and> \<not> flag w pid AM_CHOKING")
  case True
  then obtain i b l where x: "extract3 m = Some ((i, b, l), m\<lparr>readIndex := 12\<rparr>)"
    using extract3_total [OF assms(2)] by (auto simp: getSize_def)
  have h: "holds {OutOfBounds} (client_inv env) (handleBlockRequest env pid i b l w)"
  proof (rule holds_mono [OF holds_faults [OF handleBlockRequest_safe]])
    show "geometry_ok (tor w)" "{} \<subseteq> {OutOfBounds}"
      using client_invD(3) [OF assms(1)] by simp_all
    show "client_inv env w'" if "core w' = core w" for w'
      using client_inv_core [OF that] assms(1) by simp
  qed
  show ?thesis
    using True assms(1) h
    by (cases "unat i < length (pieces (tor w))"; cases "l \<le> 16384")
      (simp_all add: on_request_def x quiet_simps pieceDone_def peek_def not_le)
next
  case False
  note q = fail_with_safe [OF assms(1)]
  show ?thesis
  proof (cases "getSize m = 12")
    case True
    with False q show ?thesis
      by (cases "flag w pid PEER_INTERESTED") (simp_all add: on_request_def)
  qed (simp add: on_request_def q)
qed

section \<open>Receiving a block\<close>

lemma remove_at_update [simp]: "remove_at k (xs[k := x]) = remove_at k xs"
  by (simp add: remove_at_def)

lemma accepted_upd_queue [simp]: "accepted (upd_queue f pid w) = accepted w"
  by (simp add: upd_queue_def)

lemma store_inv_upd_queue [simp]: "store_inv env (upd_queue f pid w) = store_inv env w"
  by (simp add: store_inv_def data_ok_def full_length_def accepted_ok_def)

lemma queues_ok_upd_queue:
  "queues_ok w \<Longrightarrow> (\<And>q. q \<in> set (f (pieceQueue (peers w pid))) \<Longrightarrow> qpiece_ok (tor w) q) \<Longrightarrow>
     queues_ok (upd_queue f pid w)"
  by (simp add: queues_ok_def)

lemma client_inv_remove:
  assumes "client_inv env w"
  shows "client_inv env (upd_queue (remove_at k) pid w)"
proof -
  have "queues_ok (upd_queue (remove_at k) pid w)"
  proof (rule queues_ok_upd_queue [OF client_invD(2) [OF assms]])
    fix q assume "q \<in> set (remove_at k (pieceQueue (peers w pid)))"
    then have "q \<in> set (pieceQueue (peers w pid))"
      by (rule subsetD [OF set_remove_at_subset])
    then show "qpiece_ok (tor w) q"
      by (rule queues_okD [OF client_invD(2) [OF assms]])
  qed
  then show ?thesis
    using client_invD(1) [OF assms] by (simp add: client_inv_def)
qed

lemma client_inv_put:
  assumes "client_inv env w" "qpiece_ok (tor w) q"
  shows "client_inv env (upd_queue (\<lambda>qs. qs[k := q]) pid w)"
proof -
  have "queues_ok (upd_queue (\<lambda>qs. qs[k := q]) pid w)"
  proof (rule queues_ok_upd_queue [OF client_invD(2) [OF assms(1)]])
    fix r assume "r \<in> set ((pieceQueue (peers w pid))[k := q])"
    then have "r = q \<or> r \<in> set (pieceQueue (peers w pid))"
      using set_update_subset_insert by fastforce
    then show "qpiece_ok (tor w) r"
      using assms(2) queues_okD [OF client_invD(2) [OF assms(1)]] by blast
  qed
  then show ?thesis
    using client_invD(1) [OF assms(1)] by (simp add: client_inv_def)
qed

text \<open>The last block of a piece: it is assembled, checked, stored or thrown away, and leaves the queue.\<close>

lemma complete_safe:
  assumes "client_inv env w" "unat i < length (pieces (tor w))" "\<not> finished (pieces (tor w) ! unat i)" "d \<noteq> []"
  shows "holds {Uncaught ''fwrite failed''} (\<lambda>w2. client_inv env (upd_queue (remove_at k) pid w2))
    (handlePieceCompleted env pid i d (upd_queue (\<lambda>qs. qs[k := q]) pid w))"
proof -
  let ?w1 = "upd_queue (\<lambda>qs. qs[k := q]) pid w"
  have "holds {Uncaught ''fwrite failed''}
    (\<lambda>w'. store_inv env w' \<and> same_sizes (tor w') (tor ?w1) \<and> (\<forall>p. pieceQueue (peers w' p) = pieceQueue (peers ?w1 p)))
    (handlePieceCompleted env pid i d ?w1)"
    using assms client_invD(1) [OF assms(1)] by (intro handlePieceCompleted_safe) simp_all
  then show ?thesis
  proof (rule holds_mono, elim conjE)
    fix w' assume h: "store_inv env w'" "same_sizes (tor w') (tor ?w1)"
      "\<forall>p. pieceQueue (peers w' p) = pieceQueue (peers ?w1 p)"
    have "queues_ok (upd_queue (remove_at k) pid w')"
    proof (rule queues_ok_same)
      show "same_sizes (tor (upd_queue (remove_at k) pid w')) (tor w)"
        using h(2) by simp
      show "queues_ok w" by (rule client_invD(2) [OF assms(1)])
      show "set (pieceQueue (peers (upd_queue (remove_at k) pid w') p)) \<subseteq> set (pieceQueue (peers w p))" for p
        using h(3) by (simp add: set_remove_at_subset)
    qed
    with h(1) show "client_inv env (upd_queue (remove_at k) pid w')"
      by (simp add: client_inv_def)
  qed
qed

lemma core_sendCancelRequest:
  assumes "wf_sizes (tor w)" "index q < length (pieces (tor w))"
  shows "holds F (\<lambda>w'. core w' = core w) (sendCancelRequest q pid w)"
  by (simp only: sendCancelRequest_run [OF assms] core_put_all holds_simps)

lemma client_inv_cancel:
  assumes "client_inv env w" "index q < length (pieces (tor w))"
  shows "holds F (\<lambda>w1. client_inv env (upd_queue (remove_at k) pid w1)) (sendCancelRequest q pid w)"
proof (rule holds_mono [OF core_sendCancelRequest])
  show "wf_sizes (tor w)" "index q < length (pieces (tor w))"
    using geometryD(1) [OF client_invD(3) [OF assms(1)]] assms(2) by simp_all
  show "client_inv env (upd_queue (remove_at k) pid w1)" if "core w1 = core w" for w1
    using client_inv_remove client_inv_core [OF that] assms(1) by blast
qed

lemma on_piece_block_safe:
  assumes "client_inv env w" "msg_ok m"
  shows "holds {Uncaught ''fwrite failed''} (flow_holds (client_inv env)) (on_piece_block env pid m w)"
proof -
  note fail = fail_with_safe [OF assms(1)]
  let ?F = "{Uncaught ''fwrite failed''}" and ?n = "getSize m - 8"
  consider "getSize m < 9" | "9 \<le> getSize m" "?n \<le> 0 \<or> 16384 < ?n" | "9 \<le> getSize m" "0 < ?n" "?n \<le> 16384"
    by (meson not_le)
  then show ?thesis
  proof cases
    case 1
    then show ?thesis by (simp add: on_piece_block_def fail)
  next
    case 2
    then obtain i b where "extract2 m = Some ((i, b), m\<lparr>readIndex := 8\<rparr>)"
      using extract2_total [OF assms(2)] by (auto simp: getSize_def word_le_nat_alt)
    with 2 show ?thesis by (auto simp: on_piece_block_def fail Let_def not_less)
  next
    case 3
    then have le8: "8 \<le> unat (buffSize m)"
      by (simp add: getSize_def word_le_nat_alt)
    obtain i b where x: "extract2 m = Some ((i, b), m\<lparr>readIndex := 8\<rparr>)"
      using extract2_total [OF assms(2) le8] by auto
    obtain d where d: "cpyBuffer ?n (m\<lparr>readIndex := 8\<rparr>) = Some (Some d)" "length d = unat ?n"
      using cpyBuffer_total [OF assms(2) le8] by (auto simp: getSize_def)
    have sz: "\<not> getSize m < 9" "getSize m \<noteq> 8" "\<not> 16384 < ?n"
      using 3 by (simp_all add: not_less) auto
    have dn: "d \<noteq> []"
      using 3(2) d(2) by (auto simp: word_less_nat_alt)
    show ?thesis
    proof (cases "find_pos (\<lambda>q. index q = unat i) (pieceQueue (peers w pid))")
      case None
      with sz x show ?thesis by (simp add: on_piece_block_def fail Let_def)
    next
      case (Some k)
      let ?q = "pieceQueue (peers w pid) ! k" and ?k = "unat b div 16384"
      let ?q1 = "put_block ?k (unat ?n) (Some d) ?q"
      have q: "k < length (pieceQueue (peers w pid))" "index ?q = unat i"
        using find_pos_Some [OF Some] by simp_all
      then have qok: "qpiece_ok (tor w) ?q"
        by (intro queues_okD [OF client_invD(2) [OF assms(1)], of _ pid]) simp
      then have i: "unat i < length (pieces (tor w))"
        using q(2) by (simp add: qpiece_ok_def)
      then have fin: "pieceDone (tor w) (unat i) = Inr (finished (pieces (tor w) ! unat i))"
        by (simp add: pieceDone_def peek_def)
      note eval = on_piece_block_def x Some Let_def fin d
      consider "totalBlocks ?q \<le> ?k" | "\<not> totalBlocks ?q \<le> ?k" "finished (pieces (tor w) ! unat i)"
        | "\<not> totalBlocks ?q \<le> ?k" "\<not> finished (pieces (tor w) ! unat i)" by blast
      then show ?thesis
      proof cases
        case 1
        with sz show ?thesis by (simp add: eval fail)
      next
        case 2
        with sz client_inv_cancel [OF assms(1), of ?q] i q(2) show ?thesis by (simp add: eval)
      next
        case notfin: 3
        obtain r where r: "r \<noteq> []" "assemble (blocks ?q1) = Inr r"
          using assemble_put_block [OF qok dn, of ?k] notfin(1) d(2) by auto
        have sel: "holds ?F (client_inv env) (selectPieceAndRequest pid v)" if "client_inv env v" for v
          by (rule holds_faults [OF selectPieceAndRequest_safe [OF that]]) simp
        have stored: "holds ?F (\<lambda>w2. client_inv env (upd_queue (remove_at k) pid w2))
            (handlePieceCompleted env pid i r (upd_queue (\<lambda>qs. qs[k := ?q1]) pid w))"
          by (rule complete_safe [OF assms(1) i notfin(2) r(1)])
        have have_more: "client_inv env (upd_queue (\<lambda>qs. qs[k := ?q1]) pid w)" if "haveBlocks ?q1 \<noteq> totalBlocks ?q1"
          using that put_block_ok [OF qok dn, of ?k] d(2) by (intro client_inv_put [OF assms(1)]) (simp add: put_block_def)
        have "holds ?F (\<lambda>w2. holds ?F (flow_holds (client_inv env))
            (if completedPieces (tor w2) \<noteq> getTotalPieces (tor w2)
             then bind_res (selectPieceAndRequest pid (upd_queue (remove_at k) pid w2)) (\<lambda>w4. Inr (Break w4))
             else Inr (Break (upd_queue (remove_at k) pid w2))))
            (handlePieceCompleted env pid i r (upd_queue (\<lambda>qs. qs[k := ?q1]) pid w))"
          using stored by (rule holds_mono) (simp add: sel)
        then show ?thesis
          using sz notfin have_more r(2) by (simp add: eval)
      qed
    qed
  qed
qed

section \<open>handleMessage\<close>

text \<open>The faults a message may end in: a failing write to the disk, and the unchecked index of a request.\<close>

definition message_faults :: "u8 \<Rightarrow> fault set" where
  "message_faults mid =
     (if mid = 6 then {OutOfBounds} else if mid = 7 then {Uncaught ''fwrite failed''} else {})"

lemma message_case_safe:
  assumes "client_inv env w" "msg_ok m"
  shows "holds (message_faults mid) (flow_holds (client_inv env)) (message_case env pid mid m w)"
  unfolding message_case_def message_faults_def
  using on_choke_safe on_unchoke_safe on_interested_safe on_not_interested_safe on_have_safe on_bitfield_safe
    on_cancel_safe on_request_safe on_piece_block_safe assms by simp

lemma handleMessage_keeps_inv:
  assumes "client_inv env w" "msg_ok m"
  shows "holds (message_faults mid) (client_inv env) (handleMessage env pid mid m w)"
  unfolding handleMessage_def holds_bind
  by (rule holds_mono [OF message_case_safe [OF assms]])
    (auto simp: quiet_simps flow_holds_def split: flow.splits)

end
