(* ===== verification/Handler_Frame.thy ===== *)
theory Handler_Frame
  imports Peer_Handler
begin

text \<open>
  What a handler of a peer does to the connections and what it may write to them.  The locale
  \<open>message_frame\<close> lists the primitive effects the handlers of messages are made of, \<open>peer_frame\<close> adds the
  answer to a handshake; a property of the world that these keep is kept by every read callback.  The
  interpretations give the discipline of the reads, the isolation of the peers from each other, the active
  peers and the progress of the torrent.
\<close>

text \<open>What is read from the torrent file and used by the handlers later, beside the hashes.\<close>

definition fixed :: "torrent \<Rightarrow> u64 \<times> u64 \<times> u64 \<times> string \<times> buffer \<times> buffer" where
  "fixed t = (pieceLength t, totalSize t, fbegin (tfile t), mainTrackerUrl t, handshake t, ownPeerId t)"

text \<open>How the torrent may develop, and what a handler of the peer \<open>pid\<close> may do to it: it leaves the acceptor alone.\<close>

definition tor_grows :: "nat \<Rightarrow> torrent \<Rightarrow> torrent \<Rightarrow> bool" where
  "tor_grows pid t t' \<longleftrightarrow>
     set (activePeers t') \<subseteq> insert pid (set (activePeers t)) \<and> map hash (pieces t') = map hash (pieces t) \<and>
     (\<forall>i < length (pieces t). finished (pieces t ! i) \<longrightarrow> finished (pieces t' ! i)) \<and> fixed t' = fixed t \<and>
     (bitfield t = map finished (pieces t) \<longrightarrow> bitfield t' = map finished (pieces t'))"

definition tor_step :: "nat \<Rightarrow> torrent \<Rightarrow> torrent \<Rightarrow> bool" where
  "tor_step pid t t' \<longleftrightarrow> tor_grows pid t t' \<and> acceptor t' = acceptor t"

lemma tor_step_same: "activePeers t' = activePeers t \<Longrightarrow> pieces t' = pieces t \<Longrightarrow> bitfield t' = bitfield t \<Longrightarrow>
     fixed t' = fixed t \<Longrightarrow> acceptor t' = acceptor t \<Longrightarrow> tor_step pid t t'"
  by (auto simp: tor_step_def tor_grows_def)

lemma tor_grows_peers:
  "set (activePeers t') \<subseteq> insert pid (set (activePeers t)) \<Longrightarrow> pieces t' = pieces t \<Longrightarrow>
     bitfield t' = bitfield t \<Longrightarrow> fixed t' = fixed t \<Longrightarrow> tor_grows pid t t'"
  by (simp add: tor_grows_def)

lemma tor_step_peers:
  "set (activePeers t') \<subseteq> insert pid (set (activePeers t)) \<Longrightarrow> pieces t' = pieces t \<Longrightarrow>
     bitfield t' = bitfield t \<Longrightarrow> fixed t' = fixed t \<Longrightarrow> acceptor t' = acceptor t \<Longrightarrow> tor_step pid t t'"
  by (simp add: tor_step_def tor_grows_peers)

lemma tor_step_pieces:
  assumes "activePeers t' = activePeers t" "pieces t' = (pieces t)[i := p]" "fixed t' = fixed t" "acceptor t' = acceptor t"
    and "bitfield t = map finished (pieces t) \<Longrightarrow> bitfield t' = map finished (pieces t')"
    and "i < length (pieces t) \<Longrightarrow> hash p = hash (pieces t ! i) \<and> (finished (pieces t ! i) \<longrightarrow> finished p)"
  shows "tor_step pid t t'"
proof (cases "i < length (pieces t)")
  case True
  then have "map hash ((pieces t)[i := p]) = map hash (pieces t)"
    using assms(6) by (simp add: map_update list_update_same_conv)
  with True show ?thesis
    using assms by (auto simp: tor_step_def tor_grows_def nth_list_update)
next
  case False
  with assms show ?thesis by (auto simp: tor_step_def tor_grows_def list_update_beyond)
qed

text \<open>
  What a handler of the peer \<open>pid\<close> may write: requests and cancellations for blocks of the pieces it has
  queued, blocks and announcements of finished pieces, the bit field as it is, and \<open>UNCHOKE\<close> and
  \<open>INTERESTED\<close>, but never \<open>CHOKE\<close> or \<open>NOT INTERESTED\<close>.
\<close>

definition block_of :: "torrent \<Rightarrow> nat \<Rightarrow> u32 \<Rightarrow> u32 \<Rightarrow> bool" where
  "block_of t k begin len \<longleftrightarrow>
     (\<exists>s x y. pieceSize t k = Inr s \<and> begin = ucast (x :: u64) \<and> len = ucast (y :: u64) \<and>
        unat y \<le> 16384 \<and> unat x + unat y \<le> unat s \<and> (s \<noteq> 0 \<longrightarrow> y \<noteq> 0))"

definition queued :: "nat \<Rightarrow> world \<Rightarrow> nat set" where
  "queued pid w = index ` set (pieceQueue (peers w pid))"

fun may_send :: "nat \<Rightarrow> world \<Rightarrow> message \<Rightarrow> bool" where
  "may_send pid w Choke = False"
| "may_send pid w NotInterested = False"
| "may_send pid w (Have i) = (unat i < length (pieces (tor w)) \<and> finished (pieces (tor w) ! unat i))"
| "may_send pid w (Bitfield b) = (b = getRawBitfield (tor w))"
| "may_send pid w (Request i b l) = (\<exists>k \<in> queued pid w. i = of_nat k \<and> block_of (tor w) k b l)"
| "may_send pid w (Cancel i b l) = (\<exists>k \<in> queued pid w. i = of_nat k \<and> block_of (tor w) k b l)"
| "may_send pid w (PieceBlock i b d) =
     (unat i < length (pieces (tor w)) \<and> finished (pieces (tor w) ! unat i) \<and> length d \<le> 16384)"
| "may_send pid w _ = True"

text \<open>To whom: to the peer itself, and an announcement to any peer the client does not choke.\<close>

definition may_write :: "nat \<Rightarrow> nat \<Rightarrow> world \<Rightarrow> message \<Rightarrow> bool" where
  "may_write pid q w m \<longleftrightarrow> may_send pid w m \<and> (q = pid \<or> (\<exists>i. m = Have i) \<and> \<not> flag w q AM_CHOKING)"

lemma may_write_self [simp]: "may_write pid pid w m \<longleftrightarrow> may_send pid w m"
  by (simp add: may_write_def)

lemma encode_unchoke: "[0, 0, 0, 1, 1] = encode_msg Unchoke"
  by (simp add: encode_msg_def writeAsBE32_def)

text \<open>The loops over the blocks of a piece stay inside it.\<close>

lemma block_of_step:
  assumes "pieceSize t k = Inr s" "unat (b :: u64) + unat l = unat s" "16384 < (l :: u64)"
  shows "block_of t k (ucast b) 16384" "unat (b + 16384) + unat (l - 16384) = unat s" "l - 16384 \<noteq> 0"
proof -
  have l: "16384 < unat l"
    using assms(3) by (simp add: word_less_nat_alt)
  moreover have "unat s < 18446744073709551616"
    by (rule unat_u64_less)
  ultimately have "unat (b + 16384) = unat b + 16384" "unat (l - 16384) = unat l - 16384"
    using assms(2) by (simp_all add: unat_word_ariths unat_sub_if')
  then show "unat (b + 16384) + unat (l - 16384) = unat s" "l - 16384 \<noteq> 0"
    using assms(2) l by auto
  show "block_of t k (ucast b) 16384"
    unfolding block_of_def using assms(1, 2) l
    by (intro exI [of _ s] exI [of _ b] exI [of _ "16384 :: u64"]) simp
qed

lemma block_of_last:
  assumes "pieceSize t k = Inr s" "unat (b :: u64) + unat l = unat s" "\<not> 16384 < (l :: u64)" "s \<noteq> 0 \<longrightarrow> l \<noteq> 0"
  shows "block_of t k (ucast b) (ucast l)"
  unfolding block_of_def using assms
  by (intro exI [of _ s] exI [of _ b] exI [of _ l]) (simp add: word_less_nat_alt)

lemma may_request:
  assumes "k \<in> queued pid w" "block_of (tor w) k b l"
  shows "may_send pid w (Request (of_nat k) b l)" "may_send pid w (Cancel (of_nat k) b l)"
  using assms by auto

lemma queued_write [simp]: "queued p (conn_write b q w) = queued p w"
  by (simp add: queued_def)

lemma queued_request_loop: "holds UNIV (\<lambda>v. queued p v = queued p w) (request_loop i b l pid w)"
proof (induction i b l pid w rule: request_loop.induct)
  case (1 i b l q w)
  show ?case
    using "1.IH" [OF _ sendRequest_encode] by (subst request_loop.simps) (simp add: sendRequest_encode)
qed

lemma queued_requestPiece: "holds UNIV (\<lambda>v. queued p v = queued p w) (requestPiece i pid w)"
proof -
  have "holds UNIV (\<lambda>s. holds UNIV (\<lambda>v. queued p v = queued p w) (request_loop (of_nat i) 0 s pid w)) (pieceSize (tor w) i)"
    by (cases "pieceSize (tor w) i") (simp_all add: queued_request_loop)
  then show ?thesis
    by (simp add: requestPiece_def) (simp add: queued_def)
qed

lemma select_scan_range:
  "select_scan has i ps idx prio = Fresh j \<Longrightarrow> j < i + length ps"
  "select_scan has i ps idx prio = Best j v \<Longrightarrow> j < i + length ps \<or> j = idx \<and> v = prio"
  by (induction has i ps idx prio rule: select_scan.induct) (auto split: if_splits)

lemma finished_set_priority [simp]: "map finished (ps[i := (ps ! i)\<lparr>priority := v\<rparr>]) = map finished ps"
  by (cases "i < length ps") (simp_all add: map_update list_update_same_conv list_update_beyond)

lemma holds_const: "(\<And>x. Q x) \<Longrightarrow> holds UNIV Q r"
  by (cases r) simp_all

text \<open>Only storing a piece changes the file: its data is written at the offset of the piece.\<close>

lemma fseek_contents: "fseek off s = Some s' \<Longrightarrow> contents s' = contents s \<and> fpos s' = unat off"
  by (auto simp: fseek_def split: if_splits)

lemma reading_contents [simp]:
  "contents (snd (fread n s)) = contents s"
  "contents r = contents s \<Longrightarrow> contents (case fseek off s of None \<Rightarrow> r | Some s' \<Rightarrow> s') = contents s"
  by (simp_all add: fread_def Let_def fseek_def)

lemma fwrite_contents: "fwrite env d s = (length d, s') \<Longrightarrow> contents s' = write_at (fpos s) d (contents s)"
  by (auto simp: fwrite_def Let_def)

lemma holds_UNIV: "(\<And>x. r = Inr x \<Longrightarrow> Q x) \<Longrightarrow> holds UNIV Q r"
  by (cases r) simp_all

locale message_frame =
  fixes P :: "world \<Rightarrow> bool" and pid :: nat
  assumes P_write: "P w \<Longrightarrow> may_write pid q w m \<Longrightarrow> P (conn_write (encode_msg m) q w)"
    and P_close: "P w \<Longrightarrow> P (conn_close pid w)"
    and P_errcb: "P w \<Longrightarrow> P (setErrorCallback False pid w)"
    and P_read_prefix: "P w \<Longrightarrow> P (conn_read 4 Handle pid w)"
    and P_read_body: "P w \<Longrightarrow> n \<noteq> 0 \<Longrightarrow> P (conn_read n Handle_body pid w)"
    and P_tor: "P w \<Longrightarrow> tor_step pid (tor w) (f (tor w)) \<Longrightarrow> P (upd_tor f w)"
    and P_disk: "P w \<Longrightarrow> contents s = contents (disk w) \<Longrightarrow> P (w\<lparr>disk := s\<rparr>)"
    and P_store: "P w \<Longrightarrow> i < length (pieces (tor w)) \<Longrightarrow>
      contents s = write_at (unat (of_nat i * pieceLength (tor w) - fbegin (tfile (tor w)))) d (contents (disk w)) \<Longrightarrow>
      P (w\<lparr>disk := s, accepted := accepted w @ [(i, d)]\<rparr>)"
    and P_errlog: "P w \<Longrightarrow> P (w\<lparr>errlog := l\<rparr>)"
    and P_peer: "P w \<Longrightarrow> (\<And>p. conn (g p) = conn p) \<Longrightarrow>
      index ` set (pieceQueue (g (peers w pid))) \<subseteq> queued pid w \<Longrightarrow> P (upd_peer pid g w)"
    and P_enqueue: "P w \<Longrightarrow> k < length (pieces (tor w)) \<Longrightarrow> index x = unat (of_nat k :: u32) \<Longrightarrow>
      P (upd_peer pid (\<lambda>p. p\<lparr>pieceQueue := pieceQueue p @ [x]\<rparr>) w)"
begin

lemma P_flag [simp]: "P w \<Longrightarrow> P (upd_peer pid (set_flag s b) w)"
  by (rule P_peer) (simp_all add: queued_def)

lemma P_queue: "P w \<Longrightarrow> index ` set (f (pieceQueue (peers w pid))) \<subseteq> queued pid w \<Longrightarrow> P (upd_queue f pid w)"
  unfolding upd_queue_def by (rule P_peer) simp_all

lemma P_remove [simp]: "P w \<Longrightarrow> P (upd_queue (remove_at k) pid w)"
  by (rule P_queue) (auto simp: queued_def dest: subsetD [OF set_remove_at_subset])

lemma P_disconnect [simp]: "P w \<Longrightarrow> P (peer_disconnect pid w)"
  by (simp add: peer_disconnect_def P_errcb P_close)

lemma P_tor_same:
  "P w \<Longrightarrow> (\<And>t. activePeers (f t) = activePeers t) \<Longrightarrow> (\<And>t. pieces (f t) = pieces t) \<Longrightarrow>
     (\<And>t. bitfield (f t) = bitfield t) \<Longrightarrow> (\<And>t. fixed (f t) = fixed t) \<Longrightarrow>
     (\<And>t. acceptor (f t) = acceptor t) \<Longrightarrow> P (upd_tor f w)"
  by (rule P_tor) (auto intro: tor_step_same)

lemma P_set_priority [simp]: "P w \<Longrightarrow> P (upd_tor (\<lambda>t. set_priority i (v t) t) w)"
  by (rule P_tor) (simp_all add: set_priority_def fixed_def tor_step_pieces [where i = i] finished_set_priority)

lemmas P_set_priority_const [simp] = P_set_priority [where v = "\<lambda>_. v" for v]

lemma P_handleError [simp]: "P w \<Longrightarrow> P (peer_handleError e pid w)"
  unfolding peer_handleError_def removePeer_def
  by (intro P_disconnect P_tor P_errlog tor_step_peers) (auto simp: fixed_def dest: subsetD [OF set_erase_first_subset])

lemma P_handshaked [simp]: "P w \<Longrightarrow> P (handshaked pid w)"
  unfolding handshaked_def by (intro P_tor tor_step_peers) (auto simp: addPeer_def fixed_def)

lemma P_sendHave: "P w \<Longrightarrow> may_send pid w (Have i) \<Longrightarrow> holds UNIV P (sendHave i q w)"
  using P_write [of w q "Have i"] by (simp add: sendHave_encode may_write_def)

lemma P_sendBitfield: "P w \<Longrightarrow> holds UNIV P (sendBitfield (getRawBitfield (tor w)) pid w)"
  by (simp add: sendBitfield_encode P_write)

lemma P_sendPieceBlock:
  "P w \<Longrightarrow> length d = unat len \<Longrightarrow> may_send pid w (PieceBlock i b d) \<Longrightarrow> holds UNIV P (sendPieceBlock i b d len pid w)"
  by (simp add: sendPieceBlock_encode P_write)

lemma P_sendInterested [simp]: "P w \<Longrightarrow> P (sendInterested pid w)"
  by (simp add: sendInterested_encode P_write)

lemma P_request_loop:
  assumes "P w" "q = pid" "i = of_nat k" "k \<in> queued pid w" "pieceSize (tor w) k = Inr s"
    and "unat b + unat l = unat s" "s \<noteq> 0 \<longrightarrow> l \<noteq> 0"
  shows "holds UNIV P (request_loop i b l q w)"
  using assms
proof (induction i b l q w rule: request_loop.induct)
  case (1 i b l q w)
  note w = "1.prems"
  show ?case
  proof (cases "16384 < l")
    case True
    note n = block_of_step [OF w(5, 6) True]
    have "P (conn_write (encode_msg (Request i (ucast b) 16384)) q w)"
      using P_write [OF w(1), of pid "Request i (ucast b) 16384"] may_request [OF w(4) n(1)] w(2, 3) by simp
    with "1.IH" [OF True sendRequest_encode _ w(2, 3) _ _ n(2)] n(3) True show ?thesis
      by (subst request_loop.simps) (simp add: sendRequest_encode w(4, 5))
  next
    case False
    then show ?thesis
      using P_write [OF w(1), of pid "Request i (ucast b) (ucast l)"] may_request [OF w(4) block_of_last [OF w(5, 6) False w(7)]] w(2, 3)
      by (subst request_loop.simps) (simp add: sendRequest_encode)
  qed
qed

lemma P_cancel_loop:
  assumes "P w" "q = pid" "i = of_nat k" "k \<in> queued pid w" "pieceSize (tor w) k = Inr s"
    and "unat b + unat l = unat s" "s \<noteq> 0 \<longrightarrow> l \<noteq> 0"
  shows "holds UNIV P (cancel_loop i b l q w)"
  using assms
proof (induction i b l q w rule: cancel_loop.induct)
  case (1 i b l q w)
  note w = "1.prems"
  show ?case
  proof (cases "16384 < l")
    case True
    note n = block_of_step [OF w(5, 6) True]
    have "P (conn_write (encode_msg (Cancel i (ucast b) 16384)) q w)"
      using P_write [OF w(1), of pid "Cancel i (ucast b) 16384"] may_request [OF w(4) n(1)] w(2, 3) by simp
    with "1.IH" [OF True sendCancel_encode _ w(2, 3) _ _ n(2)] n(3) True show ?thesis
      by (subst cancel_loop.simps) (simp add: sendCancel_encode w(4, 5))
  next
    case False
    then show ?thesis
      using P_write [OF w(1), of pid "Cancel i (ucast b) (ucast l)"] may_request [OF w(4) block_of_last [OF w(5, 6) False w(7)]] w(2, 3)
      by (subst cancel_loop.simps) (simp add: sendCancel_encode)
  qed
qed

lemma P_requestPiece:
  assumes "P w" "k \<in> queued pid w"
  shows "holds UNIV P (requestPiece k pid w)"
proof -
  have "holds UNIV (\<lambda>s. holds UNIV P (request_loop (of_nat k) 0 s pid w)) (pieceSize (tor w) k)"
    by (rule holds_UNIV) (rule P_request_loop [OF assms(1) refl refl assms(2)], assumption, simp_all)
  then show ?thesis
    using assms(1) by (simp add: requestPiece_def)
qed

lemma P_request_all:
  assumes "P w" "index ` set qs \<subseteq> queued pid w"
  shows "holds UNIV P (request_all qs pid w)"
  using assms
proof (induction qs arbitrary: w)
  case (Cons q qs)
  have "holds UNIV (\<lambda>v. P v \<and> queued pid v = queued pid w) (requestPiece (index q) pid w)"
    using P_requestPiece [OF Cons.prems(1), of "index q"] queued_requestPiece [of pid w "index q" pid] Cons.prems(2)
    by (cases "requestPiece (index q) pid w") simp_all
  then show ?case
    using Cons.IH Cons.prems(2) by (auto elim: holds_mono)
qed simp

lemma P_sendCancelRequest:
  assumes "P w" "index q \<in> queued pid w"
  shows "holds UNIV P (sendCancelRequest q pid w)"
proof -
  have "holds UNIV (\<lambda>s. holds UNIV P (cancel_loop (of_nat (index q)) 0 s pid w)) (pieceSize (tor w) (index q))"
    by (rule holds_UNIV) (rule P_cancel_loop [OF assms(1) refl refl assms(2)], assumption, simp_all)
  then show ?thesis
    by (simp add: sendCancelRequest_def)
qed

lemma P_sendPieceRequest:
  assumes "P w" "k < length (pieces (tor w))"
  shows "holds UNIV P (sendPieceRequest (of_nat k) pid w)"
proof -
  let ?w = "\<lambda>n. upd_peer pid (\<lambda>p. p\<lparr>pieceQueue := pieceQueue p @ [new_qpiece (of_nat k) n]\<rparr>) (sendInterested pid w)"
  have "tor (sendInterested pid w) = tor w"
    by (simp add: sendInterested_def)
  then have "P (?w n)" for n
    using assms by (intro P_enqueue [of _ k]) (simp_all add: new_qpiece_def)
  moreover have "unat (of_nat k :: u32) \<in> queued pid (?w n)" for n
    by (simp add: queued_def new_qpiece_def)
  ultimately have "holds UNIV P (requestPiece (unat (of_nat k :: u32)) pid (?w n)) \<and> P (?w n)" for n
    by (blast intro: P_requestPiece)
  then show ?thesis
    by (simp add: sendPieceRequest_def Let_def holds_UNIV)
qed

lemma P_select [simp]: "P w \<Longrightarrow> holds UNIV P (selectPieceAndRequest pid w)"
  using select_scan_range [of "hasPieceIndexes (peers w pid)" 0 "pieces (tor w)" 0 INT32_MAX]
  by (auto simp: selectPieceAndRequest_def set_priority_def [of _ _ "tor w"] split: choice.splits intro!: P_sendPieceRequest)

lemma P_sendHave_loop:
  assumes "P w" "may_send pid w (Have i)"
  shows "holds UNIV P (sendHave_loop i ps w)"
  using assms
proof (induction ps arbitrary: w)
  case (Cons p ps)
  have "holds UNIV (\<lambda>v. P v \<and> tor v = tor w) (sendHave i p w)"
    using P_sendHave [OF Cons.prems, of p] by (simp add: sendHave_encode)
  with Cons show ?case
    by (auto elim: holds_mono)
qed simp

lemma P_completed [simp]: "P w \<Longrightarrow> holds UNIV P (handlePieceCompleted env pid i d w)"
proof -
  assume P: "P w"
  let ?f = "\<lambda>t. t\<lparr>bitfield := (bitfield t)[unat i := True], pieces := (pieces t)[unat i := (pieces t ! unat i)\<lparr>finished := True\<rparr>],
      downloadedBytes := downloadedBytes t + of_nat (length d), completedPieces := completedPieces t + 1\<rparr>"
  have "holds UNIV P (sendHave_loop i ps (upd_tor ?f (w\<lparr>disk := s', accepted := accepted w @ [(unat i, d)]\<rparr>)))"
    if "unat i < length (pieces (tor w))" "fseek (ucast i * pieceLength (tor w) - fbegin (tfile (tor w))) (disk w) = Some s"
      "fwrite env d s = (length d, s')" for ps s s'
  proof -
    have "(of_nat (unat i) :: u64) = ucast i"
      by (simp only: of_nat_unat ucast_id)
    then have "P (w\<lparr>disk := s', accepted := accepted w @ [(unat i, d)]\<rparr>)"
      using P_store [OF P that(1), of s' d] fseek_contents [OF that(2)] fwrite_contents [OF that(3)] by simp
    then have "P (upd_tor ?f (w\<lparr>disk := s', accepted := accepted w @ [(unat i, d)]\<rparr>))"
      by (rule P_tor) (rule tor_step_pieces [where i = "unat i"], (simp add: fixed_def map_update)+)
    then show ?thesis
      by (rule P_sendHave_loop) (simp add: that(1))
  qed
  then show ?thesis
    using P by (auto simp: handlePieceCompleted_def P_tor_same fixed_def Let_def checkPieceHash_def
        split: option.splits prod.splits)
qed

lemma length_read_block [simp]: "length (fst (fread n s) @ map f [length (fst (fread n s))..<n]) = n"
  by (simp add: fread_def slice_def)

lemma P_blockRequest:
  assumes P: "P w" and fin: "unat i < length (pieces (tor w))" "finished (pieces (tor w) ! unat i)" and len: "unat len \<le> 16384"
  shows "holds UNIV P (handleBlockRequest env pid i b len w)"
proof -
  have s: "holds UNIV (\<lambda>v. P (upd_tor (\<lambda>t. t\<lparr>uploadedBytes := u t\<rparr>) v)) (sendPieceBlock i b d len pid v)"
    if "P v" "length d = unat len" "pieces (tor v) = pieces (tor w)" for u d v
    using P_sendPieceBlock [OF that(1, 2), of i b] that(2, 3) fin len by (auto simp: P_tor_same fixed_def elim!: holds_mono)
  show ?thesis
    unfolding handleBlockRequest_def Let_def split_beta
    using P by (auto simp del: length_append simp: P_tor_same fixed_def P_disk s intro!: holds_UNIV)
qed

text \<open>The cases of \<open>handleMessage\<close>.\<close>

definition flow_P :: "flow \<Rightarrow> bool" where
  "flow_P r = (case r of Return w \<Rightarrow> P w | Break w \<Rightarrow> P w)"

lemma flow_P_simps [simp]: "flow_P (Return w) = P w" "flow_P (Break w) = P w"
  by (simp_all add: flow_P_def)

lemma P_fail [simp]: "P w \<Longrightarrow> holds UNIV flow_P (fail_with e pid w)"
  by (simp add: fail_with_def)

lemma P_cases [simp]:
  assumes "P w"
  shows "holds UNIV flow_P (on_choke pid m w)" "holds UNIV flow_P (on_unchoke pid m w)"
    "holds UNIV flow_P (on_interested pid m w)" "holds UNIV flow_P (on_not_interested pid m w)"
    "holds UNIV flow_P (on_have pid m w)" "holds UNIV flow_P (on_bitfield pid m w)"
    "holds UNIV flow_P (on_request env pid m w)" "holds UNIV flow_P (on_cancel pid m w)"
proof -
  have has: "P (upd_peer pid (\<lambda>r. r\<lparr>hasPieceIndexes := f r\<rparr>) w)" for f
    by (rule P_peer [OF assms]) (simp_all add: queued_def)
  show "holds UNIV flow_P (on_choke pid m w)" "holds UNIV flow_P (on_not_interested pid m w)"
    "holds UNIV flow_P (on_cancel pid m w)"
    using assms by (simp_all add: on_choke_def on_not_interested_def on_cancel_def holds_const)
  show "holds UNIV flow_P (on_interested pid m w)"
    using assms by (simp add: on_interested_def Let_def encode_unchoke P_write)
  show "holds UNIV flow_P (on_unchoke pid m w)"
    using assms by (simp add: on_unchoke_def Let_def P_request_all queued_def)
  show "holds UNIV flow_P (on_have pid m w)" "holds UNIV flow_P (on_bitfield pid m w)"
    using assms has by (simp_all add: on_have_def on_bitfield_def Let_def holds_const split_beta)
  show "holds UNIV flow_P (on_request env pid m w)"
    using assms by (auto simp: on_request_def pieceDone_def peek_Some_iff of_peek_def word_le_nat_alt not_less word_less_nat_alt
        split: option.splits if_splits intro!: holds_UNIV dest!: holds_Inr [OF P_blockRequest, rotated 4])
qed

lemma P_piece_block [simp]:
  assumes "P w"
  shows "holds UNIV flow_P (on_piece_block env pid m w)"
proof -
  let ?qs = "pieceQueue (peers w pid)"
  have q: "index (?qs ! k) \<in> queued pid w" if "find_pos Q ?qs = Some k" for Q k
    using find_pos_Some [OF that] by (simp add: queued_def)
  have cancel: "holds UNIV (\<lambda>v. P (upd_queue (remove_at k) pid v)) (sendCancelRequest x pid w)"
    if "index x \<in> queued pid w" for x k
    using P_sendCancelRequest [OF assms that] by (rule holds_mono) simp
  have put: "P (upd_queue (\<lambda>qs. qs[k := put_block b n d (?qs ! k)]) pid w)" if "index (?qs ! k) \<in> queued pid w" for k b n d
    using assms that set_update_subset_insert [of ?qs k "put_block b n d (?qs ! k)"]
    by (intro P_queue) (auto simp: queued_def put_block_def)
  have complete: "holds UNIV (\<lambda>v. holds UNIV flow_P
      (if completedPieces (tor v) \<noteq> getTotalPieces (tor v)
       then bind_res (selectPieceAndRequest pid (upd_queue (remove_at k) pid v)) (\<lambda>w4. Inr (Break w4))
       else Inr (Break (upd_queue (remove_at k) pid v))))
     (handlePieceCompleted env pid i d v)" if "P v" for k i d v
    using P_completed [OF that] by (rule holds_mono) simp
  show ?thesis
    using assms q cancel complete put
    by (simp add: on_piece_block_def Let_def holds_const split_beta split: option.splits)
qed

lemma P_handleMessage: "P w \<Longrightarrow> holds UNIV P (handleMessage env pid mid m w)"
proof -
  assume "P w"
  then have "holds UNIV flow_P (message_case env pid mid m w)"
    by (simp add: message_case_def)
  then show ?thesis
    unfolding handleMessage_def holds_bind
    by (rule holds_mono) (auto simp: flow_P_def P_read_prefix split: flow.splits)
qed

lemma P_set_peerId [simp]: "P w \<Longrightarrow> P (set_peerId x pid w)"
  unfolding set_peerId_def by (rule P_peer) (simp_all add: queued_def)

text \<open>All read callbacks but the one that answers a handshake.\<close>

lemma P_on_connect_handshake [simp]: "P w \<Longrightarrow> P (on_connect_handshake pid data sz w)"
  by (simp add: on_connect_handshake_def P_read_prefix)

lemma P_peer_handle [simp]: "P w \<Longrightarrow> holds UNIV P (peer_handle pid data sz w)"
proof -
  assume P: "P w"
  have "P (if len = 0 then conn_read 4 Handle pid w else conn_read (ucast len) Handle_body pid w)" for len :: u32
    using P P_read_prefix P_read_body [OF P, of "ucast len"] by (simp add: unat_eq_zero [symmetric])
  then show ?thesis
    using P by (simp add: peer_handle_def holds_const)
qed

lemma P_on_body [simp]: "P w \<Longrightarrow> holds UNIV P (on_body env pid data sz w)"
  using P_handleMessage by (simp add: on_body_def holds_const)

end

text \<open>With the answer to a handshake.\<close>

locale peer_frame = message_frame +
  assumes P_greet: "P w \<Longrightarrow> P (conn_write (handshake (tor w)) pid w)"
begin

lemma P_run_read_cb: "P w \<Longrightarrow> holds UNIV P (run_read_cb env cb pid data sz w)"
proof -
  assume P: "P w"
  have "holds UNIV P (on_authenticate_handshake pid data sz w)"
  proof -
    have "holds UNIV (\<lambda>v. P (conn_read 4 Handle pid v)) (sendBitfield (getRawBitfield (tor v)) pid v)" if "P v" for v
      using P_sendBitfield [OF that] by (rule holds_mono) (rule P_read_prefix)
    moreover have "tor (set_peerId x pid w) = tor w" for x
      by (simp add: set_peerId_def)
    then have "P (conn_write (handshake (tor w)) pid (set_peerId x pid w))" for x
      using P_greet [OF P_set_peerId [OF P], of x] by simp
    ultimately show ?thesis
      using P by (simp add: on_authenticate_handshake_def Let_def)
  qed
  then show ?thesis
    using P by (simp add: run_read_cb_def split: read_cb.splits)
qed

end

section \<open>The discipline of the reads\<close>

text \<open>
  A pending read belongs to an open socket and asks for what its callback expects: four bytes of a
  length prefix, a body that is not empty, or the 68 bytes of a handshake.
\<close>

definition reading_ok :: "connection \<Rightarrow> bool" where
  "reading_ok c \<longleftrightarrow>
     (case reading c of
        None \<Rightarrow> True
      | Some n \<Rightarrow> socket_open c \<and>
          (case readCB c of
             None \<Rightarrow> False
           | Some Handle \<Rightarrow> n = 4
           | Some Handle_body \<Rightarrow> n \<noteq> 0
           | Some _ \<Rightarrow> n = 68))"

text \<open>Every connection reads like that, and \<open>S\<close> are the unread bytes of the connections.\<close>

definition net_ok :: "(nat \<Rightarrow> buffer) \<Rightarrow> world \<Rightarrow> bool" where
  "net_ok S w \<longleftrightarrow> (\<forall>q. reading_ok (conn_of w q) \<and> inputStream (conn_of w q) = S q)"

lemma reading_ok_simps [simp]:
  "reading_ok (c\<lparr>sent := x\<rparr>) = reading_ok c" "reading_ok (c\<lparr>errorCB := y\<rparr>) = reading_ok c"
  "reading c = None \<Longrightarrow> reading_ok c"
  by (simp_all add: reading_ok_def split: option.splits)

lemma net_ok_conn:
  assumes "net_ok S w" "reading_ok (conn_of w q) \<Longrightarrow> reading_ok (f (conn_of w q))"
    and "inputStream (f (conn_of w q)) = inputStream (conn_of w q)"
  shows "net_ok S (upd_conn q f w)"
  using assms by (simp add: net_ok_def)

lemma net_ok_write: "net_ok S w \<Longrightarrow> net_ok S (conn_write b q w)"
  by (simp add: conn_write_def net_ok_conn)

lemma net_ok_close: "net_ok S w \<Longrightarrow> net_ok S (conn_close q w)"
  by (simp add: conn_close_def net_ok_conn)

lemma net_ok_errcb: "net_ok S w \<Longrightarrow> net_ok S (setErrorCallback b q w)"
  by (simp add: setErrorCallback_def net_ok_conn)

lemma net_ok_read:
  assumes "net_ok S w" "\<And>c. socket_open c \<Longrightarrow> reading_ok (c\<lparr>readCB := Some cb, reading := Some n\<rparr>)"
  shows "net_ok S (conn_read n cb q w)"
  using assms by (simp add: conn_read_def isConnected_def net_ok_conn)

lemma net_ok_read_prefix: "net_ok S w \<Longrightarrow> net_ok S (conn_read 4 Handle q w)"
  by (rule net_ok_read) (simp_all add: reading_ok_def)

lemma net_ok_read_body: "net_ok S w \<Longrightarrow> n \<noteq> 0 \<Longrightarrow> net_ok S (conn_read n Handle_body q w)"
  by (rule net_ok_read) (simp_all add: reading_ok_def)

lemma net_ok_peer: "net_ok S w \<Longrightarrow> (\<And>p. conn (g p) = conn p) \<Longrightarrow> net_ok S (upd_peer q g w)"
  by (simp add: net_ok_def)

lemma net_ok_other:
  "net_ok S w \<Longrightarrow> net_ok S (upd_tor f w)" "net_ok S w \<Longrightarrow> net_ok S (w\<lparr>disk := s\<rparr>)"
  "net_ok S w \<Longrightarrow> net_ok S (w\<lparr>errlog := l\<rparr>)" "net_ok S w \<Longrightarrow> net_ok S (w\<lparr>accepted := a\<rparr>)"
  by (simp_all add: net_ok_def)

lemmas net_ok_intros = net_ok_write net_ok_close net_ok_errcb net_ok_read_prefix net_ok_read_body net_ok_peer
  net_ok_other

interpretation nf: peer_frame "net_ok S" pid for S pid
  by unfold_locales ((intro net_ok_intros; assumption) | (rule net_ok_peer, assumption, simp))+

section \<open>The isolation of the peers\<close>

text \<open>
  From \<open>w0\<close> to \<open>w\<close>, seen from the handlers of \<open>pid\<close>: another peer keeps everything but its output,
  outputs only grow, and no socket is opened.
\<close>

definition peer_hush :: "peer \<Rightarrow> peer" where
  "peer_hush p = p\<lparr>conn := (conn p)\<lparr>sent := []\<rparr>\<rparr>"

definition isolated :: "nat \<Rightarrow> world \<Rightarrow> world \<Rightarrow> bool" where
  "isolated pid w0 w \<longleftrightarrow>
     (\<forall>q. (q \<noteq> pid \<longrightarrow> peer_hush (peers w q) = peer_hush (peers w0 q)) \<and>
          (\<exists>bs. sent (conn_of w q) = sent (conn_of w0 q) @ bs) \<and>
          (isConnected q w \<longrightarrow> isConnected q w0) \<and>
          (stage (conn_of w q) = Resolving \<longrightarrow> stage (conn_of w0 q) = Resolving) \<and>
          dialled (conn_of w q) = dialled (conn_of w0 q) \<and> remote (conn_of w q) = remote (conn_of w0 q)) \<and>
     nextPeer w = nextPeer w0"

lemma isolated_refl: "isolated pid w w"
  by (simp add: isolated_def)

lemma isolated_write: "isolated pid w0 w \<Longrightarrow> isolated pid w0 (conn_write b q w)"
  by (auto simp: isolated_def conn_write_def peer_hush_def isConnected_def)

lemma isolated_conn:
  assumes "isolated pid w0 w" "\<And>c. sent (f c) = sent c" "\<And>c. socket_open (f c) \<Longrightarrow> socket_open c"
    and "\<And>c. dialled (f c) = dialled c" "\<And>c. remote (f c) = remote c"
    and "\<And>c. stage (f c) = Resolving \<Longrightarrow> stage c = Resolving"
  shows "isolated pid w0 (upd_conn pid f w)"
  using assms by (auto simp: isolated_def isConnected_def)

lemma isolated_close: "isolated pid w0 w \<Longrightarrow> isolated pid w0 (conn_close pid w)"
  by (auto simp: conn_close_def intro: isolated_conn)

lemma isolated_errcb: "isolated pid w0 w \<Longrightarrow> isolated pid w0 (setErrorCallback b pid w)"
  by (auto simp: setErrorCallback_def intro: isolated_conn)

lemma isolated_read: "isolated pid w0 w \<Longrightarrow> isolated pid w0 (conn_read n cb pid w)"
  by (auto simp: conn_read_def intro: isolated_conn)

lemma isolated_peer: "isolated pid w0 w \<Longrightarrow> (\<And>p. conn (g p) = conn p) \<Longrightarrow> isolated pid w0 (upd_peer pid g w)"
  by (simp add: isolated_def isConnected_def)

lemma isolated_other:
  "isolated pid w0 w \<Longrightarrow> isolated pid w0 (upd_tor f w)" "isolated pid w0 w \<Longrightarrow> isolated pid w0 (w\<lparr>disk := s\<rparr>)"
  "isolated pid w0 w \<Longrightarrow> isolated pid w0 (w\<lparr>errlog := l\<rparr>)"
  "isolated pid w0 w \<Longrightarrow> isolated pid w0 (w\<lparr>accepted := a\<rparr>)"
  by (simp_all add: isolated_def isConnected_def)

lemmas isolated_intros = isolated_write isolated_close isolated_errcb isolated_read isolated_peer isolated_other

interpretation iso: peer_frame "isolated pid w0" pid for pid w0
  by unfold_locales ((intro isolated_intros; assumption) | (rule isolated_peer, assumption, simp))+

section \<open>The active peers exist\<close>

definition peers_known :: "world \<Rightarrow> bool" where
  "peers_known w \<longleftrightarrow> (\<forall>q \<in> set (activePeers (tor w)). q < nextPeer w)"

definition known_with :: "nat \<Rightarrow> world \<Rightarrow> bool" where
  "known_with pid w \<longleftrightarrow> peers_known w \<and> pid < nextPeer w"

lemma known_with_upd:
  "known_with pid w \<Longrightarrow> nextPeer w' = nextPeer w \<Longrightarrow>
     tor_step pid (tor w) (tor w') \<Longrightarrow> known_with pid w'"
  by (auto simp: known_with_def peers_known_def tor_step_def tor_grows_def)

interpretation kn: peer_frame "known_with pid" pid for pid
  by unfold_locales (erule known_with_upd; simp add: conn_read_def setErrorCallback_def tor_step_same)+

section \<open>Progress\<close>

text \<open>The finished pieces of \<open>t0\<close> stay finished, and what the torrent file says stays.\<close>

definition progressed :: "torrent \<Rightarrow> torrent \<Rightarrow> bool" where
  "progressed t0 t \<longleftrightarrow>
     map hash (pieces t) = map hash (pieces t0) \<and> fixed t = fixed t0 \<and>
     (\<forall>i < length (pieces t0). finished (pieces t0 ! i) \<longrightarrow> finished (pieces t ! i))"

lemma progressed_refl: "progressed t t"
  by (simp add: progressed_def)

lemma progressed_same: "pieces t' = pieces t \<Longrightarrow> fixed t' = fixed t \<Longrightarrow> progressed t0 t \<Longrightarrow> progressed t0 t'"
  by (simp add: progressed_def)

lemma progressed_step: "progressed t0 t \<Longrightarrow> tor_grows pid t t' \<Longrightarrow> progressed t0 t'"
  using map_eq_imp_length_eq [of hash "pieces t" hash "pieces t0"] by (auto simp: progressed_def tor_grows_def)

interpretation pr: peer_frame "\<lambda>w. progressed t0 (tor w)" pid for pid t0
  by unfold_locales (simp_all add: conn_read_def setErrorCallback_def tor_step_def, auto elim: progressed_step)

section \<open>The acceptor\<close>

interpretation ac: peer_frame "\<lambda>w. acceptor (tor w) = a" pid for pid a
  by unfold_locales (simp_all add: conn_read_def setErrorCallback_def tor_step_def)

end
