(* ===== verification/Peer_Protocol.thy ===== *)
theory Peer_Protocol
  imports Handler_Safety Handler_Frame
begin

text \<open>
  The functional behaviour of the protocol of a peer: the framing of the messages, the decision of
  the handshakes, and what a request or a block makes the client do.
\<close>

section \<open>Framing\<close>

text \<open>
  A message arrives as two reads, of its length prefix and of its body, as the discipline of the
  reads makes the client ask for them.
\<close>

definition deliver :: "env \<Rightarrow> nat \<Rightarrow> message \<Rightarrow> world \<Rightarrow> world res" where
  "deliver env pid m w =
     bind_res (on_read env pid (take 4 (encode_msg m)) w) (on_read env pid (drop 4 (encode_msg m)))"

text \<open>A connection that waits for a length prefix.\<close>

definition awaits_prefix :: "connection \<Rightarrow> bool" where
  "awaits_prefix c \<longleftrightarrow> socket_open c \<and> readCB c = Some Handle \<and> reading c = Some 4 \<and> inputStream c = []"

lemma take_drop_encode:
  "take 4 (encode_msg m) = writeAsBE32 (of_nat (Suc (length (payload m))))"
  "drop 4 (encode_msg m) = message_id m # payload m"
  by (simp_all add: encode_msg_def be32.length_enc)

lemma upd_conn_upd_conn: "upd_conn pid f (upd_conn pid g w) = upd_conn pid (\<lambda>c. f (g c)) w"
  by (simp add: upd_conn_def upd_peer_def)

lemma upd_conn_cong: "f (conn_of w pid) = g (conn_of w pid) \<Longrightarrow> upd_conn pid f w = upd_conn pid g w"
  by (simp add: upd_conn_def upd_peer_def)

text \<open>The world in which the handler of a body runs, and what is left to do afterwards.\<close>

definition body_arrived :: "nat \<Rightarrow> buffer \<Rightarrow> world \<Rightarrow> world" where
  "body_arrived pid b = upd_conn pid (\<lambda>c. c\<lparr>readCB := Some Handle_body, reading := None, inputStream := b\<rparr>)"

definition consume :: "nat \<Rightarrow> nat \<Rightarrow> world \<Rightarrow> world" where
  "consume n pid = upd_conn pid (\<lambda>c. c\<lparr>inputStream := drop n (inputStream c)\<rparr>)"

lemma on_read_prefix:
  assumes "awaits_prefix (conn_of w pid)" "0 < n" "n < 4294967296"
  shows "on_read env pid (writeAsBE32 (of_nat n)) w =
    Inr (upd_conn pid (\<lambda>c. c\<lparr>readCB := Some Handle_body, reading := Some (of_nat n)\<rparr>) w)"
proof -
  have c: "socket_open (conn_of w pid)" "readCB (conn_of w pid) = Some Handle" "inputStream (conn_of w pid) = []"
    using assms(1) by (simp_all add: awaits_prefix_def)
  have n: "(of_nat n :: u32) \<noteq> 0" "(ucast (of_nat n :: u32) :: u64) = of_nat n"
  proof -
    have u: "unat (of_nat n :: u32) = n"
      using assms(3) by (rule unat_of_nat_u32)
    with assms(2) show "(of_nat n :: u32) \<noteq> 0" by auto
    show "(ucast (of_nat n :: u32) :: u64) = of_nat n"
      by (metis u of_nat_unat)
  qed
  show ?thesis
    using c n by (simp add: on_read_def Let_def run_read_cb_def peer_handle_def be32.length_enc be32.dec_enc_alone
        conn_read_def isConnected_def upd_conn_upd_conn)
      (rule upd_conn_cong, cases "conn_of w pid", simp add: be32.length_enc)
qed

lemma deliver_handleMessage:
  assumes "awaits_prefix (conn_of w pid)" "length (payload m) < 4294967295"
  shows "deliver env pid m w =
    bind_res (handleMessage env pid (message_id m) (IncomingMessage (payload m) (of_nat (length (payload m))))
               (body_arrived pid (message_id m # payload m) w))
      (\<lambda>w'. Inr (consume (Suc (length (payload m))) pid w'))"
proof -
  let ?n = "Suc (length (payload m))" and ?b = "message_id m # payload m"
  let ?w1 = "upd_conn pid (\<lambda>c. c\<lparr>readCB := Some Handle_body, reading := Some (of_nat ?n)\<rparr>) w"
  have e: "inputStream (conn_of w pid) = []"
    using assms(1) by (simp add: awaits_prefix_def)
  have p: "on_read env pid (take 4 (encode_msg m)) w = Inr ?w1"
    unfolding take_drop_encode by (rule on_read_prefix [OF assms(1)]) (use assms(2) in simp_all)
  have b: "upd_conn pid (\<lambda>c. c\<lparr>inputStream := inputStream c @ ?b, reading := None\<rparr>)
      (upd_conn pid (\<lambda>c. c\<lparr>readCB := Some Handle_body, reading := Some x\<rparr>) w) = body_arrived pid ?b w" for x
    unfolding body_arrived_def upd_conn_upd_conn by (rule upd_conn_cong) (simp add: e)
  have c: "readCB (conn_of (body_arrived pid ?b w) pid) = Some Handle_body"
    "inputStream (conn_of (body_arrived pid ?b w) pid) = ?b"
    by (simp_all add: body_arrived_def)
  show ?thesis
    unfolding deliver_def p bind_res_simps unfolding take_drop_encode
    by (simp add: on_read_def Let_def b c e run_read_cb_def on_body_def consume_def peek_def)
qed

section \<open>Handshakes\<close>

text \<open>The handshake of a peer with a protocol string, reserved bytes, an info hash and an identity.\<close>

definition handshake_of :: "u8 \<Rightarrow> buffer \<Rightarrow> buffer \<Rightarrow> buffer \<Rightarrow> buffer \<Rightarrow> buffer" where
  "handshake_of n proto reserved h i = n # proto @ reserved @ h @ i"

lemma handshake_parts:
  assumes "length proto = 19" "length reserved = 8" "length h = 20" "length i = 20"
  shows "length (handshake_of n proto reserved h i) = 68" "slice 0 1 (handshake_of n proto reserved h i) = [n]"
    "slice 1 19 (handshake_of n proto reserved h i) = proto" "slice 28 20 (handshake_of n proto reserved h i) = h"
    "slice 48 20 (handshake_of n proto reserved h i) = i"
  using assms by (simp_all add: handshake_of_def slice_def)

lemma handshake_mismatch_iff:
  assumes "length proto = 19" "length reserved = 8" "length h = 20" "length i = 20"
  shows "handshake_mismatch mine (handshake_of n proto reserved h i) 68 \<longleftrightarrow>
     (n \<noteq> 19 \<and> proto \<noteq> protocol_name) \<or> h \<noteq> slice 28 20 mine"
  unfolding handshake_mismatch_def handshake_parts [OF assms] by simp

lemma conn_read_open:
  "isConnected pid w \<Longrightarrow> conn_read n cb pid w = upd_conn pid (\<lambda>c. c\<lparr>readCB := Some cb, reading := Some n\<rparr>) w"
  by (simp add: conn_read_def)

lemma conn_write_open: "isConnected pid w \<Longrightarrow> conn_write b pid w = upd_conn pid (\<lambda>c. c\<lparr>sent := sent c @ [b]\<rparr>) w"
  by (simp add: conn_write_def)

lemma handshaked_frame [simp]:
  "peers (handshaked pid w) = peers w" "activePeers (tor (handshaked pid w)) = activePeers (tor w) @ [pid]"
  "bitfield (tor (handshaked pid w)) = bitfield (tor w)" "isConnected q (handshaked pid w) = isConnected q w"
  "blackListed (tor (handshaked pid w)) = blackListed (tor w) - {getRawIp w pid}"
  by (simp_all add: handshaked_def addPeer_def isConnected_def getRawIp_def)

section \<open>Requests\<close>

lemma deliver_interested:
  assumes "awaits_prefix (conn_of w pid)"
  shows "\<exists>w'. deliver env pid Interested w = Inr w' \<and> awaits_prefix (conn_of w' pid) \<and> tor w' = tor w \<and>
    flag w' pid PEER_INTERESTED \<and> \<not> flag w' pid AM_CHOKING"
proof -
  have "socket_open (conn_of w pid)"
    using assms by (simp add: awaits_prefix_def)
  then show ?thesis
    using deliver_handleMessage [OF assms, of Interested env]
    by (simp add: handleMessage_def message_case_def on_interested_def getSize_def IncomingMessage_def Let_def
        body_arrived_def conn_write_open conn_read_open isConnected_def consume_def awaits_prefix_def)
qed

section \<open>Properties\<close>

text \<open>
  C21: framing.  The encoding of a message, received as the two reads the connection asks for, runs
  \<open>handleMessage\<close> exactly once, with the identifier of the message, its payload and the size of the
  payload; afterwards the bytes are consumed.
\<close>

theorem encoded_message_is_handled:
  assumes "awaits_prefix (conn_of w pid)" "length (payload m) < 4294967295"
  shows "deliver env pid m w =
    bind_res (handleMessage env pid (message_id m) (IncomingMessage (payload m) (of_nat (length (payload m))))
               (body_arrived pid (message_id m # payload m) w))
      (\<lambda>w'. Inr (consume (Suc (length (payload m))) pid w'))"
  by (rule deliver_handleMessage [OF assms])

text \<open>
  C20: the handshake of an incoming connection.  It is accepted exactly when the info hash is ours
  and the length byte or the protocol name is right.  An accepted peer becomes the last active peer
  and leaves the blacklist, its identity is stored, it is sent our handshake and our bit field, and
  the first length prefix is read.  A rejected one is sent nothing and its connection is closed.
\<close>

theorem authenticate_decides:
  assumes "length proto = 19" "length reserved = 8" "length h = 20" "length i = 20" and "isConnected pid w"
  shows "\<exists>w'. on_authenticate_handshake pid (handshake_of n proto reserved h i) 68 w = Inr w' \<and>
    (if h = slice 28 20 (handshake (tor w)) \<and> (n = 19 \<or> proto = protocol_name)
     then activePeers (tor w') = activePeers (tor w) @ [pid]
        \<and> blackListed (tor w') = blackListed (tor w) - {getRawIp w pid} \<and> peerId (peers w' pid) = i
        \<and> sent (conn_of w' pid) = sent (conn_of w pid) @
            [handshake (tor w), encode_msg (Bitfield (getRawBitfield (tor w)))]
        \<and> readCB (conn_of w' pid) = Some Handle \<and> reading (conn_of w' pid) = Some 4
     else \<not> isConnected pid w' \<and> sent (conn_of w' pid) = sent (conn_of w pid)
        \<and> set (activePeers (tor w')) \<subseteq> set (activePeers (tor w)))"
proof (cases "h = slice 28 20 (handshake (tor w)) \<and> (n = 19 \<or> proto = protocol_name)")
  case True
  have "getRawIp (conn_write b pid (set_peerId i pid w)) pid = getRawIp w pid" for b i
    by (simp add: getRawIp_def set_peerId_def)
  moreover have "getRawBitfield (tor (handshaked pid v)) = getRawBitfield (tor v)" for v
    by (simp add: getRawBitfield_def)
  moreover have "isConnected pid (set_peerId i pid w)" for i
    using assms(5) by (simp add: isConnected_def set_peerId_def)
  moreover have "\<not> handshake_mismatch (handshake (tor w)) (handshake_of n proto reserved h i) 68"
    using True unfolding handshake_mismatch_iff [OF assms(1-4)] by simp
  ultimately show ?thesis
    using True assms(5) handshake_parts(5) [OF assms(1-4)]
    by (simp add: on_authenticate_handshake_def sendBitfield_encode Let_def conn_read_open conn_write_open isConnected_def set_peerId_def del: One_nat_def)
next
  case False
  then show ?thesis
    using subsetD [OF set_erase_first_subset]
    by (auto simp: on_authenticate_handshake_def handshake_mismatch_iff [OF assms(1-4)])
qed

text \<open>
  The protocol name is not checked when the length byte is nineteen: an outgoing connection whose
  other end answers with any nineteen bytes in its place becomes an active peer.
\<close>

lemma wrong_protocol_accepted:
  assumes "length proto = 19" "length reserved = 8" "length i = 20" and "isConnected pid w"
    and "length (slice 28 20 (handshake (tor w))) = 20"
  shows "pid \<in> set (activePeers (tor (on_connect_handshake pid
      (handshake_of 19 proto reserved (slice 28 20 (handshake (tor w))) i) 68 w)))"
  using handshake_mismatch_iff [OF assms(1, 2, 5, 3), of "handshake (tor w)" 19]
  by (simp add: on_connect_handshake_def conn_read_def)

text \<open>
  C33: a peer that says it is interested and then requests a block of a piece that does not exist
  makes the client read outside its vector of pieces: the index is used before it is checked.
\<close>

theorem request_index_unchecked:
  assumes "awaits_prefix (conn_of w pid)" "length (pieces (tor w)) \<le> unat i" "l \<le> 16384"
  shows "bind_res (deliver env pid Interested w) (deliver env pid (Request i b l)) = Inl OutOfBounds"
proof -
  obtain w' where w': "deliver env pid Interested w = Inr w'" "awaits_prefix (conn_of w' pid)" "tor w' = tor w"
      "flag w' pid PEER_INTERESTED" "\<not> flag w' pid AM_CHOKING"
    using deliver_interested [OF assms(1)] by blast
  have p: "payload (Request i b l) = writeAsBE32 i @ writeAsBE32 b @ writeAsBE32 l @ []"
    by simp
  have "length (payload (Request i b l)) = 12"
    by (simp add: be32.length_enc)
  moreover have "\<not> 16384 < l"
    using assms(3) by (simp add: not_less)
  ultimately show ?thesis
    using deliver_handleMessage [OF w'(2), of "Request i b l" env] extract3_payload [OF p, of 12] w' assms(2, 3)
    by (simp add: handleMessage_def message_case_def on_request_def getSize_def IncomingMessage_def
        body_arrived_def pieceDone_def peek_def del: payload.simps)
qed

end
