(* ===== verification/Piece_Transfer.thy ===== *)
theory Piece_Transfer
  imports Peer_Protocol
begin

text \<open>
  The transfer of a piece: what a peer has to send for a piece to be completed, in whatever order its
  blocks arrive, and when the client answers a request.
\<close>

section \<open>Serving only what may be served\<close>

text \<open>Handling a request adds output to the connection it came from only.\<close>

lemma handleBlockRequest_sent:
  "holds UNIV (\<lambda>w'. \<forall>q. q \<noteq> pid \<longrightarrow> sent (conn_of w' q) = sent (conn_of w q)) (handleBlockRequest env pid i b l w)"
proof -
  have s: "holds UNIV (\<lambda>w'. \<forall>q. q \<noteq> pid \<longrightarrow> sent (conn_of w' q) = sent (conn_of v q)) (sendPieceBlock i b blk l pid v)"
    for blk v
    by (simp add: sendPieceBlock_def conn_write_out_def out_data_def wr.out_put)
  have d: "sent (conn_of (v\<lparr>disk := x\<rparr>) q) = sent (conn_of v q)" for v x q
    by simp
  show ?thesis
    by (rule holds_mono [where P = "\<lambda>w'. \<forall>q. q \<noteq> pid \<longrightarrow> sent (conn_of w' q) = sent (conn_of w q)"])
      (auto simp: handleBlockRequest_def Let_def split: prod.splits
        intro!: holds_const holds_mono [OF s])
qed

text \<open>
  The effect of a request on the outputs: none, unless the request passes every test.
\<close>

lemma on_request_sent:
  assumes "on_request env pid m w = Inr r" "w' = (case r of Return v \<Rightarrow> v | Break v \<Rightarrow> v)"
    and "sent (conn_of w' q) \<noteq> sent (conn_of w q)"
  shows "q = pid \<and> flag w pid PEER_INTERESTED \<and> \<not> flag w pid AM_CHOKING \<and>
    (\<exists>i b l m'. extract3 m = Some ((i, b, l), m') \<and> l \<le> 16384 \<and>
       unat i < length (pieces (tor w)) \<and> finished (pieces (tor w) ! unat i))"
proof -
  have fail: "fail_with e pid w = Inr r \<Longrightarrow> False" for e
    using assms(2, 3) by (auto simp: fail_with_def)
  then have g: "getSize m = 12" "flag w pid PEER_INTERESTED" "\<not> flag w pid AM_CHOKING"
    using assms(1) by (auto simp: on_request_def split: if_splits)
  obtain i b l m' where x: "extract3 m = Some ((i, b, l), m')"
    using assms(1) g by (cases "extract3 m") (auto simp: on_request_def)
  have l: "\<not> 16384 < l"
    using assms(1) fail g x by (auto simp: on_request_def split: if_splits)
  have i: "unat i < length (pieces (tor w))"
    using assms(1) g x l by (auto simp: on_request_def pieceDone_def peek_def split: if_splits)
  have "finished (pieces (tor w) ! unat i)"
    using assms g x l i by (auto simp: on_request_def pieceDone_def peek_def split: if_splits)
  moreover from this obtain v where "handleBlockRequest env pid i b l w = Inr v" "w' = v"
    using assms(1, 2) g x l i by (auto simp: on_request_def pieceDone_def peek_def)
  then have "q = pid"
    using handleBlockRequest_sent [of pid w env i b l] assms(3) by auto
  ultimately show ?thesis
    using g x l i by (auto simp: not_less)
qed

section \<open>Blocks on their way\<close>

definition block_at :: "buffer \<Rightarrow> nat \<Rightarrow> buffer" where
  "block_at data k = take 16384 (drop (16384 * k) data)"

text \<open>A queued piece with the blocks of \<open>S\<close> in place, after \<open>h\<close> blocks were received.\<close>

definition partial_qpiece :: "torrent \<Rightarrow> nat \<Rightarrow> buffer \<Rightarrow> nat set \<Rightarrow> nat \<Rightarrow> qpiece" where
  "partial_qpiece t i data S h =
     \<lparr>index = i, haveBlocks = h, totalBlocks = block_count (piece_len t i),
      blocks = map (\<lambda>k. if k \<in> S then \<lparr>bsize = length (block_at data k), bdata = Some (block_at data k)\<rparr>
                        else \<lparr>bsize = 0, bdata = None\<rparr>) [0..<block_count (piece_len t i)]\<rparr>"

lemma fresh_partial: "fresh_qpiece t i = partial_qpiece t i data {} 0"
  by (simp add: fresh_qpiece_def partial_qpiece_def map_replicate_const)

definition full_block :: "buffer \<Rightarrow> nat \<Rightarrow> block" where
  "full_block data k = \<lparr>bsize = length (block_at data k), bdata = Some (block_at data k)\<rparr>"

lemma put_partial:
  "put_block k (length (block_at data k)) (Some (block_at data k)) (partial_qpiece t i data S h) =
     partial_qpiece t i data (insert k S) (h + 1)"
proof -
  let ?f = "\<lambda>S k. if k \<in> S then full_block data k else \<lparr>bsize = 0, bdata = None\<rparr>"
  have "(map (?f S) [0..<n])[k := full_block data k] = map (?f (insert k S)) [0..<n]" for n
    by (cases "k < n"; rule nth_equalityI) (auto simp: nth_list_update list_update_beyond)
  note this [unfolded full_block_def]
  then show ?thesis
    by (simp add: put_block_def partial_qpiece_def)
qed

lemma partial_fields [simp]:
  "index (partial_qpiece t i data S h) = i" "haveBlocks (partial_qpiece t i data S h) = h"
  "totalBlocks (partial_qpiece t i data S h) = block_count (piece_len t i)"
  by (simp_all add: partial_qpiece_def)

lemma block_at_pos:
  assumes "length data = l" "k < block_count l"
  shows "block_at data k \<noteq> []" "length (block_at data k) \<le> 16384" "16384 * k < l"
proof -
  have "16384 * k < l"
    using assms(2) by (auto simp: block_count_def less_eq_div_iff_mult_less_eq Suc_le_eq[symmetric])
  then show "block_at data k \<noteq> []" "length (block_at data k) \<le> 16384" "16384 * k < l"
    using assms(1) by (simp_all add: block_at_def)
qed

text \<open>What is put together when the first blocks are in place, as many as there are, and no others.\<close>

lemma concat_block_at: "concat (map (block_at data) [0..<c]) = take (16384 * c) data"
  by (induction c) (simp_all add: block_at_def take_add [symmetric] add.commute)

lemma assemble_prefix:
  assumes "length data = piece_len t i" "c \<le> block_count (piece_len t i)"
  shows "assemble (blocks (partial_qpiece t i data {..<c} h)) = Inr (take (16384 * c) data)"
proof -
  let ?n = "block_count (piece_len t i)" and ?q = "partial_qpiece t i data {..<c} h"
  have "block_ok b" if "b \<in> set (blocks ?q)" for b
    using that block_at_pos [OF assms(1)] by (auto simp: partial_qpiece_def block_ok_def)
  from assemble_blocks [OF this] have "assemble (blocks ?q) = Inr (concat (map block_bytes (blocks ?q)))" .
  also have "map block_bytes (blocks ?q) = map (\<lambda>k. if k < c then block_at data k else []) [0..<?n]"
    by (simp add: partial_qpiece_def block_bytes_def)
  also have "[0..<?n] = [0..<c] @ [c..<?n]"
    using upt_add_eq_append [of 0 c "?n - c"] assms(2) by simp
  also have "map (\<lambda>k. if k < c then block_at data k else []) \<dots> = map (block_at data) [0..<c] @ map (\<lambda>k. []) [c..<?n]"
    by simp
  finally show ?thesis
    by (simp add: concat_block_at)
qed

lemma block_count_covers: "l \<le> 16384 * block_count l"
  by (simp add: block_count_def)

lemma assemble_partial:
  assumes "length data = piece_len t i"
  shows "assemble (blocks (partial_qpiece t i data {..<block_count (piece_len t i)} h)) = Inr data"
  using assemble_prefix [OF assms order_refl] block_count_covers [of "piece_len t i"] assms by simp

section \<open>Receiving the blocks\<close>

text \<open>What is left to do after \<open>handlePieceCompleted\<close>, and the whole completion of a piece.\<close>

definition after_piece :: "nat \<Rightarrow> nat \<Rightarrow> world \<Rightarrow> flow res" where
  "after_piece pid j w2 =
     (let w3 = upd_queue (remove_at j) pid w2
      in if completedPieces (tor w3) \<noteq> getTotalPieces (tor w3)
         then bind_res (selectPieceAndRequest pid w3) (\<lambda>w4. Inr (Break w4))
         else Inr (Break w3))"

definition flow_world :: "flow \<Rightarrow> world" where
  "flow_world r = (case r of Return w \<Rightarrow> w | Break w \<Rightarrow> w)"

lemma flow_world_simps [simp]: "flow_world (Return w) = w" "flow_world (Break w) = w"
  by (simp_all add: flow_world_def)

text \<open>The \<open>k\<close>-th block of the data of piece \<open>i\<close>, as the message that carries it and as it is received.\<close>

definition block_message :: "nat \<Rightarrow> buffer \<Rightarrow> nat \<Rightarrow> message" where
  "block_message i data k = PieceBlock (of_nat i) (of_nat (16384 * k)) (block_at data k)"

definition incoming_of :: "message \<Rightarrow> incoming" where
  "incoming_of m = IncomingMessage (payload m) (of_nat (length (payload m)))"

definition receive_block :: "env \<Rightarrow> nat \<Rightarrow> nat \<Rightarrow> buffer \<Rightarrow> nat \<Rightarrow> world \<Rightarrow> flow res" where
  "receive_block env pid i data k w = on_piece_block env pid (incoming_of (block_message i data k)) w"

fun receive_blocks :: "env \<Rightarrow> nat \<Rightarrow> nat \<Rightarrow> buffer \<Rightarrow> nat list \<Rightarrow> world \<Rightarrow> world res" where
  "receive_blocks env pid i data [] w = Inr w"
| "receive_blocks env pid i data (k # ks) w =
     bind_res (receive_block env pid i data k w) (\<lambda>r. receive_blocks env pid i data ks (flow_world r))"

text \<open>The piece is being fetched: its first entry in the queue of the peer is at position \<open>j\<close>.\<close>

definition fetching :: "nat \<Rightarrow> nat \<Rightarrow> nat \<Rightarrow> qpiece \<Rightarrow> world \<Rightarrow> bool" where
  "fetching pid i j q w \<longleftrightarrow>
     find_pos (\<lambda>p. index p = i) (pieceQueue (peers w pid)) = Some j \<and> pieceQueue (peers w pid) ! j = q"

text \<open>The message is decoded, and its block is one of the piece.\<close>

lemma receive_block_cases:
  assumes ui: "unat (of_nat i :: u32) = i" and l: "length data = l" "l < 4294967296" and k: "k < block_count l"
  shows "receive_block env pid i data k w =
    (case find_pos (\<lambda>q. index q = i) (pieceQueue (peers w pid)) of
       None \<Rightarrow> fail_with (NotAskedFor (of_nat i)) pid w
     | Some j \<Rightarrow>
         let piece = pieceQueue (peers w pid) ! j
         in if totalBlocks piece \<le> k then fail_with BlockIndexTooBig pid w
         else bind_res (pieceDone (tor w) i) (\<lambda>fin.
           if fin then bind_res (sendCancelRequest piece pid w) (\<lambda>w1. Inr (Break (upd_queue (remove_at j) pid w1)))
           else
             let piece1 = put_block k (length (block_at data k)) (Some (block_at data k)) piece;
                 w1 = upd_queue (\<lambda>qs. qs[j := piece1]) pid w
             in if haveBlocks piece1 = totalBlocks piece1
                then bind_res (assemble (blocks piece1)) (\<lambda>r. bind_res (handlePieceCompleted env pid (of_nat i) r w1) (after_piece pid j))
                else Inr (Break w1)))"
proof -
  let ?d = "block_at data k" and ?n = "length (block_at data k)"
  note b = block_at_pos [OF l(1) k]
  have "16384 * k < 4294967296"
    using b(3) l(2) by simp
  then have ub: "unat (of_nat (16384 * k) :: u32) div 16384 = k"
    by (subst unat_of_nat_u32) simp_all
  have p: "payload (block_message i data k) = writeAsBE32 (of_nat i) @ writeAsBE32 (of_nat (16384 * k)) @ ?d"
    by (simp add: block_message_def)
  have len: "length (payload (block_message i data k)) = 8 + ?n"
    by (simp add: p be32.length_enc)
  let ?sz = "of_nat (8 + ?n) :: u64"
  have un: "unat (of_nat ?n :: u64) = ?n" "unat ?sz = 8 + ?n"
    using b(2) by (auto intro!: unat_of_nat_u64 simp del: of_nat_add)
  have n0: "?n \<noteq> 0"
    using b(1) by simp
  have sz: "?sz - 8 = of_nat ?n"
    by simp
  have sz': "\<not> ?sz < 9" "(of_nat ?n :: u64) \<noteq> 0" "\<not> 16384 < (of_nat ?n :: u64)" "?sz \<noteq> 8"
    using n0 b(2) un by (auto simp: word_less_nat_alt simp del: of_nat_add)
  note x = extract2_payload [OF p, of ?sz]
  have c: "cpyBuffer (of_nat ?n) \<lparr>dataBuffer = payload (block_message i data k), buffSize = ?sz, readIndex = 8\<rparr> =
      Some (Some ?d)"
    using un by (simp add: cpyBuffer_def len) (simp add: p be32.length_enc)
  show ?thesis
    unfolding receive_block_def incoming_of_def len on_piece_block_def x
    using sz sz' c
    by (simp add: IncomingMessage_def getSize_def Let_def un ui ub after_piece_def [abs_def]
        del: of_nat_add of_nat_mult cong: if_cong option.case_cong)
qed

lemma receive_block_run:
  assumes f: "fetching pid i j (partial_qpiece (tor w) i data S h) w"
    and i: "i < length (pieces (tor w))" "\<not> finished (pieces (tor w) ! i)" "pieces_fit (tor w)"
    and l: "length data = piece_len (tor w) i" and k: "k < block_count (piece_len (tor w) i)"
  defines "w1 \<equiv> upd_queue (\<lambda>qs. qs[j := partial_qpiece (tor w) i data (insert k S) (h + 1)]) pid w"
  shows "receive_block env pid i data k w =
    (if h + 1 = block_count (piece_len (tor w) i)
     then bind_res (assemble (blocks (partial_qpiece (tor w) i data (insert k S) (h + 1))))
            (\<lambda>r. bind_res (handlePieceCompleted env pid (of_nat i) r w1) (after_piece pid j))
     else Inr (Break w1))"
proof -
  have "piece_len (tor w) i < 4294967296"
    using i(3) piece_len_le [of "tor w" i] by (simp add: pieces_fit_def)
  note cases = receive_block_cases [OF unat_index [OF i(3, 1)] l this k]
  have "pieceDone (tor w) i = Inr False"
    using i(1, 2) by (simp add: pieceDone_def peek_def)
  then show ?thesis
    using f k unfolding cases fetching_def by (simp add: Let_def put_partial w1_def)
qed

section \<open>The same block again and again\<close>

lemma fetching_update:
  assumes "fetching pid i j q w" "index q' = i"
  shows "fetching pid i j q' (upd_queue (\<lambda>qs. qs[j := q']) pid w)"
proof -
  have "find_pos P (qs[j := q']) = Some j" if "find_pos P qs = Some j" "P q'" for P and qs :: "qpiece list" and j
    using that by (induction qs arbitrary: j) (auto split: if_splits nat.splits)
  then show ?thesis
    using assms find_pos_Some [of "\<lambda>p. index p = i" "pieceQueue (peers w pid)" j] by (simp add: fetching_def)
qed

lemma upd_queue_twice: "upd_queue (\<lambda>qs. qs[j := q']) pid (upd_queue (\<lambda>qs. qs[j := q]) pid w) = upd_queue (\<lambda>qs. qs[j := q']) pid w"
  by (simp add: upd_queue_def upd_peer_def)

lemma receive_blocks_append:
  "receive_blocks env pid i data (ks @ ls) w = bind_res (receive_blocks env pid i data ks w) (receive_blocks env pid i data ls)"
  by (induction ks arbitrary: w) (simp_all add: bind_res_assoc)

lemma receive_same_block:
  assumes "fetching pid i j (partial_qpiece (tor w) i data {} 0) w"
    and "i < length (pieces (tor w))" "\<not> finished (pieces (tor w) ! i)" "pieces_fit (tor w)"
    and "length data = piece_len (tor w) i" "h + 1 < block_count (piece_len (tor w) i)"
  shows "receive_blocks env pid i data (replicate (h + 1) 0) w =
    Inr (upd_queue (\<lambda>qs. qs[j := partial_qpiece (tor w) i data {0} (h + 1)]) pid w)"
  using assms(6)
proof (induction h)
  case 0
  then show ?case
    using receive_block_run [OF assms(1-5), of 0] by simp
next
  case (Suc h)
  let ?v = "upd_queue (\<lambda>qs. qs[j := partial_qpiece (tor w) i data {0} (h + 1)]) pid w"
  have IH: "receive_blocks env pid i data (replicate (h + 1) 0) w = Inr ?v"
    using Suc by simp
  have f: "fetching pid i j (partial_qpiece (tor ?v) i data {0} (h + 1)) ?v"
    using fetching_update [OF assms(1)] by simp
  have "receive_block env pid i data 0 ?v =
      Inr (Break (upd_queue (\<lambda>qs. qs[j := partial_qpiece (tor w) i data {0} (h + 2)]) pid w))"
    using receive_block_run [OF f, of 0] assms(2-5) Suc.prems by (simp add: upd_queue_twice)
  moreover have "replicate (Suc h + 1) (0 :: nat) = replicate (h + 1) 0 @ [0]"
    by (simp add: replicate_append_same)
  ultimately show ?case
    using IH by (simp add: receive_blocks_append del: replicate_Suc)
qed

lemma set_priority_misses:
  "pieceHashMisses (set_priority k v t) = pieceHashMisses t" "wastedBytes (set_priority k v t) = wastedBytes t"
  by (simp_all add: set_priority_def)

lemma disk_request_best: "disk (request_best k pid w) = disk w"
  using hush_eqD(2) [OF wr.rest_put_all] by (simp add: request_best_def enqueue_piece_def)

lemma assemble_first_block:
  assumes "length data = piece_len t i" "0 < block_count (piece_len t i)"
  shows "assemble (blocks (partial_qpiece t i data {0} h)) = Inr (block_at data 0)"
  using assemble_prefix [OF assms(1), of 1 h] assms(2) by (simp add: block_at_def lessThan_Suc)

section \<open>Properties\<close>

text \<open>
  C13: a peer is sent data, or anything else, in answer to a request only if it has said that it is
  interested, was unchoked, asked for at most 16 KiB, and the piece exists and is finished.  No other
  peer is sent anything.
\<close>

theorem request_answer_is_allowed:
  assumes "handleMessage env pid 6 m w = Inr w'" "sent (conn_of w' q) \<noteq> sent (conn_of w q)"
  shows "q = pid \<and> flag w pid PEER_INTERESTED \<and> \<not> flag w pid AM_CHOKING \<and>
    (\<exists>i b l m'. extract3 m = Some ((i, b, l), m') \<and> l \<le> 16384 \<and>
       unat i < length (pieces (tor w)) \<and> finished (pieces (tor w) ! unat i))"
proof -
  obtain r where r: "on_request env pid m w = Inr r"
      "(case r of Return v \<Rightarrow> Inr v | Break v \<Rightarrow> Inr (conn_read 4 Handle pid v)) = (Inr w' :: world res)"
    using assms(1) by (auto simp: handleMessage_def message_case_def)
  have "sent (conn_of (conn_read 4 Handle pid v) q) = sent (conn_of v q)" for v
    by (simp add: conn_read_def)
  then have "sent (conn_of (case r of Return v \<Rightarrow> v | Break v \<Rightarrow> v) q) \<noteq> sent (conn_of w q)"
    using assms(2) r(2) by (cases r) auto
  from on_request_sent [OF r(1) refl this] show ?thesis .
qed

text \<open>
  C19: The client counts blocks without looking which ones it has.  A peer that is asked for a piece of
  several blocks, none of which has arrived, and sends the first of them as many times as the piece has
  blocks makes the client give the piece up: what it checks is that one block, and unless this alone has
  the digest of the piece, it is counted as wasted, nothing is stored and the piece is not finished.
\<close>

theorem duplicate_blocks_waste_piece:
  assumes "client_inv env w" "fetching pid i j (fresh_qpiece (tor w) i) w"
    and "i < length (pieces (tor w))" "\<not> finished (pieces (tor w) ! i)" "length data = piece_len (tor w) i"
    and "1 < block_count (piece_len (tor w) i)" "digest_bytes env (block_at data 0) \<noteq> hash (pieces (tor w) ! i)"
  shows "\<exists>w'. receive_blocks env pid i data (replicate (block_count (piece_len (tor w) i)) 0) w = Inr w' \<and>
    \<not> finished (pieces (tor w') ! i) \<and> pieceHashMisses (tor w') = pieceHashMisses (tor w) + 1 \<and>
    wastedBytes (tor w') = wastedBytes (tor w) + of_nat (length (block_at data 0)) \<and> disk w' = disk w"
proof -
  let ?t = "tor w" and ?n = "block_count (piece_len (tor w) i)" and ?d = "block_at data 0"
  note g = geometryD [OF client_invD(3) [OF assms(1)]]
  define h where "h = ?n - 2"
  have n: "?n = h + 1 + 1"
    using assms(6) by (simp add: h_def)
  let ?v = "upd_queue (\<lambda>qs. qs[j := partial_qpiece ?t i data {0} (h + 1)]) pid w"
  let ?w1 = "upd_queue (\<lambda>qs. qs[j := partial_qpiece ?t i data {0} (h + 1 + 1)]) pid w"
  let ?w2 = "upd_tor (\<lambda>t. t\<lparr>pieceHashMisses := pieceHashMisses t + 1, wastedBytes := wastedBytes t + of_nat (length ?d)\<rparr>) ?w1"
  let ?w3 = "upd_queue (remove_at j) pid ?w2"
  have f0: "fetching pid i j (partial_qpiece ?t i data {} 0) w"
    using assms(2) by (simp add: fresh_partial [of _ _ data])
  have first: "receive_blocks env pid i data (replicate (h + 1) 0) w = Inr ?v"
    using receive_same_block [OF f0 assms(3, 4) g(3) assms(5)] n by simp
  have f: "fetching pid i j (partial_qpiece (tor ?v) i data {0} (h + 1)) ?v"
    using fetching_update [OF f0] by simp
  have "?d \<noteq> []"
    using block_at_pos(1) [OF assms(5)] n by simp
  moreover have "\<not> checkPieceHash env (tor ?w1) ?d (unat (of_nat i :: u32))"
    using assms(3, 7) unat_index [OF g(3) assms(3)] by (simp add: checkPieceHash_def)
  ultimately have "handlePieceCompleted env pid (of_nat i) ?d ?w1 = Inr ?w2"
    by (rule handlePieceCompleted_mismatch)
  then have last: "receive_block env pid i data 0 ?v = after_piece pid j ?w2"
    using receive_block_run [OF f, of 0] assms(3-5) g(3) n assemble_first_block [OF assms(5)] by (simp add: upd_queue_twice)
  have "completedPieces ?t \<noteq> length (pieces ?t)"
  proof -
    have "finished_set (pieces ?t) \<subset> {..<length (pieces ?t)}"
      using assms(3, 4) by (auto simp: finished_set_def)
    from psubset_card_mono [OF _ this] show ?thesis
      using marksD(2) [OF client_invD(4) [OF assms(1)]] by simp
  qed
  moreover have rep: "replicate ?n (0 :: nat) = replicate (h + 1) 0 @ [0]"
    unfolding n by (simp add: replicate_append_same)
  ultimately have run: "receive_blocks env pid i data (replicate ?n 0) w = bind_res (selectPieceAndRequest pid ?w3) Inr"
    unfolding rep receive_blocks_append first using last
    by (simp add: after_piece_def getTotalPieces_def Let_def bind_res_assoc)
  have "\<exists>w'. selectPieceAndRequest pid ?w3 = Inr w' \<and> (w' = ?w3 \<or> (\<exists>k. w' = request_best k pid ?w3))"
    using selectPieceAndRequest_run [of ?w3 pid] g(1, 3) marksD(3) [OF client_invD(4) [OF assms(1)]]
    by (auto simp: wf_sizes_def pieces_fit_def)
  then obtain w' where w': "selectPieceAndRequest pid ?w3 = Inr w'" "w' = ?w3 \<or> (\<exists>k. w' = request_best k pid ?w3)"
    by blast
  have "\<not> finished (pieces (tor w') ! i) \<and> pieceHashMisses (tor w') = pieceHashMisses ?t + 1 \<and>
      wastedBytes (tor w') = wastedBytes ?t + of_nat (length ?d) \<and> disk w' = disk w"
    using w'(2) assms(4) by (auto simp: request_best_tor set_priority_misses disk_request_best)
  with run w'(1) show ?thesis
    by simp
qed

end
