(* ===== verification/Peer_Discovery.thy ===== *)
theory Peer_Discovery
  imports Handler_Frame
begin

text \<open>
  How peers come into being: the constructor of \<open>Peer\<close>, the accept callback of \<open>Torrent::download\<close> and
  \<open>Torrent::seed\<close>, and \<open>Torrent::connectToPeers\<close>, which dials the addresses of a tracker's answer.
\<close>

section \<open>Operations\<close>

definition new_peer :: "connection \<Rightarrow> peer" where
  "new_peer c =
     \<lparr>hasPieceIndexes = [], pieceQueue = [], peerId = [], conn = c,
      pstate = (\<lambda>s. s = AM_CHOKING \<or> s = PEER_CHOKING)\<rparr>"

text \<open>\<open>make_shared<Peer>\<close>: the object at the next free identity.\<close>

definition make_peer :: "connection \<Rightarrow> world \<Rightarrow> world" where
  "make_peer c w = w\<lparr>peers := (peers w)(nextPeer w := new_peer c), nextPeer := nextPeer w + 1\<rparr>"

definition blacklist :: "u32 \<Rightarrow> torrent \<Rightarrow> torrent" where
  "blacklist ip t = t\<lparr>blackListed := insert ip (blackListed t)\<rparr>"

text \<open>The callback of the accept loop, run with a connection that is open to the address \<open>a\<close>.\<close>

definition on_accepted :: "u32 option \<Rightarrow> world \<Rightarrow> world" where
  "on_accepted a w =
     (let pid = nextPeer w;
          w1 = make_peer (new_connection\<lparr>socket_open := True, remote := a\<rparr>) w;
          w2 = upd_tor (blacklist (getRawIp w1 pid)) w1
      in peer_authenticate pid w2)"

text \<open>
  The loop of \<open>connectToPeers\<close> over the memory \<open>mem\<close> behind the pointer: each round reads the address,
  and, unless it is to be skipped, the port.
\<close>

function connect_loop :: "buffer \<Rightarrow> nat \<Rightarrow> nat \<Rightarrow> world \<Rightarrow> world res" where
  "connect_loop mem sz i w =
     (if sz \<le> i then Inr w
      else bind_res (of_peek (readAsLE32 (drop i mem))) (\<lambda>ip.
        if ip = 0 \<or> ip \<in> blackListed (tor w) then connect_loop mem sz (i + 6) w
        else if list_ex (\<lambda>q. getRawIp w q = ip) (activePeers (tor w)) then connect_loop mem sz (i + 6) w
        else
          let pid = nextPeer w;
              w1 = upd_tor (blacklist ip) (make_peer new_connection w)
          in bind_res (of_peek (readAsBE16 (drop (i + 4) mem))) (\<lambda>port.
               connect_loop mem sz (i + 6) (peer_connect (parseIp ip) (to_string (unat port)) pid w1))))"
  by pat_completeness auto
termination
  by (relation "measure (\<lambda>(mem, sz, i, w). sz - i)") auto

declare connect_loop.simps [simp del]

definition connectToPeers :: "buffer \<Rightarrow> nat \<Rightarrow> world \<Rightarrow> world res" where
  "connectToPeers mem sz w = connect_loop mem sz 0 w"

section \<open>The peers worth dialling\<close>

text \<open>
  The specification: of the addresses offered, those that are not null, not known, and not offered
  before, each with the first port offered for it.
\<close>

fun fresh_addresses :: "u32 set \<Rightarrow> (u32 \<times> u16) list \<Rightarrow> (u32 \<times> u16) list" where
  "fresh_addresses seen [] = []"
| "fresh_addresses seen ((ip, port) # es) =
     (if ip = 0 \<or> ip \<in> seen then fresh_addresses seen es
      else (ip, port) # fresh_addresses (insert ip seen) es)"

lemma fresh_addresses_set:
  "set (map fst (fresh_addresses seen es)) = {ip \<in> fst ` set es. ip \<noteq> 0 \<and> ip \<notin> seen}"
  by (induction seen es rule: fresh_addresses.induct) auto

lemma fresh_addresses_distinct: "distinct (map fst (fresh_addresses seen es))"
proof (induction seen es rule: fresh_addresses.induct)
  case (2 seen ip port es)
  then show ?case
    using fresh_addresses_set [of "insert ip seen" es] by auto
qed simp

text \<open>The compact form of an address: the four bytes of the IP, as they are in memory, and the port in big endian.\<close>

definition compact_entry :: "u32 \<times> u16 \<Rightarrow> buffer" where
  "compact_entry = (\<lambda>(ip, port). writeLE32 ip @ [ucast (drop_bit 8 port), ucast port])"

definition compact :: "(u32 \<times> u16) list \<Rightarrow> buffer" where
  "compact es = concat (map compact_entry es)"

lemma compact_Cons: "compact (e # es) = compact_entry e @ compact es"
  by (simp add: compact_def)

lemma length_compact_entry [simp]: "length (compact_entry e) = 6"
  by (cases e) (simp add: compact_entry_def le32.length_enc)

lemma length_compact [simp]: "length (compact es) = 6 * length es"
  by (induction es) (simp_all add: compact_def)

lemma port_bytes: "push_bit 8 (ucast (ucast (drop_bit 8 port) :: u8)) OR ucast (ucast port :: u8) = (port :: u16)"
  by (rule bit_word_eqI) (auto simp: bit_simps)

lemma compact_entry_read:
  "readAsLE32 (compact_entry (ip, port) @ r) = Some ip"
  "readAsBE16 (drop 4 (compact_entry (ip, port) @ r)) = Some port"
  by (simp_all add: compact_entry_def le32.dec_enc le32.length_enc readAsBE16_Cons port_bytes)

section \<open>The effect of the loop\<close>

text \<open>The peer made for an address, and the world after a list of addresses has been dialled.\<close>

definition dialling :: "u32 \<times> u16 \<Rightarrow> peer" where
  "dialling = (\<lambda>(ip, port). new_peer (new_connection
     \<lparr>errorCB := True, connCB := True, dialled := Some (parseIp ip, to_string (unat port)), stage := Resolving\<rparr>))"

definition dial :: "u32 \<times> u16 \<Rightarrow> world \<Rightarrow> world" where
  "dial e w = upd_tor (blacklist (fst e)) (w\<lparr>peers := (peers w)(nextPeer w := dialling e), nextPeer := nextPeer w + 1\<rparr>)"

lemma dial_step:
  "peer_connect (parseIp ip) (to_string (unat port)) (nextPeer w)
     (upd_tor (blacklist ip) (make_peer new_connection w)) = dial (ip, port) w"
  by (simp add: peer_connect_def conn_connect_def setErrorCallback_def upd_conn_def upd_peer_def upd_tor_def
    make_peer_def dial_def dialling_def new_peer_def)

definition known_ips :: "world \<Rightarrow> u32 set" where
  "known_ips w = blackListed (tor w) \<union> getRawIp w ` set (activePeers (tor w))"

lemma dial_frame [simp]:
  "nextPeer (dial e w) = nextPeer w + 1" "activePeers (tor (dial e w)) = activePeers (tor w)"
  "disk (dial e w) = disk w" "errlog (dial e w) = errlog w"
  "peers (dial e w) q = (if q = nextPeer w then dialling e else peers w q)"
  "blackListed (tor (dial e w)) = insert (fst e) (blackListed (tor w))"
  by (simp_all add: dial_def blacklist_def)

lemma peers_known_dial: "peers_known w \<Longrightarrow> peers_known (dial e w)"
  by (auto simp: peers_known_def)

lemma known_ips_dial: "peers_known w \<Longrightarrow> known_ips (dial e w) = insert (fst e) (known_ips w)"
proof -
  assume k: "peers_known w"
  have "getRawIp (dial e w) ` set (activePeers (tor w)) = getRawIp w ` set (activePeers (tor w))"
    using k by (intro image_cong) (auto simp: getRawIp_def peers_known_def)
  then show ?thesis by (simp add: known_ips_def)
qed

lemma connect_loop_dials:
  assumes "peers_known w" and "drop i mem = compact es @ r" and "i + 6 * length es \<le> sz"
  shows "connect_loop mem sz i w =
    connect_loop mem sz (i + 6 * length es) (fold dial (fresh_addresses (known_ips w) es) w)"
  using assms
proof (induction es arbitrary: i w)
  case Nil
  then show ?case by simp
next
  case (Cons e es)
  obtain ip port where e: "e = (ip, port)" by fastforce
  have m: "drop i mem = compact_entry (ip, port) @ compact es @ r"
    using Cons.prems(2) by (simp add: compact_Cons e)
  have "drop (i + 4) mem = drop 4 (drop i mem)" "drop (i + 6) mem = drop 6 (drop i mem)"
    by (simp_all add: add.commute)
  then have read: "readAsLE32 (drop i mem) = Some ip" "readAsBE16 (drop (i + 4) mem) = Some port"
    and rest: "drop (i + 6) mem = compact es @ r"
    by (simp_all only: m compact_entry_read) simp
  note IH = Cons.IH [OF _ rest]
  have sz: "\<not> sz \<le> i" "i + 6 + 6 * length es \<le> sz"
    using Cons.prems(3) by simp_all
  show ?case
  proof (cases "ip = 0 \<or> ip \<in> known_ips w")
    case True
    then have "ip = 0 \<or> ip \<in> blackListed (tor w) \<or> list_ex (\<lambda>q. getRawIp w q = ip) (activePeers (tor w))"
      by (auto simp: known_ips_def list_ex_iff)
    with True sz IH [OF Cons.prems(1)] show ?thesis
      by (subst connect_loop.simps) (auto simp: read e algebra_simps)
  next
    case False
    then have "\<not> (ip = 0 \<or> ip \<in> blackListed (tor w))" "\<not> list_ex (\<lambda>q. getRawIp w q = ip) (activePeers (tor w))"
      by (auto simp: known_ips_def list_ex_iff)
    with False sz IH [OF peers_known_dial [OF Cons.prems(1)], of "(ip, port)"] show ?thesis
      by (subst connect_loop.simps) (simp add: read e Let_def dial_step known_ips_dial [OF Cons.prems(1)] algebra_simps)
  qed
qed

lemma fold_dial:
  "nextPeer (fold dial es w) = nextPeer w + length es"
  "activePeers (tor (fold dial es w)) = activePeers (tor w)"
  "blackListed (tor (fold dial es w)) = fst ` set es \<union> blackListed (tor w)"
  "peers (fold dial es w) q =
     (if nextPeer w \<le> q \<and> q < nextPeer w + length es then dialling (es ! (q - nextPeer w)) else peers w q)"
  by (induction es arbitrary: w) (auto simp: nth_Cons' split: if_splits)

text \<open>A list of whole entries, with the zero that ends the string.\<close>

lemma connect_compact:
  assumes "peers_known w"
  shows "connectToPeers (compact es @ [0]) (6 * length es) w = Inr (fold dial (fresh_addresses (known_ips w) es) w)"
  using connect_loop_dials [OF assms, of 0 "compact es @ [0]" es "[0]" "6 * length es"]
    connect_loop.simps [of "compact es @ [0]" "6 * length es" "6 * length es"] by (simp add: connectToPeers_def)

section \<open>Properties\<close>

text \<open>
  C28: a well-formed answer of the tracker, entries of six bytes, makes the client dial each address
  that is not null, neither blacklisted nor an active peer's, exactly once, with the first port
  offered for it, in the order of the answer; exactly these addresses become blacklisted, and the
  peers that exist stay as they are.
\<close>

theorem connectToPeers_dials_fresh:
  assumes "peers_known w" and "mem = compact es @ rest"
  shows "\<exists>w' new. connectToPeers mem (length (compact es)) w = Inr w'
    \<and> distinct (map fst new) \<and> set new \<subseteq> set es
    \<and> fst ` set new = {ip \<in> fst ` set es. ip \<noteq> 0 \<and> ip \<notin> known_ips w}
    \<and> nextPeer w' = nextPeer w + length new
    \<and> (\<forall>k < length new. peers w' (nextPeer w + k) = dialling (new ! k))
    \<and> (\<forall>q < nextPeer w. peers w' q = peers w q)
    \<and> blackListed (tor w') = blackListed (tor w) \<union> fst ` set new
    \<and> activePeers (tor w') = activePeers (tor w)"
proof -
  let ?new = "fresh_addresses (known_ips w) es"
  have sub: "set (fresh_addresses seen es) \<subseteq> set es" for seen
    by (induction seen es rule: fresh_addresses.induct) auto
  have "connectToPeers mem (length (compact es)) w = Inr (fold dial ?new w)"
    using connect_loop_dials [of w 0 mem es rest] assms
      connect_loop.simps [of mem "6 * length es" "6 * length es"] by (simp add: connectToPeers_def)
  then show ?thesis
    using fresh_addresses_distinct [of "known_ips w" es] fresh_addresses_set [of "known_ips w" es] sub
    by (intro exI [of _ "fold dial ?new w"], rule_tac exI [of _ ?new]) (auto simp: fold_dial)
qed

text \<open>
  An answer with one or two bytes left over after the entries makes the client read outside the
  string: the terminating zero is one byte, and the address needs four.
\<close>

lemma connectToPeers_trailing_bytes:
  assumes "peers_known w" and "info = compact es @ rest" and "rest \<noteq> []" and "length rest < 3"
  shows "connectToPeers (info @ [0]) (length info) w = Inl OutOfBounds"
proof -
  let ?i = "6 * length es" and ?w = "fold dial (fresh_addresses (known_ips w) es) w"
  have "connectToPeers (info @ [0]) (length info) w = connect_loop (info @ [0]) (length info) ?i ?w"
    using connect_loop_dials [of w 0 "info @ [0]" es "rest @ [0]" "length info"] assms
    by (simp add: connectToPeers_def)
  also have "\<dots> = Inl OutOfBounds"
  proof -
    have "readAsLE32 (drop ?i (info @ [0])) = None"
      using assms(2, 4) by (simp add: readAsLE32_None_iff)
    moreover have "\<not> length info \<le> ?i"
      using assms(2, 3) by simp
    ultimately show ?thesis
      by (simp add: connect_loop.simps [of "info @ [0]" "length info" ?i])
  qed
  finally show ?thesis .
qed

end
