(* ===== verification/Swarm_Steps.thy ===== *)
theory Swarm_Steps
  imports Handler_Safety Peer_Discovery
begin

text \<open>
  The client as a transition system.  A step is one handler run: the ones Boost.Asio runs on the
  network thread when an operation of a connection or of the acceptor ends, and what the main thread
  does to the peers and the acceptor: dialling, starting to accept, disconnecting all.  The mutexes of the program make these steps atomic towards
  each other as far as the containers of peers are concerned, and the model takes them as atomic.
\<close>

section \<open>The remaining handlers of the connection\<close>

text \<open>The resolver has answered: \<open>async_connect\<close> opens the socket.\<close>

definition on_resolved :: "nat \<Rightarrow> world \<Rightarrow> world" where
  "on_resolved pid = upd_conn pid (\<lambda>c. c\<lparr>socket_open := True, stage := Connecting\<rparr>)"

definition on_connect_done :: "u32 option \<Rightarrow> nat \<Rightarrow> world \<Rightarrow> world" where
  "on_connect_done a pid w =
     (let w1 = upd_conn pid (\<lambda>c. c\<lparr>remote := a, stage := NotConnecting\<rparr>) w
      in if connCB (conn_of w1 pid) then on_connected pid w1 else w1)"

text \<open>A resolve, connect or write that fails.\<close>

definition on_io_error :: "string \<Rightarrow> nat \<Rightarrow> world \<Rightarrow> world" where
  "on_io_error msg pid w = conn_handleError False msg pid (upd_conn pid (\<lambda>c. c\<lparr>stage := NotConnecting\<rparr>) w)"

section \<open>Starting the accept loop\<close>

text \<open>
  What \<open>Torrent::download\<close> does before its loop: make the acceptor if there is none, on port \<open>p\<close>, which may
  be refused, and start it.
\<close>

definition start_accepting :: "u16 \<Rightarrow> bool \<Rightarrow> world \<Rightarrow> world res" where
  "start_accepting p bound w =
     bind_res (if acceptor (tor w) = None then new_acceptor p bound (tor w) else Inr (tor w)) (\<lambda>t1.
     bind_res (initiateAsyncAcceptLoop t1) (\<lambda>t2. Inr (upd_tor (\<lambda>_. t2) w)))"

section \<open>Events and steps\<close>

datatype event =
    Accepted "u32 option"
  | Resolved nat
  | Connected nat "u32 option"
  | Received nat buffer
  | ReadFailed nat buffer string
  | IoFailed nat string
  | TrackerPeers buffer
  | StartAccepting u16 bool
  | DownloadDone

text \<open>
  When an event can happen: a read ends with exactly the bytes asked for, or fails after fewer; a
  connect needs to have been started; a write fails only where something was written.
\<close>

fun enabled :: "event \<Rightarrow> world \<Rightarrow> bool" where
  "enabled (Accepted a) w = (case acceptor (tor w) of None \<Rightarrow> False | Some x \<Rightarrow> started x)"
| "enabled (Resolved pid) w = (pid < nextPeer w \<and> stage (conn_of w pid) = Resolving)"
| "enabled (Connected pid a) w = (pid < nextPeer w \<and> stage (conn_of w pid) = Connecting)"
| "enabled (Received pid bytes) w =
     (pid < nextPeer w \<and> reading (conn_of w pid) = Some (of_nat (length bytes)) \<and> length bytes < 2 ^ 64)"
| "enabled (ReadFailed pid bytes msg) w =
     (pid < nextPeer w \<and> (case reading (conn_of w pid) of None \<Rightarrow> False | Some n \<Rightarrow> length bytes < unat n))"
| "enabled (IoFailed pid msg) w =
     (pid < nextPeer w \<and> (stage (conn_of w pid) \<noteq> NotConnecting \<or> sent (conn_of w pid) \<noteq> []))"
| "enabled (TrackerPeers info) w = True"
| "enabled (StartAccepting p bound) w = True"
| "enabled DownloadDone w = True"

fun client_step :: "env \<Rightarrow> event \<Rightarrow> world \<Rightarrow> world res" where
  "client_step env (Accepted a) w = Inr (on_accepted a w)"
| "client_step env (Resolved pid) w = Inr (on_resolved pid w)"
| "client_step env (Connected pid a) w = Inr (on_connect_done a pid w)"
| "client_step env (Received pid bytes) w = on_read env pid bytes w"
| "client_step env (ReadFailed pid bytes msg) w = Inr (on_read_error pid bytes msg w)"
| "client_step env (IoFailed pid msg) w = Inr (on_io_error msg pid w)"
| "client_step env (TrackerPeers info) w = connectToPeers (info @ [0]) (length info) w"
| "client_step env (StartAccepting p bound) w = start_accepting p bound w"
| "client_step env DownloadDone w = Inr (disconnectPeers w)"

inductive swarm_step :: "env \<Rightarrow> world \<Rightarrow> event \<Rightarrow> world \<Rightarrow> bool" where
  step: "enabled e w \<Longrightarrow> client_step env e w = Inr w' \<Longrightarrow> swarm_step env w e w'"

inductive_cases swarm_stepE: "swarm_step env w e w'"

inductive_simps swarm_step_iff: "swarm_step env w e w'"

section \<open>The invariant of the connections\<close>

text \<open>
  Beside the discipline of the reads: an open socket has no unread bytes between two steps, and a
  connection that is being resolved has no socket yet.
\<close>

definition conn_inv :: "connection \<Rightarrow> bool" where
  "conn_inv c \<longleftrightarrow>
     reading_ok c \<and> (socket_open c \<or> stage c = Resolving \<longrightarrow> inputStream c = []) \<and>
     (stage c = Resolving \<longrightarrow> \<not> socket_open c)"

definition conns_inv :: "world \<Rightarrow> bool" where
  "conns_inv w \<longleftrightarrow> (\<forall>q. conn_inv (conn_of w q))"

definition swarm_inv :: "env \<Rightarrow> world \<Rightarrow> bool" where
  "swarm_inv env w \<longleftrightarrow> client_inv env w \<and> conns_inv w \<and> peers_known w"

lemma swarm_invD:
  assumes "swarm_inv env w"
  shows "client_inv env w" "conns_inv w" "peers_known w"
  using assms by (simp_all add: swarm_inv_def)

lemma conns_invD: "conns_inv w \<Longrightarrow> conn_inv (conn_of w q)"
  by (simp add: conns_inv_def)

lemma conn_invD:
  assumes "conn_inv c"
  shows "reading_ok c" "socket_open c \<Longrightarrow> inputStream c = []" "stage c = Resolving \<Longrightarrow> inputStream c = []"
    "stage c = Resolving \<Longrightarrow> \<not> socket_open c" "reading c = Some n \<Longrightarrow> socket_open c"
  using assms by (auto simp: conn_inv_def reading_ok_def)

lemma reading_ok_more [simp]:
  "reading_ok (c\<lparr>stage := x\<rparr>) = reading_ok c" "reading_ok (c\<lparr>remote := y\<rparr>) = reading_ok c"
  by (simp_all add: reading_ok_def split: option.splits)

lemma conn_inv_simps [simp]:
  "conn_inv (c\<lparr>sent := x\<rparr>) = conn_inv c" "conn_inv (c\<lparr>errorCB := y\<rparr>) = conn_inv c"
  by (simp_all add: conn_inv_def)

lemma conns_inv_conn:
  "conns_inv w \<Longrightarrow> (conn_inv (conn_of w q) \<Longrightarrow> conn_inv (f (conn_of w q))) \<Longrightarrow> conns_inv (upd_conn q f w)"
  by (simp add: conns_inv_def)

lemma conns_inv_write: "conns_inv w \<Longrightarrow> conns_inv (conn_write b q w)"
  by (simp add: conn_write_def conns_inv_conn)

lemma conns_inv_close: "conns_inv w \<Longrightarrow> conns_inv (conn_close q w)"
  by (simp add: conn_close_def conns_inv_conn) (simp add: conns_inv_conn conn_inv_def)

lemma conns_inv_errcb: "conns_inv w \<Longrightarrow> conns_inv (setErrorCallback b q w)"
  by (simp add: setErrorCallback_def conns_inv_conn)

lemma conns_inv_disconnect: "conns_inv w \<Longrightarrow> conns_inv (peer_disconnect q w)"
  by (simp add: peer_disconnect_def conns_inv_errcb conns_inv_close)

lemma conns_inv_same: "conns_inv w \<Longrightarrow> (\<And>q. conn_of w' q = conn_of w q) \<Longrightarrow> conns_inv w'"
  by (simp add: conns_inv_def)

lemma conns_inv_handleError: "conns_inv w \<Longrightarrow> conns_inv (peer_handleError e q w)"
  unfolding peer_handleError_def by (intro conns_inv_disconnect) (erule conns_inv_same, simp)

lemma conns_inv_conn_handleError: "conns_inv w \<Longrightarrow> conns_inv (conn_handleError ab msg q w)"
  by (simp add: conn_handleError_def Let_def conns_inv_handleError conns_inv_close)

lemma conns_inv_read_handshake:
  "conns_inv w \<Longrightarrow> cb = Connect_handshake \<or> cb = Authenticate_handshake \<Longrightarrow> conns_inv (conn_read 68 cb q w)"
  by (auto simp: conn_read_def isConnected_def reading_ok_def conn_inv_def intro!: conns_inv_conn)

lemma conns_inv_fold_disconnect: "conns_inv w \<Longrightarrow> conns_inv (fold peer_disconnect ps w)"
  by (induction ps arbitrary: w) (simp_all add: conns_inv_disconnect)

section \<open>The steps keep the invariant\<close>

lemma swarm_inv_quiet:
  assumes "swarm_inv env w" "core w' = core w" "conns_inv w'"
    and "set (activePeers (tor w')) \<subseteq> set (activePeers (tor w))" "nextPeer w' = nextPeer w"
  shows "swarm_inv env w'"
  using assms client_inv_core [OF assms(2)] by (auto simp: swarm_inv_def peers_known_def)

lemma make_peer_inv:
  assumes "swarm_inv env w" "conn_inv c"
  shows "swarm_inv env (make_peer c w)"
proof -
  let ?w = "make_peer c w"
  have f: "tor ?w = tor w" "disk ?w = disk w" "nextPeer ?w = nextPeer w + 1" "accepted ?w = accepted w"
      "\<And>q. peers ?w q = (if q = nextPeer w then new_peer c else peers w q)"
    by (simp_all add: make_peer_def)
  have "queues_ok ?w"
    using client_invD(2) [OF swarm_invD(1) [OF assms(1)]] by (simp add: queues_ok_def f) (simp add: new_peer_def)
  moreover have "store_inv env ?w"
    using client_invD(1) [OF swarm_invD(1) [OF assms(1)]] by (simp add: store_inv_def data_ok_def full_length_def accepted_ok_def f)
  moreover have "conns_inv ?w"
    using assms(2) swarm_invD(2) [OF assms(1)] by (simp add: conns_inv_def f) (simp add: new_peer_def)
  moreover have "peers_known ?w"
    using swarm_invD(3) [OF assms(1)] by (auto simp: peers_known_def f)
  ultimately show ?thesis by (simp add: swarm_inv_def client_inv_def)
qed

lemma blacklist_inv:
  assumes "swarm_inv env w"
  shows "swarm_inv env (upd_tor (blacklist ip) w)"
proof (rule swarm_inv_quiet [OF assms])
  show "core (upd_tor (blacklist ip) w) = core w"
    by (rule core_eqI) (simp_all add: blacklist_def)
  show "conns_inv (upd_tor (blacklist ip) w)"
    using swarm_invD(2) [OF assms] by (rule conns_inv_same) simp
qed (simp_all add: blacklist_def)

lemma conn_read_regs [simp]:
  "tor (conn_read n cb pid w) = tor w" "nextPeer (conn_read n cb pid w) = nextPeer w"
  "tor (setErrorCallback b pid w) = tor w" "nextPeer (setErrorCallback b pid w) = nextPeer w"
  "tor (conn_connect h p pid w) = tor w" "nextPeer (conn_connect h p pid w) = nextPeer w"
  by (simp_all add: conn_read_def setErrorCallback_def conn_connect_def)

lemma on_accepted_inv:
  assumes "swarm_inv env w"
  shows "swarm_inv env (on_accepted a w)"
proof -
  have "conn_inv (new_connection\<lparr>socket_open := True, remote := a\<rparr>)"
    by (simp add: conn_inv_def new_connection_def reading_ok_def)
  note inv = blacklist_inv [OF make_peer_inv [OF assms this]]
  have *: "swarm_inv env (peer_authenticate pid v)" if v: "swarm_inv env v" for v pid
  proof (rule swarm_inv_quiet [OF v])
    show "core (peer_authenticate pid v) = core v"
      by (simp add: peer_authenticate_def setErrorCallback_def core_simps)
    show "conns_inv (peer_authenticate pid v)"
      unfolding peer_authenticate_def
      by (intro conns_inv_read_handshake conns_inv_errcb swarm_invD(2) [OF v]) simp
  qed (simp_all add: peer_authenticate_def)
  show ?thesis
    unfolding on_accepted_def Let_def by (rule * [OF inv])
qed

lemma new_connection_inv: "conn_inv new_connection"
  by (simp add: conn_inv_def new_connection_def reading_ok_def)

lemma peer_connect_inv:
  assumes "swarm_inv env w" "conn_of w pid = new_connection"
  shows "swarm_inv env (peer_connect h p pid w)"
proof (rule swarm_inv_quiet [OF assms(1)])
  show "core (peer_connect h p pid w) = core w"
    by (simp add: peer_connect_def conn_connect_def setErrorCallback_def core_simps)
  have "conn_inv (new_connection\<lparr>errorCB := True, connCB := True, dialled := Some (h, p), stage := Resolving\<rparr>)"
    by (simp add: conn_inv_def new_connection_def reading_ok_def)
  then show "conns_inv (peer_connect h p pid w)"
    unfolding peer_connect_def conn_connect_def setErrorCallback_def
    using swarm_invD(2) [OF assms(1)] assms(2) by (simp add: conns_inv_def)
qed (simp_all add: peer_connect_def)

lemma connect_loop_inv:
  assumes "OutOfBounds \<in> F \<or> 6 dvd sz - i \<and> sz \<le> length mem" "swarm_inv env w"
  shows "holds F (swarm_inv env) (connect_loop mem sz i w)"
  using assms
proof (induction mem sz i w rule: connect_loop.induct)
  case (1 mem sz i w)
  let ?w1 = "\<lambda>ip. upd_tor (blacklist ip) (make_peer new_connection w)"
  have "swarm_inv env (?w1 ip)" for ip
    by (intro blacklist_inv make_peer_inv "1.prems" new_connection_inv)
  then have dialled: "swarm_inv env (peer_connect h p (nextPeer w) (?w1 ip))" for h p ip
    by (rule peer_connect_inv) (simp add: make_peer_def new_peer_def)
  show ?case
  proof (cases "sz \<le> i")
    case True
    then show ?thesis
      using "1.prems" by (subst connect_loop.simps) simp
  next
    case False
    have six: "OutOfBounds \<in> F \<or> i + 6 \<le> sz \<and> sz \<le> length mem"
      using "1.prems"(1) False dvd_imp_le [of 6 "sz - i"] by auto
    have rest: "OutOfBounds \<in> F \<or> 6 dvd sz - (i + 6) \<and> sz \<le> length mem"
      using "1.prems"(1) by (metis diff_diff_left dvd_minus_self nat_le_linear)
    show ?thesis
    proof (cases "readAsLE32 (drop i mem)")
      case None
      with six False have "OutOfBounds \<in> F"
        by (auto simp: readAsLE32_None_iff)
      with None False show ?thesis
        by (subst connect_loop.simps) simp
    next
      case (Some ip)
      show ?thesis
      proof (cases "ip = 0 \<or> ip \<in> blackListed (tor w) \<or> list_ex (\<lambda>q. getRawIp w q = ip) (activePeers (tor w))")
        case True
        then show ?thesis
          using Some False "1.IH"(1, 2) [OF False, of ip] rest "1.prems"(2) by (subst connect_loop.simps) auto
      next
        case nf: False
        show ?thesis
        proof (cases "readAsBE16 (drop (i + 4) mem)")
          case None
          with six False have "OutOfBounds \<in> F"
            by (auto simp: readAsBE16_None_iff)
          with None False nf Some show ?thesis
            by (subst connect_loop.simps) (simp add: Let_def)
        next
          case (Some port)
          then show ?thesis
            using \<open>readAsLE32 _ = _\<close> False nf "1.IH"(3) [OF False, of ip] rest dialled
            by (subst connect_loop.simps) (simp add: Let_def)
        qed
      qed
    qed
  qed
qed

lemma connectToPeers_inv:
  assumes "swarm_inv env w"
  shows "holds (if 6 dvd length info then {} else {OutOfBounds}) (swarm_inv env)
    (connectToPeers (info @ [0]) (length info) w)"
  unfolding connectToPeers_def by (rule connect_loop_inv [OF _ assms]) simp

lemma on_connected_inv:
  assumes "swarm_inv env w"
  shows "swarm_inv env (on_connected pid w)"
  unfolding on_connected_def
  by (rule swarm_inv_quiet [OF assms])
    (simp_all add: core_simps conns_inv_read_handshake conns_inv_write swarm_invD(2) [OF assms])

lemma conn_field_inv:
  assumes "swarm_inv env w" "conn_inv (f (conn_of w pid))"
  shows "swarm_inv env (upd_conn pid f w)"
  by (rule swarm_inv_quiet [OF assms(1)])
    (simp_all add: core_simps conns_inv_conn swarm_invD(2) [OF assms(1)] assms(2))

lemma on_resolved_inv:
  assumes "swarm_inv env w" "stage (conn_of w pid) = Resolving"
  shows "swarm_inv env (on_resolved pid w)"
  unfolding on_resolved_def
  using conns_invD [OF swarm_invD(2) [OF assms(1)], of pid] assms(2)
  by (intro conn_field_inv [OF assms(1)]) (auto simp: conn_inv_def reading_ok_def split: option.splits)

lemma stage_inv: "conn_inv c \<Longrightarrow> conn_inv (c\<lparr>stage := NotConnecting\<rparr>)"
  by (auto simp: conn_inv_def)

lemma on_connect_done_inv:
  assumes "swarm_inv env w"
  shows "swarm_inv env (on_connect_done a pid w)"
proof -
  have "conn_inv ((conn_of w pid)\<lparr>remote := a, stage := NotConnecting\<rparr>)"
    using conns_invD [OF swarm_invD(2) [OF assms], of pid] by (auto simp: conn_inv_def)
  from conn_field_inv [OF assms, where f = "\<lambda>c. c\<lparr>remote := a, stage := NotConnecting\<rparr>", OF this]
  show ?thesis
    by (simp add: on_connect_done_def Let_def on_connected_inv)
qed

lemma conn_handleError_regs:
  "nextPeer (conn_handleError ab msg pid w) = nextPeer w"
  "set (activePeers (tor (conn_handleError ab msg pid w))) \<subseteq> set (activePeers (tor w))"
  by (auto simp: conn_handleError_def Let_def dest: subsetD [OF set_erase_first_subset])

lemma on_io_error_inv:
  assumes "swarm_inv env w"
  shows "swarm_inv env (on_io_error msg pid w)"
proof -
  have "swarm_inv env (upd_conn pid (\<lambda>c. c\<lparr>stage := NotConnecting\<rparr>) w)" (is "swarm_inv env ?w")
    using conns_invD [OF swarm_invD(2) [OF assms], of pid] by (intro conn_field_inv [OF assms] stage_inv)
  then show ?thesis
    unfolding on_io_error_def
    by (rule swarm_inv_quiet)
      (simp_all add: core_simps conns_inv_conn_handleError swarm_invD(2) [OF \<open>swarm_inv env ?w\<close>]
        conn_handleError_regs(1) conn_handleError_regs(2) [THEN subset_trans])
qed

lemma disconnectPeers_inv:
  assumes "swarm_inv env w"
  shows "swarm_inv env (disconnectPeers w)"
proof -
  let ?w = "if acceptor (tor w) = None then w else upd_tor acceptor_stop w"
  have "core ?w = core w"
    by (rule core_eqI) (simp_all add: acceptor_stop_def)
  moreover have "conns_inv ?w"
    using swarm_invD(2) [OF assms] by (rule conns_inv_same) simp
  ultimately have w: "swarm_inv env ?w"
    by (rule swarm_inv_quiet [OF assms]) (simp_all add: acceptor_stop_def)
  have "nextPeer (fold peer_disconnect ps v) = nextPeer v" for ps v
    by (induction ps arbitrary: v) simp_all
  then show ?thesis
    unfolding disconnectPeers_def Let_def
    by (intro swarm_inv_quiet [OF w])
      (simp_all add: core_simps conns_inv_fold_disconnect fold_disconnect swarm_invD(2) [OF w])
qed

lemma start_accepting_run:
  "start_accepting p bound w =
     (if acceptor (tor w) = None \<and> \<not> bound then Inl (Uncaught ''boost::system::system_error'') else Inr (upd_tor (listen p) w))"
  by (auto simp: start_accepting_def initiateAsyncAcceptLoop_def new_acceptor_def listen_def upd_tor_def split: option.splits)

lemma start_accepting_inv:
  assumes "swarm_inv env w"
  shows "holds (if acceptor (tor w) = None \<and> \<not> bound then {Uncaught ''boost::system::system_error''} else {})
    (swarm_inv env) (start_accepting p bound w)"
proof -
  have "core (upd_tor (listen p) w) = core w"
    by (rule core_eqI) simp_all
  moreover have "conns_inv (upd_tor (listen p) w)"
    using swarm_invD(2) [OF assms] by (rule conns_inv_same) simp
  ultimately show ?thesis
    by (auto simp: start_accepting_run swarm_inv_quiet [OF assms])
qed

section \<open>Receiving\<close>

lemma holds_conj: "holds F P r \<Longrightarrow> holds UNIV Q r \<Longrightarrow> holds F (\<lambda>x. P x \<and> Q x) r"
  by (cases r) simp_all

text \<open>The faults the bytes received for a callback may lead to.\<close>

definition read_faults :: "read_cb \<Rightarrow> buffer \<Rightarrow> fault set" where
  "read_faults cb bytes = (if cb = Handle_body \<and> bytes \<noteq> [] then message_faults (hd bytes) else {})"

text \<open>What the bytes must be like for the callback: what the discipline of the reads guarantees.\<close>

definition read_size_ok :: "read_cb \<Rightarrow> nat \<Rightarrow> bool" where
  "read_size_ok cb n \<longleftrightarrow>
     n < 2 ^ 64 \<and> (case cb of Handle \<Rightarrow> n = 4 | Handle_body \<Rightarrow> n \<noteq> 0 | _ \<Rightarrow> n = 68)"

lemma core_on_connect_handshake: "core (on_connect_handshake pid data sz w) = core w"
  by (simp add: on_connect_handshake_def core_simps)

lemma core_on_authenticate_handshake:
  "holds F (\<lambda>w'. core w' = core w) (on_authenticate_handshake pid data sz w)"
  by (simp add: on_authenticate_handshake_def core_simps sendBitfield_encode Let_def)

lemma core_peer_handle: "4 \<le> length data \<Longrightarrow> holds F (\<lambda>w'. core w' = core w) (peer_handle pid data sz w)"
  by (cases "readAsBE32 data") (auto simp: peer_handle_def core_simps readAsBE32_None_iff)

lemma msg_ok_body:
  assumes "bytes \<noteq> []" "length bytes < 2 ^ 64"
  shows "msg_ok (IncomingMessage (drop 1 bytes) (of_nat (length bytes) - 1))"
proof -
  have "(of_nat (length bytes) - 1 :: u64) = of_nat (length bytes - 1)"
    using assms(1) by (cases bytes) simp_all
  then have "unat (of_nat (length bytes) - 1 :: u64) = length bytes - 1"
    using assms(2) by (simp add: unat_of_nat_u64)
  then show ?thesis
    by (simp add: msg_ok_def IncomingMessage_def)
qed

lemma run_read_cb_client:
  assumes "client_inv env w" "read_size_ok cb (length bytes)"
  shows "holds (read_faults cb bytes) (client_inv env) (run_read_cb env cb pid bytes (length bytes) w)"
proof -
  have keep: "holds F (client_inv env) r" if "holds F (\<lambda>w'. core w' = core w) r" for F r
    using that by (rule holds_mono) (simp add: assms(1) client_inv_core [of _ w])
  show ?thesis
  proof (cases cb)
    case Connect_handshake
    then show ?thesis
      using keep [of "{}" "Inr (on_connect_handshake pid bytes (length bytes) w)"]
      by (simp add: run_read_cb_def read_faults_def core_on_connect_handshake)
  next
    case Authenticate_handshake
    then show ?thesis
      using keep [OF core_on_authenticate_handshake] by (simp add: run_read_cb_def read_faults_def)
  next
    case Handle
    then show ?thesis
      using keep [OF core_peer_handle] assms(2) by (simp add: run_read_cb_def read_faults_def read_size_ok_def)
  next
    case Handle_body
    then have b: "bytes \<noteq> []" "length bytes < 2 ^ 64"
      using assms(2) by (auto simp: read_size_ok_def)
    then have "peek bytes 0 = Some (hd bytes)"
      by (simp add: peek_def hd_conv_nth)
    then show ?thesis
      using Handle_body b(1) handleMessage_keeps_inv [OF assms(1) msg_ok_body [OF b]]
      by (simp add: run_read_cb_def read_faults_def on_body_def)
  qed
qed

text \<open>After the callback the bytes are consumed, and the connections are as they should be.\<close>

lemma finish_conns:
  assumes "conns_inv w" "isolated pid w1 w2"
    and w1: "w1 = upd_conn pid (\<lambda>c. c\<lparr>inputStream := bytes, reading := None\<rparr>) w"
    and net: "net_ok (\<lambda>q. inputStream (conn_of w1 q)) w2"
  shows "conns_inv (upd_conn pid (\<lambda>c. c\<lparr>inputStream := drop (length bytes) (inputStream c)\<rparr>) w2)"
proof -
  have "conn_inv (conn_of w2 q)" if "q \<noteq> pid" for q
    using conns_invD [OF assms(1), of q] assms(2) net that
    by (auto simp: w1 conn_inv_def net_ok_def isolated_def isConnected_def)
  moreover have "conn_inv ((conn_of w2 pid)\<lparr>inputStream := []\<rparr>)"
  proof -
    have "reading_ok (conn_of w2 pid)"
      using net by (simp add: net_ok_def)
    then have "reading_ok ((conn_of w2 pid)\<lparr>inputStream := []\<rparr>)"
      by (simp add: reading_ok_def split: option.splits)
    moreover have "stage (conn_of w2 pid) = Resolving \<Longrightarrow> \<not> socket_open (conn_of w2 pid)"
      using conns_invD [OF assms(1), of pid] assms(2)
      by (auto simp: w1 conn_inv_def isolated_def isConnected_def)
    ultimately show ?thesis by (simp add: conn_inv_def)
  qed
  moreover have "inputStream (conn_of w2 pid) = bytes"
    using net by (simp add: net_ok_def w1)
  ultimately show ?thesis
    by (simp add: conns_inv_def)
qed

lemma on_read_inv:
  assumes inv: "swarm_inv env w" and en: "enabled (Received pid bytes) w"
  shows "holds (case readCB (conn_of w pid) of None \<Rightarrow> {} | Some cb \<Rightarrow> read_faults cb bytes)
    (swarm_inv env) (on_read env pid bytes w)"
proof -
  let ?c = "conn_of w pid"
  let ?w1 = "upd_conn pid (\<lambda>c. c\<lparr>inputStream := bytes, reading := None\<rparr>) w"
  let ?S = "\<lambda>q. inputStream (conn_of ?w1 q)"
  let ?fin = "upd_conn pid (\<lambda>c. c\<lparr>inputStream := drop (length bytes) (inputStream c)\<rparr>)"
  have rd: "reading ?c = Some (of_nat (length bytes))" and len: "length bytes < 18446744073709551616"
    and pid: "pid < nextPeer w"
    using en by simp_all
  note c = conn_invD [OF conns_invD [OF swarm_invD(2) [OF inv], of pid]]
  have empty: "inputStream ?c = []"
    using c(2, 5) rd by blast
  have w1: "upd_conn pid (\<lambda>c. c\<lparr>inputStream := inputStream c @ bytes, reading := None\<rparr>) w = ?w1"
    using empty by (simp add: upd_conn_def upd_peer_def)
  obtain cb where cb: "readCB ?c = Some cb" "read_size_ok cb (length bytes)"
    using c(1) rd unat_of_nat_u64 [OF len]
    by (auto simp: reading_ok_def read_size_ok_def len split: option.splits read_cb.splits)
      (use arg_cong [of _ _ unat] in \<open>cases bytes; fastforce\<close>)+
  have "net_ok ?S ?w1"
    using conns_invD [OF swarm_invD(2) [OF inv]] by (simp add: net_ok_def conn_inv_def)
  from nf.P_run_read_cb [OF this] have net: "holds UNIV (net_ok ?S) (run_read_cb env cb pid bytes (length bytes) ?w1)" .
  have iso: "holds UNIV (isolated pid ?w1) (run_read_cb env cb pid bytes (length bytes) ?w1)"
    by (rule iso.P_run_read_cb [OF isolated_refl])
  have "known_with pid ?w1"
    using swarm_invD(3) [OF inv] pid by (simp add: known_with_def peers_known_def)
  note kn = kn.P_run_read_cb [OF this]
  have "client_inv env ?w1"
    using swarm_invD(1) [OF inv] client_inv_core [OF core_upd_conn] by blast
  from holds_conj [OF run_read_cb_client [OF this cb(2)] holds_conj [OF net holds_conj [OF iso kn]]]
  have "holds (read_faults cb bytes) (\<lambda>w2. swarm_inv env (?fin w2)) (run_read_cb env cb pid bytes (length bytes) ?w1)"
  proof (rule holds_mono, elim conjE)
    fix w2 assume h: "client_inv env w2" "net_ok ?S w2" "isolated pid ?w1 w2" "known_with pid w2"
    have "client_inv env (?fin w2)"
      using h(1) client_inv_core [OF core_upd_conn] by blast
    then show "swarm_inv env (?fin w2)"
      using finish_conns [OF swarm_invD(2) [OF inv] h(3) refl h(2)] h(4)
      by (simp add: swarm_inv_def known_with_def peers_known_def)
  qed
  then show ?thesis
    using cb(1) by (simp add: on_read_def w1 Let_def)
qed

text \<open>A read concerns the connection it was made on.\<close>

lemma on_read_isolated:
  assumes "on_read env pid bytes w = Inr w'"
  shows "isolated pid w w'"
proof -
  let ?w1 = "upd_conn pid (\<lambda>c. c\<lparr>inputStream := inputStream c @ bytes, reading := None\<rparr>) w"
  have w1: "isolated pid w ?w1"
    by (rule isolated_conn [OF isolated_refl]) simp_all
  have fin: "isolated pid w (upd_conn pid (\<lambda>c. c\<lparr>inputStream := drop n (inputStream c)\<rparr>) v)" if "isolated pid w v" for n v
    using that by (rule isolated_conn) simp_all
  show ?thesis
  proof (cases "readCB (conn_of ?w1 pid)")
    case None
    then show ?thesis
      using assms fin [OF w1] by (auto simp: on_read_def Let_def)
  next
    case (Some cb)
    then obtain v where "run_read_cb env cb pid (inputStream (conn_of ?w1 pid)) (length bytes) ?w1 = Inr v"
        "w' = upd_conn pid (\<lambda>c. c\<lparr>inputStream := drop (length bytes) (inputStream c)\<rparr>) v"
      using assms by (auto simp: on_read_def Let_def bind_res_def split: sum.splits)
    then show ?thesis
      using iso.P_run_read_cb [OF w1, of env cb "inputStream (conn_of ?w1 pid)" "length bytes"] fin by simp
  qed
qed

lemma on_read_error_inv:
  assumes inv: "swarm_inv env w" and "reading (conn_of w pid) \<noteq> None"
  shows "swarm_inv env (on_read_error pid bytes msg w)"
proof (rule swarm_inv_quiet [OF inv])
  let ?w1 = "upd_conn pid (\<lambda>c. c\<lparr>inputStream := inputStream c @ bytes, reading := None\<rparr>) w"
  show "core (on_read_error pid bytes msg w) = core w"
    by (simp add: on_read_error_def core_simps)
  show "set (activePeers (tor (on_read_error pid bytes msg w))) \<subseteq> set (activePeers (tor w))"
    "nextPeer (on_read_error pid bytes msg w) = nextPeer w"
    using conn_handleError_regs [of False msg pid ?w1] by (simp_all add: on_read_error_def)
  have open_pid: "socket_open (conn_of w pid)"
    using conn_invD(5) [OF conns_invD [OF swarm_invD(2) [OF inv]]] assms(2) by blast
  have "conn_inv (conn_of (on_read_error pid bytes msg w) q)" if "q \<noteq> pid" for q
    using conns_invD [OF swarm_invD(2) [OF inv], of q] that
    by (simp add: on_read_error_def conn_handleError_def Let_def peer_handleError_def peer_disconnect_def
        setErrorCallback_def conn_close_def)
  moreover have "conn_inv (conn_of (on_read_error pid bytes msg w) pid)"
    using open_pid
    by (simp add: on_read_error_def conn_handleError_def Let_def peer_handleError_def peer_disconnect_def
        setErrorCallback_def conn_close_def isConnected_def) (simp add: conn_inv_def reading_ok_def)
  ultimately show "conns_inv (on_read_error pid bytes msg w)"
    unfolding conns_inv_def by metis
qed

section \<open>Every step\<close>

text \<open>The faults an event can end in.\<close>

fun event_faults :: "event \<Rightarrow> world \<Rightarrow> fault set" where
  "event_faults (Received pid bytes) w =
     (case readCB (conn_of w pid) of None \<Rightarrow> {} | Some cb \<Rightarrow> read_faults cb bytes)"
| "event_faults (TrackerPeers info) w = (if 6 dvd length info then {} else {OutOfBounds})"
| "event_faults (StartAccepting p bound) w =
     (if acceptor (tor w) = None \<and> \<not> bound then {Uncaught ''boost::system::system_error''} else {})"
| "event_faults e w = {}"

lemma client_step_inv:
  assumes "swarm_inv env w" "enabled e w"
  shows "holds (event_faults e w) (swarm_inv env) (client_step env e w)"
proof (cases e)
  case (Received pid bytes)
  then show ?thesis
    using on_read_inv [OF assms(1)] assms(2) by (simp del: enabled.simps)
next
  case (ReadFailed pid bytes msg)
  then show ?thesis
    using on_read_error_inv [OF assms(1), of pid] assms(2) by (auto split: option.splits)
next
  case (TrackerPeers info)
  then show ?thesis
    using connectToPeers_inv [OF assms(1)] by simp
qed (use assms in \<open>simp_all add: on_accepted_inv on_resolved_inv on_connect_done_inv on_io_error_inv
      disconnectPeers_inv start_accepting_inv\<close>)

section \<open>Runs\<close>

text \<open>
  A run is a finite sequence of steps; the locale lifts what every step keeps to the runs.
\<close>

inductive run :: "('s \<Rightarrow> 'e \<Rightarrow> 's \<Rightarrow> bool) \<Rightarrow> 's \<Rightarrow> 'e list \<Rightarrow> 's \<Rightarrow> bool" for stp where
  run_nil: "run stp s [] s"
| run_snoc: "run stp s es s' \<Longrightarrow> stp s' e s'' \<Longrightarrow> run stp s (es @ [e]) s''"

locale kept_by_steps =
  fixes stp :: "'s \<Rightarrow> 'e \<Rightarrow> 's \<Rightarrow> bool" and I :: "'s \<Rightarrow> bool"
  assumes keeps: "stp s e s' \<Longrightarrow> I s \<Longrightarrow> I s'"
begin

lemma run_keeps: "run stp s es s' \<Longrightarrow> I s \<Longrightarrow> I s'"
  by (induction rule: run.induct) (auto dest: keeps)

end

interpretation sw: kept_by_steps "swarm_step env" "swarm_inv env" for env
proof
  fix w e w' assume "swarm_step env w e w'" "swarm_inv env w"
  then show "swarm_inv env w'"
    using client_step_inv [of env w e] by (auto elim!: swarm_stepE)
qed

text \<open>
  Everything but a received read leaves the pieces, the sizes, the file and the accepted data alone.
\<close>

definition store_view :: "world \<Rightarrow> tpiece list \<times> (u64 \<times> u64 \<times> u64 \<times> string \<times> buffer \<times> buffer) \<times> buffer \<times> (nat \<times> buffer) list" where
  "store_view w = (pieces (tor w), fixed (tor w), contents (disk w), accepted w)"

lemma connect_loop_view:
  "holds UNIV (\<lambda>w'. store_view w' = store_view w \<and> acceptor (tor w') = acceptor (tor w)) (connect_loop mem sz i w)"
proof (induction mem sz i w rule: connect_loop.induct)
  case (1 mem sz i w)
  have d: "store_view (peer_connect h p q (upd_tor (blacklist ip) (make_peer c w))) = store_view w"
      "acceptor (tor (peer_connect h p q (upd_tor (blacklist ip) (make_peer c w)))) = acceptor (tor w)" for h p q ip c
    by (simp_all add: store_view_def peer_connect_def blacklist_def make_peer_def fixed_def conn_connect_def setErrorCallback_def)
  show ?case
  proof (cases "readAsLE32 (drop i mem)")
    case None
    then show ?thesis by (subst connect_loop.simps) simp
  next
    case (Some ip)
    show ?thesis
    proof (cases "readAsBE16 (drop (i + 4) mem)")
      case None
      with Some "1.IH"(1, 2) [of ip] show ?thesis
        by (subst connect_loop.simps) (simp add: Let_def)
    next
      case (Some port)
      with \<open>readAsLE32 _ = _\<close> "1.IH"(1, 2) [of ip] "1.IH"(3) [of ip "nextPeer w" "upd_tor (blacklist ip) (make_peer new_connection w)" port]
      show ?thesis
        by (subst connect_loop.simps) (simp add: Let_def d)
    qed
  qed
qed

lemma conn_handleError_view: "store_view (conn_handleError ab msg pid w) = store_view w"
  by (simp add: store_view_def conn_handleError_def Let_def fixed_def peer_handleError_def removePeer_def)

lemma on_connected_view: "store_view (on_connected pid w) = store_view w"
  by (simp add: store_view_def on_connected_def fixed_def conn_read_def)

lemma client_step_view:
  assumes "client_step env e w = Inr w'" "\<And>pid bytes. e \<noteq> Received pid bytes"
  shows "store_view w' = store_view w"
proof (cases e)
  case (Accepted a)
  with assms(1) show ?thesis
    by (auto simp: on_accepted_def peer_authenticate_def make_peer_def blacklist_def Let_def store_view_def fixed_def
        conn_read_def setErrorCallback_def)
next
  case (Connected pid a)
  with assms(1) show ?thesis
    by (auto simp: on_connect_done_def Let_def on_connected_view) (auto simp: store_view_def)
next
  case (ReadFailed pid bytes msg)
  with assms(1) show ?thesis
    by (auto simp: on_read_error_def conn_handleError_view) (auto simp: store_view_def)
next
  case (IoFailed pid msg)
  with assms(1) show ?thesis
    by (auto simp: on_io_error_def conn_handleError_view) (auto simp: store_view_def)
next
  case (TrackerPeers info)
  with assms(1) show ?thesis
    using connect_loop_view [of w "info @ [0]" "length info" 0] by (simp add: connectToPeers_def)
next
  case (StartAccepting p bound)
  with assms(1) show ?thesis
    by (auto simp: start_accepting_run store_view_def fixed_def split: if_splits)
next
  case DownloadDone
  have "contents (disk (fold peer_disconnect ps v)) = contents (disk v)" "accepted (fold peer_disconnect ps v) = accepted v" for ps v
    using core_fold_disconnect [of ps v] by (simp_all add: core_def)
  with DownloadDone assms(1) show ?thesis
    by (auto simp: disconnectPeers_def Let_def fold_disconnect acceptor_stop_def store_view_def fixed_def)
qed (use assms in \<open>auto simp: on_resolved_def store_view_def\<close>)

text \<open>
  A property of what is stored, kept by the effects of the handlers, is kept by every step.
\<close>

locale store_kept =
  fixes P :: "world \<Rightarrow> bool"
  assumes frame: "peer_frame P pid"
    and view: "P w \<Longrightarrow> store_view w' = store_view w \<Longrightarrow> P w'"
begin

lemma view_conn: "P w \<Longrightarrow> P (upd_conn q f w)"
  by (erule view) (simp add: store_view_def)

lemma read_keeps:
  assumes "P w"
  shows "holds UNIV P (on_read env pid bytes w)"
proof -
  let ?w1 = "upd_conn pid (\<lambda>c. c\<lparr>inputStream := inputStream c @ bytes, reading := None\<rparr>) w"
  have "holds UNIV (\<lambda>v. P (upd_conn pid (\<lambda>c. c\<lparr>inputStream := drop (length bytes) (inputStream c)\<rparr>) v))
      (run_read_cb env cb pid data sz ?w1)" for cb data sz
    using peer_frame.P_run_read_cb [OF frame view_conn [OF assms]] by (rule holds_mono) (rule view_conn)
  then show ?thesis
    using assms by (simp add: on_read_def Let_def view_conn split: option.splits)
qed

lemma step_keeps:
  assumes "P w" "client_step env e w = Inr w'"
  shows "P w'"
proof (cases "\<exists>pid bytes. e = Received pid bytes")
  case True
  then obtain pid bytes where "e = Received pid bytes"
    by blast
  then show ?thesis
    using read_keeps [OF assms(1), of env pid bytes] assms(2) by simp
next
  case False
  then show ?thesis
    using client_step_view [OF assms(2)] by (intro view [OF assms(1)]) simp
qed

end

sublocale store_kept \<subseteq> kept_by_steps "swarm_step env" P for env
  by unfold_locales (auto elim!: swarm_stepE dest: step_keeps)

text \<open>The torrent only progresses.\<close>

interpretation prog: store_kept "\<lambda>w. progressed t0 (tor w)" for t0
  by unfold_locales (auto simp: store_view_def intro: progressed_same)

text \<open>The list of the accepted data only grows.\<close>

definition grown :: "(nat \<times> buffer) list \<Rightarrow> world \<Rightarrow> bool" where
  "grown xs w \<longleftrightarrow> (\<exists>ys. accepted w = xs @ ys)"

lemma grown_same: "grown xs w \<Longrightarrow> accepted w' = accepted w \<Longrightarrow> grown xs w'"
  by (simp add: grown_def)

lemma grown_store: "grown xs w \<Longrightarrow> grown xs (w\<lparr>disk := s, accepted := accepted w @ [(i, d)]\<rparr>)"
  by (auto simp: grown_def)

interpretation grow: peer_frame "grown xs" pid for pid xs
  by unfold_locales
    ((rule grown_store; assumption) | (erule grown_same; simp add: conn_read_def setErrorCallback_def))+

interpretation grow_run: store_kept "grown xs" for xs
  by unfold_locales (auto simp: store_view_def intro: grown_same)

text \<open>Of the steps, only the two operations on the acceptor touch it.\<close>

lemma client_step_acceptor:
  assumes "client_step env e w = Inr w'" "\<And>p bound. e \<noteq> StartAccepting p bound" "e \<noteq> DownloadDone"
  shows "acceptor (tor w') = acceptor (tor w)"
proof (cases e)
  case (Received pid bytes)
  let ?w1 = "upd_conn pid (\<lambda>c. c\<lparr>inputStream := inputStream c @ bytes, reading := None\<rparr>) w"
  have "acceptor (tor v) = acceptor (tor w)" if "run_read_cb env cb pid data sz ?w1 = Inr v" for cb data sz v
    using ac.P_run_read_cb [of ?w1 "acceptor (tor w)" env cb pid data sz] that by simp
  with Received assms(1) show ?thesis
    by (auto simp: on_read_def Let_def split: option.splits)
next
  case (Accepted a)
  with assms(1) show ?thesis
    by (auto simp: on_accepted_def peer_authenticate_def make_peer_def blacklist_def Let_def conn_read_def setErrorCallback_def)
next
  case (TrackerPeers info)
  with assms(1) show ?thesis
    using connect_loop_view [of w "info @ [0]" "length info" 0] by (simp add: connectToPeers_def)
qed (use assms in \<open>auto simp: on_resolved_def on_connect_done_def on_connected_def on_read_error_def on_io_error_def Let_def
      conn_handleError_def peer_handleError_def removePeer_def conn_read_def\<close>)

section \<open>The file beyond the torrent\<close>

text \<open>
  The download file is never truncated, and no piece that has its length reaches beyond the total size:
  what a longer file \<open>c\<close> had there when it was opened stays.
\<close>

definition tail_kept :: "buffer \<Rightarrow> world \<Rightarrow> bool" where
  "tail_kept c w \<longleftrightarrow> wf_sizes (tor w) \<and> offsets_fit (tor w) \<and>
     (full_length w \<longrightarrow> drop (unat (totalSize (tor w))) (contents (disk w)) = drop (unat (totalSize (tor w))) c)"

lemma tail_kept_same:
  assumes "tail_kept c w" "length (pieces (tor w')) = length (pieces (tor w))" "fixed (tor w') = fixed (tor w)"
    and "contents (disk w') = contents (disk w)" "accepted w' = accepted w"
  shows "tail_kept c w'"
proof -
  have s: "same_sizes (tor w') (tor w)"
    using assms(2, 3) by (simp add: same_sizes_def fixed_def)
  have "wf_sizes (tor w') = wf_sizes (tor w)" "offsets_fit (tor w') = offsets_fit (tor w)"
    using assms(2, 3) by (auto simp: wf_sizes_def offsets_fit_def fixed_def)
  moreover have "full_length w' = full_length w"
    using same_sizesD(4) [OF s] assms(5) by (simp add: full_length_def)
  ultimately show ?thesis
    using assms(1, 3, 4) by (simp add: tail_kept_def fixed_def)
qed

lemma drop_write_at: "off + length d \<le> n \<Longrightarrow> drop n (write_at off d c) = drop n c"
  by (rule nth_equalityI) (auto simp: length_write_at nth_write_at)

lemma tail_kept_store:
  assumes "tail_kept c w" "i < length (pieces (tor w))"
    and "contents s = write_at (unat (of_nat i * pieceLength (tor w) - fbegin (tfile (tor w)))) d (contents (disk w))"
  shows "tail_kept c (w\<lparr>disk := s, accepted := accepted w @ [(i, d)]\<rparr>)"
proof -
  let ?t = "tor w"
  note t = assms(1) [unfolded tail_kept_def]
  have b: "piece_begin ?t i < unat (totalSize ?t)" "piece_end ?t i \<le> unat (totalSize ?t)"
    using piece_begin_less [of ?t i] piece_end_le [of ?t i] t assms(2) by simp_all
  have "of_nat i * pieceLength ?t = of_nat (piece_begin ?t i)"
    by (simp add: piece_begin_def)
  moreover have "piece_begin ?t i < 18446744073709551616"
    using b(1) unat_u64_less [of "totalSize ?t"] by linarith
  ultimately have off: "unat (of_nat i * pieceLength ?t - fbegin (tfile ?t)) = piece_begin ?t i"
    using t by (simp add: offsets_fit_def unat_of_nat_u64)
  have "drop (unat (totalSize ?t)) (contents s) = drop (unat (totalSize ?t)) (contents (disk w))" if "length d = piece_len ?t i"
    unfolding assms(3) off using b piece_begin_le_end [of ?t i] t assms(2) that
    by (intro drop_write_at) (simp add: piece_len_def)
  then show ?thesis
    using t by (auto simp: tail_kept_def full_length_def)
qed

lemma tail_kept_tor:
  assumes "tail_kept c w" "tor_step pid (tor w) (f (tor w))"
  shows "tail_kept c (upd_tor f w)"
proof (rule tail_kept_same [OF assms(1)])
  show "length (pieces (tor (upd_tor f w))) = length (pieces (tor w))"
    using assms(2) map_eq_imp_length_eq [of hash "pieces (f (tor w))" hash "pieces (tor w)"] by (simp add: tor_step_def tor_grows_def)
qed (use assms(2) in \<open>simp_all add: tor_step_def tor_grows_def\<close>)

interpretation keep: peer_frame "tail_kept c" pid for pid c
  by unfold_locales
    ((rule tail_kept_tor tail_kept_store; assumption) | (erule tail_kept_same; simp add: conn_read_def setErrorCallback_def))+

interpretation tail: store_kept "tail_kept c" for c
  by unfold_locales (auto simp: store_view_def intro: tail_kept_same)

end
