(* ===== verification/Metainfo.thy ===== *)
theory Metainfo
  imports Swarm_Steps
begin

text \<open>
  The constructor of \<open>Torrent\<close> and \<open>Torrent::parseFile\<close> (\<open>src/torrent/torrent.cpp\<close>): from the torrent
  file to the initial state of the client.  The bencoding library is linked as a binary; its decoder
  and encoder are parameters, and its items are the classes of its headers: \<open>operator[]\<close> of a dictionary
  yields a null pointer for a missing key, \<open>as<T>\<close> one for an item of another class, and \<open>decode\<close> throws
  on malformed data.
\<close>

section \<open>The bencoding library\<close>

datatype bitem = BInteger u64 | BString string | BList "bitem list" | BDictionary "(string \<times> bitem) list"

record bencoding =
  decode :: "string \<Rightarrow> bitem option"
  encode :: "bitem \<Rightarrow> string"

definition dict_at :: "(string \<times> bitem) list \<Rightarrow> string \<Rightarrow> bitem option" where
  "dict_at d k = map_of d k"

text \<open>\<open>item->as<T>()\<close> and then a member of the result: both pointers have to be set.\<close>

definition as_dictionary :: "bitem option \<Rightarrow> (string \<times> bitem) list res" where
  "as_dictionary b = (case b of Some (BDictionary d) \<Rightarrow> Inr d | _ \<Rightarrow> Inl NullDeref)"

definition as_string :: "bitem option \<Rightarrow> string res" where
  "as_string b = (case b of Some (BString s) \<Rightarrow> Inr s | _ \<Rightarrow> Inl NullDeref)"

definition as_integer :: "bitem option \<Rightarrow> u64 res" where
  "as_integer b = (case b of Some (BInteger v) \<Rightarrow> Inr v | _ \<Rightarrow> Inl NullDeref)"

definition decode_item :: "bencoding \<Rightarrow> string \<Rightarrow> bitem res" where
  "decode_item lib s =
     (case decode lib s of None \<Rightarrow> Inl (Uncaught ''bencoding::DecodingError'') | Some b \<Rightarrow> Inr b)"

text \<open>
  The file system: the contents of the torrent file, if it can be opened; those of the download file,
  if it exists; whether \<open>fopen\<close> of the latter succeeds.
\<close>

record file_system =
  torrent_file :: "string option"
  download_file :: "buffer option"
  fopen_ok :: bool

section \<open>Torrent::Torrent\<close>

definition Torrent :: torrent where
  "Torrent =
     \<lparr>acceptor = None, activePeers = [], blackListed = {}, pieces = [],
      tfile = \<lparr>path = '''', fp = False, fbegin = 0, flength = 0\<rparr>,
      bitfield = [], completedPieces = 0, uploadedBytes = 0, downloadedBytes = 0, wastedBytes = 0,
      pieceHashMisses = 0, pieceLength = 0, totalSize = 0, name = '''', mainTrackerUrl = '''',
      downloadDir = '''', handshake = replicate 68 0, ownPeerId = replicate 20 0\<rparr>"

section \<open>Torrent::parseFile\<close>

datatype ParseResult = SUCCESS | CORRUPTED_FILE | FAILED_TO_OPEN

definition to_bytes :: "string \<Rightarrow> buffer" where
  "to_bytes s = map of_char s"

definition peer_id_bytes :: buffer where
  "peer_id_bytes = to_bytes ''-YT00000000000000000''"

definition make_handshake :: "buffer \<Rightarrow> buffer" where
  "make_handshake checkSum = 19 # to_bytes ''BitTorrent protocol'' @ replicate 8 0 @ checkSum @ peer_id_bytes"

text \<open>The loop over the hashes: \<open>mem\<close> is what \<open>c_str()\<close> points to, with its terminating zero.\<close>

function pieces_loop :: "buffer \<Rightarrow> nat \<Rightarrow> nat \<Rightarrow> tpiece list \<Rightarrow> tpiece list res" where
  "pieces_loop mem sz i ps =
     (if sz \<le> i then Inr ps
      else if length mem < i + 20 then Inl OutOfBounds
      else pieces_loop mem sz (i + 20)
             (ps @ [\<lparr>finished = False, priority = 0, hash = take 20 (drop i mem)\<rparr>]))"
  by pat_completeness auto
termination
  by (relation "measure (\<lambda>(mem, sz, i, ps). sz - i)") auto

declare pieces_loop.simps [simp del]

text \<open>Opening or creating the download file, after the metadata has been read.\<close>

text \<open>\<open>stat\<close> of the download file succeeds.\<close>

definition nodeExists :: "file_system \<Rightarrow> bool" where
  "nodeExists fs \<longleftrightarrow> download_file fs \<noteq> None"

definition open_download :: "file_system \<Rightarrow> (string \<times> bitem) list \<Rightarrow> torrent \<Rightarrow> (ParseResult \<times> torrent \<times> stream) res" where
  "open_download fs infoDict t =
     bind_res (as_integer (dict_at infoDict ''length'')) (\<lambda>len.
       let failed = (FAILED_TO_OPEN, t, \<lparr>contents = [], fpos = 0\<rparr>);
           success = (\<lambda>c. (SUCCESS,
             t\<lparr>totalSize := len, tfile := \<lparr>path = '''', fp = True, fbegin = 0, flength = 0\<rparr>\<rparr>, \<lparr>contents = c, fpos = 0\<rparr>))
       in if \<not> nodeExists fs then Inr (if \<not> fopen_ok fs then failed else success [])
          else Inr (if \<not> fopen_ok fs then failed
                    else success (case download_file fs of None \<Rightarrow> [] | Some c \<Rightarrow> c)))"

lemma open_download_run:
  "open_download fs infoDict t =
     bind_res (as_integer (dict_at infoDict ''length'')) (\<lambda>len.
       if \<not> fopen_ok fs then Inr (FAILED_TO_OPEN, t, \<lparr>contents = [], fpos = 0\<rparr>)
       else Inr (SUCCESS,
         t\<lparr>totalSize := len, tfile := \<lparr>path = '''', fp = True, fbegin = 0, flength = 0\<rparr>\<rparr>,
         \<lparr>contents = (case download_file fs of None \<Rightarrow> [] | Some c \<Rightarrow> c), fpos = 0\<rparr>))"
  by (auto simp: open_download_def nodeExists_def bind_res_def split: sum.split option.split)

definition parseFile :: "env \<Rightarrow> bencoding \<Rightarrow> file_system \<Rightarrow> string \<Rightarrow> torrent \<Rightarrow>
    (ParseResult \<times> torrent \<times> stream) res" where
  "parseFile env lib fs dir t =
     (case torrent_file fs of
        None \<Rightarrow> Inr (FAILED_TO_OPEN, t, \<lparr>contents = [], fpos = 0\<rparr>)
      | Some input \<Rightarrow>
          bind_res (decode_item lib input) (\<lambda>decodedData.
          bind_res (as_dictionary (Some decodedData)) (\<lambda>torrMetaDict.
          bind_res (as_string (dict_at torrMetaDict ''announce'')) (\<lambda>url.
          bind_res (as_dictionary (dict_at torrMetaDict ''info'')) (\<lambda>infoDict.
          let checkSum = digest_bytes env (to_bytes (encode lib (BDictionary infoDict)))
          in
          bind_res (as_string (dict_at infoDict ''name'')) (\<lambda>nm.
          bind_res (as_integer (dict_at infoDict ''piece length'')) (\<lambda>plen.
          bind_res (as_string (dict_at infoDict ''pieces'')) (\<lambda>piecesStr.
          bind_res (pieces_loop (to_bytes piecesStr @ [0]) (length piecesStr) 0 (pieces t)) (\<lambda>ps.
          let t1 = t\<lparr>mainTrackerUrl := url, handshake := make_handshake checkSum, ownPeerId := peer_id_bytes,
                     name := nm, pieceLength := plen, pieces := ps,
                     bitfield := take (length ps) (bitfield t) @ replicate (length ps - length (bitfield t)) False,
                     downloadDir := dir\<rparr>
          in if dict_at infoDict ''files'' \<noteq> None then Inr (CORRUPTED_FILE, t1, \<lparr>contents = [], fpos = 0\<rparr>)
             else open_download fs infoDict t1)))))))))"

section \<open>The initial state\<close>

definition start_world :: "torrent \<Rightarrow> stream \<Rightarrow> world" where
  "start_world t d = \<lparr>tor = t, peers = (\<lambda>_. new_peer new_connection), nextPeer = 0, disk = d, errlog = [], accepted = []\<rparr>"

section \<open>The hashes\<close>

definition new_piece :: "buffer \<Rightarrow> tpiece" where
  "new_piece h = \<lparr>finished = False, priority = 0, hash = h\<rparr>"

lemma pieces_loop_run:
  assumes "drop i mem = concat hs @ rest" "\<forall>h \<in> set hs. length h = 20" "sz = i + 20 * length hs"
  shows "pieces_loop mem sz i ps = Inr (ps @ map new_piece hs)"
  using assms
proof (induction hs arbitrary: i ps)
  case Nil
  then show ?case by (simp add: pieces_loop.simps)
next
  case (Cons h hs)
  have "length (drop i mem) = 20 + (length (concat hs) + length rest)"
    using Cons.prems(1, 2) by simp
  then have len: "i + 20 \<le> length mem"
    by simp
  have hd: "take 20 (drop i mem) = h"
    using Cons.prems(1, 2) by simp
  have "drop (i + 20) mem = drop 20 (drop i mem)"
    by (simp add: add.commute)
  also have "\<dots> = concat hs @ rest"
    using Cons.prems(1, 2) by simp
  finally have "pieces_loop mem sz (i + 20) (ps @ [new_piece h]) = Inr ((ps @ [new_piece h]) @ map new_piece hs)"
    using Cons.prems(2, 3) by (intro Cons.IH) simp_all
  then show ?case
    using Cons.prems(3) len hd by (subst pieces_loop.simps) (simp add: new_piece_def)
qed

text \<open>A length that is neither a multiple of twenty nor one byte short of it is read beyond the end.\<close>

lemma pieces_loop_overrun:
  assumes "length mem = sz + 1" "i \<le> sz" "(sz - i) mod 20 \<noteq> 0" "(sz - i) mod 20 \<noteq> 19"
  shows "pieces_loop mem sz i ps = Inl OutOfBounds"
  using assms
proof (induction mem sz i ps rule: pieces_loop.induct)
  case (1 mem sz i ps)
  have lt: "\<not> sz \<le> i"
    using "1.prems" by auto
  show ?case
  proof (cases "length mem < i + 20")
    case True
    with lt show ?thesis by (subst pieces_loop.simps) simp
  next
    case False
    then have "i + 20 \<le> sz"
      using "1.prems" by (cases "sz = i + 19") auto
    moreover from this have "(sz - (i + 20)) mod 20 = (sz - i) mod 20"
      by (metis Nat.le_diff_conv2 add.commute add_leD1 diff_diff_left le_mod_geq)
    ultimately have "pieces_loop mem sz (i + 20) (ps @ [\<lparr>finished = False, priority = 0, hash = take 20 (drop i mem)\<rparr>]) = Inl OutOfBounds"
      using "1.IH" [OF lt False] "1.prems" by simp
    with lt False show ?thesis by (subst pieces_loop.simps) simp
  qed
qed

section \<open>Well-formed metadata\<close>

text \<open>
  A torrent file of one download file: the decoded dictionary \<open>m\<close> with its \<open>info\<close> dictionary \<open>d\<close> gives
  the name, the piece length, the hashes and the length.
\<close>

record metadata =
  m_url :: string
  m_info :: "(string \<times> bitem) list"
  m_name :: string
  m_plen :: u64
  m_hashes :: "buffer list"
  m_total :: u64

definition describes :: "bencoding \<Rightarrow> file_system \<Rightarrow> metadata \<Rightarrow> bool" where
  "describes lib fs md \<longleftrightarrow>
     (\<exists>s m p. torrent_file fs = Some s \<and> decode lib s = Some (BDictionary m) \<and>
        map_of m ''announce'' = Some (BString (m_url md)) \<and> map_of m ''info'' = Some (BDictionary (m_info md)) \<and>
        map_of (m_info md) ''pieces'' = Some (BString p) \<and> to_bytes p = concat (m_hashes md)) \<and>
     map_of (m_info md) ''name'' = Some (BString (m_name md)) \<and>
     map_of (m_info md) ''piece length'' = Some (BInteger (m_plen md)) \<and>
     map_of (m_info md) ''length'' = Some (BInteger (m_total md)) \<and>
     map_of (m_info md) ''files'' = None \<and> (\<forall>h \<in> set (m_hashes md). length h = 20)"

definition sizes_consistent :: "metadata \<Rightarrow> bool" where
  "sizes_consistent md \<longleftrightarrow>
     m_hashes md \<noteq> [] \<and> length (m_hashes md) \<le> 2 ^ 32 \<and> unat (m_plen md) < 2 ^ 32 \<and>
     unat (m_total md) < 9223372036854775808 \<and>
     (length (m_hashes md) - 1) * unat (m_plen md) < unat (m_total md) \<and>
     unat (m_total md) \<le> length (m_hashes md) * unat (m_plen md)"

text \<open>The torrent and the stream that come out of it.\<close>

definition parsed :: "env \<Rightarrow> bencoding \<Rightarrow> string \<Rightarrow> metadata \<Rightarrow> torrent" where
  "parsed env lib dir md = Torrent
     \<lparr>mainTrackerUrl := m_url md,
      handshake := make_handshake (digest_bytes env (to_bytes (encode lib (BDictionary (m_info md))))),
      ownPeerId := peer_id_bytes, name := m_name md, pieceLength := m_plen md,
      pieces := map new_piece (m_hashes md), bitfield := replicate (length (m_hashes md)) False,
      downloadDir := dir, totalSize := m_total md,
      tfile := \<lparr>path = '''', fp = True, fbegin = 0, flength = 0\<rparr>\<rparr>"

definition opened :: "file_system \<Rightarrow> stream" where
  "opened fs = \<lparr>contents = (case download_file fs of None \<Rightarrow> [] | Some c \<Rightarrow> c), fpos = 0\<rparr>"

lemma length_concat_20: "\<forall>h \<in> set hs. length h = 20 \<Longrightarrow> length (concat hs) = 20 * length hs"
  by (induction hs) simp_all

lemma parseFile_described:
  assumes "describes lib fs md" "fopen_ok fs"
  shows "parseFile env lib fs dir Torrent = Inr (SUCCESS, parsed env lib dir md, opened fs)"
proof -
  obtain s m p where d: "torrent_file fs = Some s" "decode lib s = Some (BDictionary m)"
      "map_of m ''announce'' = Some (BString (m_url md))" "map_of m ''info'' = Some (BDictionary (m_info md))"
      "map_of (m_info md) ''pieces'' = Some (BString p)" and p: "to_bytes p = concat (m_hashes md)"
    using assms(1) by (auto simp: describes_def)
  have h: "\<forall>h \<in> set (m_hashes md). length h = 20"
    using assms(1) by (simp add: describes_def)
  have "length p = 20 * length (m_hashes md)"
    using arg_cong [OF p, of length] length_concat_20 [OF h] by (simp add: to_bytes_def)
  then have "pieces_loop (to_bytes p @ [0]) (length p) 0 [] = Inr (map new_piece (m_hashes md))"
    using pieces_loop_run [of 0 "to_bytes p @ [0]" "m_hashes md" "[0]" "length p" "[]"] h p by simp
  then show ?thesis
    using assms d
    by (simp add: parseFile_def describes_def decode_item_def as_dictionary_def as_string_def as_integer_def
        dict_at_def Let_def open_download_run Torrent_def parsed_def opened_def)
qed

text \<open>The initial state satisfies the invariant.\<close>

lemma parsed_geometry:
  assumes "sizes_consistent md"
  shows "geometry_ok (parsed env lib dir md)"
  using assms
  by (simp add: geometry_ok_def wf_sizes_def offsets_fit_def pieces_fit_def sizes_consistent_def parsed_def Torrent_def)

lemma finished_set_new: "finished_set (map new_piece hs) = {}"
  by (auto simp: finished_set_def new_piece_def)

lemma start_inv:
  assumes "sizes_consistent md"
  shows "swarm_inv env (start_world (parsed env lib dir md) d)"
proof -
  let ?w = "start_world (parsed env lib dir md) d"
  have p: "pieces (parsed env lib dir md) = map new_piece (m_hashes md)"
      "bitfield (parsed env lib dir md) = replicate (length (m_hashes md)) False"
      "completedPieces (parsed env lib dir md) = 0" "activePeers (parsed env lib dir md) = []"
    by (simp_all add: parsed_def Torrent_def)
  have "marks_ok (parsed env lib dir md)"
    by (simp add: marks_ok_def p finished_set_new priorities_ok_def new_piece_def)
  then have "store_inv env ?w"
    using parsed_geometry [OF assms] by (simp add: store_inv_def data_ok_def accepted_ok_def start_world_def p finished_set_new)
  moreover have "queues_ok ?w"
    by (simp add: queues_ok_def start_world_def new_peer_def)
  moreover have "conns_inv ?w"
    using new_connection_inv by (simp add: conns_inv_def start_world_def new_peer_def)
  moreover have "peers_known ?w"
    by (simp add: peers_known_def start_world_def p)
  ultimately show ?thesis
    by (simp add: swarm_inv_def client_inv_def)
qed

section \<open>Properties\<close>

text \<open>
  C29: a well-formed torrent file whose sizes fit together is parsed successfully: the hashes, the
  piece length, the total size and the tracker's address are those of the file, the handshake carries
  the digest of the encoded \<open>info\<close> dictionary, an existing download file is kept, and the client
  starts in a state that satisfies the invariant.
\<close>

theorem parseFile_establishes_invariant:
  assumes "describes lib fs md" "sizes_consistent md" "fopen_ok fs"
  shows "\<exists>t d. parseFile env lib fs dir Torrent = Inr (SUCCESS, t, d)
    \<and> map hash (pieces t) = m_hashes md \<and> pieceLength t = m_plen md \<and> totalSize t = m_total md
    \<and> mainTrackerUrl t = m_url md
    \<and> slice 28 20 (handshake t) = digest_bytes env (to_bytes (encode lib (BDictionary (m_info md))))
    \<and> length (handshake t) = 68
    \<and> contents d = (case download_file fs of None \<Rightarrow> [] | Some c \<Rightarrow> c)
    \<and> swarm_inv env (start_world t d)"
proof -
  let ?h = "digest_bytes env (to_bytes (encode lib (BDictionary (m_info md))))"
  have "length (writeAsBE32 v) = 4" for v
    by (rule be32.length_enc)
  then have "length ?h = 20"
    by (simp add: digest_bytes_def upt_rec)
  then have hs: "slice 28 20 (make_handshake ?h) = ?h" "length (make_handshake ?h) = 68"
    by (simp_all add: slice_def make_handshake_def to_bytes_def peer_id_bytes_def)
  have "map hash (map new_piece hs) = hs" for hs
    by (induction hs) (simp_all add: new_piece_def)
  then show ?thesis
    using parseFile_described [OF assms(1, 3), of env dir] start_inv [OF assms(2), of env lib dir "opened fs"] hs
    by (simp add: parsed_def Torrent_def opened_def)
qed

text \<open>
  A string of hashes whose length is not a multiple of twenty, and not one byte short of one, makes
  \<open>parseFile\<close> read beyond the end of the string.
\<close>

lemma parseFile_pieces_overrun:
  assumes "torrent_file fs = Some s" "decode lib s = Some (BDictionary m)"
    and "map_of m ''announce'' = Some (BString url)" "map_of m ''info'' = Some (BDictionary d)"
    and "map_of d ''name'' = Some (BString nm)" "map_of d ''piece length'' = Some (BInteger L)"
    and "map_of d ''pieces'' = Some (BString p)" "length p mod 20 \<notin> {0, 19}"
  shows "parseFile env lib fs dir t = Inl OutOfBounds"
  using assms pieces_loop_overrun [of "to_bytes p @ [0]" "length p" 0 "pieces t"]
  by (simp add: parseFile_def decode_item_def as_dictionary_def as_string_def as_integer_def dict_at_def Let_def
      to_bytes_def)

end
