(* ===== verification/Swarm_Runs.thy ===== *)
theory Swarm_Runs
  imports Metainfo
begin

text \<open>
  The runs of a client that was started on a well-formed torrent file: what holds in every state they
  reach, and what the download file contains when all pieces are there.
\<close>

section \<open>The states a client reaches\<close>

text \<open>
  \<open>md\<close> is what the torrent file says, \<open>t\<close> and \<open>d\<close> what \<open>parseFile\<close> makes of it, and \<open>w\<close> a state after
  the events \<open>es\<close>.
\<close>

definition client_run ::
  "env \<Rightarrow> bencoding \<Rightarrow> file_system \<Rightarrow> string \<Rightarrow> metadata \<Rightarrow> event list \<Rightarrow> world \<Rightarrow> bool" where
  "client_run env lib fs dir md es w \<longleftrightarrow>
     describes lib fs md \<and> sizes_consistent md \<and>
     (\<exists>t d. parseFile env lib fs dir Torrent = Inr (SUCCESS, t, d) \<and>
        run (swarm_step env) (start_world t d) es w)"

lemma fopen_ok_SUCCESS:
  assumes "describes lib fs md" "parseFile env lib fs dir Torrent = Inr (SUCCESS, t, d)"
  shows "fopen_ok fs"
proof (rule ccontr)
  assume "\<not> fopen_ok fs"
  then show False
    using assms(2) by (auto simp: parseFile_def open_download_run Let_def bind_res_def split: sum.splits option.splits if_splits)
qed

lemma client_run_start:
  assumes "client_run env lib fs dir md es w"
  shows "run (swarm_step env) (start_world (parsed env lib dir md) (opened fs)) es w" "sizes_consistent md"
proof -
  obtain t d where r: "parseFile env lib fs dir Torrent = Inr (SUCCESS, t, d)" "run (swarm_step env) (start_world t d) es w"
    and d: "describes lib fs md" and "sizes_consistent md"
    using assms by (auto simp: client_run_def)
  then show "run (swarm_step env) (start_world (parsed env lib dir md) (opened fs)) es w" "sizes_consistent md"
    using parseFile_described [OF d fopen_ok_SUCCESS [OF d r(1)], of env dir] by simp_all
qed

lemma client_run_inv: "client_run env lib fs dir md es w \<Longrightarrow> swarm_inv env w"
  using sw.run_keeps [OF client_run_start(1)] start_inv [OF client_run_start(2)] by blast

lemma client_run_fixed:
  assumes "client_run env lib fs dir md es w"
  shows "map hash (pieces (tor w)) = m_hashes md" "pieceLength (tor w) = m_plen md" "totalSize (tor w) = m_total md"
    "length (pieces (tor w)) = length (m_hashes md)"
proof -
  have "progressed (parsed env lib dir md) (tor w)"
    using prog.run_keeps [OF client_run_start(1) [OF assms]] by (simp add: start_world_def progressed_refl)
  moreover have "map hash (map new_piece hs) = hs" for hs
    by (induction hs) (simp_all add: new_piece_def)
  ultimately show h: "map hash (pieces (tor w)) = m_hashes md" and "pieceLength (tor w) = m_plen md"
      "totalSize (tor w) = m_total md"
    by (simp_all add: progressed_def fixed_def parsed_def Torrent_def)
  show "length (pieces (tor w)) = length (m_hashes md)"
    using arg_cong [OF h, of length] by simp
qed

text \<open>Beyond the total size the file is as it was when it was opened.\<close>

lemma client_run_tail:
  assumes "client_run env lib fs dir md es w" "full_length w"
  shows "drop (unat (m_total md)) (contents (disk w)) = drop (unat (m_total md)) (contents (opened fs))"
proof -
  have "tail_kept (contents (opened fs)) (start_world (parsed env lib dir md) (opened fs))"
    using parsed_geometry [OF client_run_start(2) [OF assms(1)], of env lib dir]
    by (simp add: tail_kept_def start_world_def geometry_ok_def)
  from tail.run_keeps [OF client_run_start(1) [OF assms(1)] this] show ?thesis
    using assms(2) client_run_fixed(3) [OF assms(1)] by (simp add: tail_kept_def)
qed

section \<open>The download file\<close>

text \<open>The part of a file that is piece \<open>i\<close>; the pieces one after the other are the file.\<close>

definition part :: "torrent \<Rightarrow> buffer \<Rightarrow> nat \<Rightarrow> buffer" where
  "part t c i = slice (piece_begin t i) (piece_len t i) c"

abbreviation piece_data :: "world \<Rightarrow> nat \<Rightarrow> buffer" where
  "piece_data w \<equiv> part (tor w) (contents (disk w))"

lemma take_slice: "take a xs @ slice a n xs = take (a + n) xs"
  by (simp add: slice_def take_add)

lemma concat_parts:
  "wf_sizes t \<Longrightarrow> k \<le> length (pieces t) \<Longrightarrow>
   concat (map (part t c) [0..<k]) = take (min (k * unat (pieceLength t)) (unat (totalSize t))) c"
proof (induction k)
  case (Suc k)
  have "piece_begin t k < unat (totalSize t)"
    using Suc.prems by (intro piece_begin_less) simp_all
  then have m: "min (k * unat (pieceLength t)) (unat (totalSize t)) = piece_begin t k"
    by (simp add: piece_begin_def)
  have e: "piece_begin t k + piece_len t k = piece_end t k"
    using piece_begin_le_end [of t k] Suc.prems by (simp add: piece_len_def)
  have "concat (map (part t c) [0..<Suc k]) = take (piece_begin t k) c @ part t c k"
    using Suc m by simp
  also have "\<dots> = take (piece_end t k) c"
    unfolding part_def take_slice e ..
  finally show ?case
    by (simp only: piece_end_def)
qed simp

lemma concat_all_parts:
  assumes "wf_sizes t"
  shows "concat (map (part t c) [0..<length (pieces t)]) = take (unat (totalSize t)) c"
proof -
  have "unat (totalSize t) \<le> length (pieces t) * unat (pieceLength t)"
    using assms by (simp add: wf_sizes_def)
  then show ?thesis
    using concat_parts [OF assms order.refl] by (simp add: min_absorb2)
qed

text \<open>A finished piece is on the disk, with the right digest.\<close>

lemma finished_on_disk:
  assumes "store_inv env w" "full_length w" "i < length (pieces (tor w))" "finished (pieces (tor w) ! i)"
  shows "digest_bytes env (piece_data w i) = hash (pieces (tor w) ! i)"
    "piece_end (tor w) i \<le> length (contents (disk w))"
proof -
  have "i \<in> fst ` set (accepted w)"
    using store_invD(3) [OF assms(1)] assms(3, 4) by (simp add: accepted_ok_def finished_set_def)
  then obtain d where d: "(i, d) \<in> set (accepted w)"
    by auto
  then have "on_disk (tor w) (contents (disk w)) i d"
    using store_invD(4) [OF assms(1, 2)] by (auto simp: data_ok_def)
  moreover have "digest_bytes env d = hash (pieces (tor w) ! i)"
    using store_invD(3) [OF assms(1)] d by (auto simp: accepted_ok_def)
  ultimately show "digest_bytes env (piece_data w i) = hash (pieces (tor w) ! i)"
    "piece_end (tor w) i \<le> length (contents (disk w))"
    by (simp_all add: on_disk_def part_def)
qed

text \<open>The counter is full exactly when every piece is finished.\<close>

lemma isFullyDownloaded_iff:
  assumes "marks_ok t"
  shows "isFullyDownloaded t \<longleftrightarrow> (\<forall>i < length (pieces t). finished (pieces t ! i))"
proof -
  let ?n = "length (pieces t)"
  have sub: "finished_set (pieces t) \<subseteq> {..<?n}"
    by (auto simp: finished_set_def)
  have "isFullyDownloaded t \<longleftrightarrow> card (finished_set (pieces t)) = card {..<?n}"
    using marksD(2) [OF assms] by (simp add: isFullyDownloaded_def)
  also have "\<dots> \<longleftrightarrow> finished_set (pieces t) = {..<?n}"
    using card_subset_eq [OF finite_lessThan sub] by metis
  also have "\<dots> \<longleftrightarrow> (\<forall>i < ?n. finished (pieces t ! i))"
    unfolding finished_set_def by blast
  finally show ?thesis .
qed

lemma full_file:
  assumes "store_inv env w" "full_length w" "isFullyDownloaded (tor w)"
  defines "ds \<equiv> map (piece_data w) [0..<length (pieces (tor w))]"
  shows "take (unat (totalSize (tor w))) (contents (disk w)) = concat ds"
    "map (digest_bytes env) ds = map hash (pieces (tor w))" "unat (totalSize (tor w)) \<le> length (contents (disk w))"
proof -
  let ?n = "length (pieces (tor w))"
  have wf: "wf_sizes (tor w)"
    using geometryD(1) [OF store_invD(1) [OF assms(1)]] .
  have fin: "finished (pieces (tor w) ! i)" if "i < ?n" for i
    using assms(3) that isFullyDownloaded_iff [OF store_invD(2) [OF assms(1)]] by blast
  show "take (unat (totalSize (tor w))) (contents (disk w)) = concat ds"
    unfolding ds_def by (rule concat_all_parts [OF wf, symmetric])
  show "map (digest_bytes env) ds = map hash (pieces (tor w))"
    unfolding ds_def by (rule nth_equalityI) (simp_all add: finished_on_disk(1) [OF assms(1, 2)] fin)
  have "pieces (tor w) \<noteq> []"
    using wf by (simp add: wf_sizes_def)
  then have "Suc (?n - 1) = ?n" "?n - 1 < ?n"
    by simp_all
  then show "unat (totalSize (tor w)) \<le> length (contents (disk w))"
    using finished_on_disk(2) [OF assms(1, 2) _ fin] piece_end_last [OF wf] by metis
qed

text \<open>The file of a client that has all pieces.\<close>

lemma client_run_file:
  assumes "client_run env lib fs dir md es w" "full_length w" "isFullyDownloaded (tor w)"
  shows "\<exists>ds. contents (disk w) = concat ds @ drop (unat (m_total md)) (contents (opened fs))
    \<and> map (digest_bytes env) ds = m_hashes md \<and> length (concat ds) = unat (m_total md)"
proof -
  have "store_inv env w"
    using client_invD(1) [OF swarm_invD(1) [OF client_run_inv [OF assms(1)]]] .
  note full = full_file [OF this assms(2, 3)]
  let ?ds = "map (piece_data w) [0..<length (pieces (tor w))]"
  have "length (concat ?ds) = unat (m_total md)"
    using full(3) client_run_fixed(3) [OF assms(1)] unfolding full(1) [symmetric] by simp
  moreover have "contents (disk w) = concat ?ds @ drop (unat (m_total md)) (contents (opened fs))"
    unfolding full(1) [symmetric] client_run_tail [OF assms(1, 2), symmetric] client_run_fixed(3) [OF assms(1)]
    by (rule append_take_drop_id [symmetric])
  ultimately show ?thesis
    using full(2) unfolding client_run_fixed(1) [OF assms(1)] by blast
qed

text \<open>The file of a client whose torrent describes \<open>file\<close>.\<close>

lemma client_run_whole:
  assumes "client_run env lib fs dir md es w" "full_length w" "take (length file) (contents (disk w)) = file"
    and "length file = unat (m_total md)" "parseFile env lib fs dir Torrent = Inr (SUCCESS, t, d)"
  shows "contents (disk w) = file @ drop (length file) (contents d)"
proof -
  have d: "describes lib fs md"
    using assms(1) by (simp add: client_run_def)
  then have "d = opened fs"
    using parseFile_described [OF d fopen_ok_SUCCESS [OF d assms(5)], of env dir] assms(5) by simp
  then show ?thesis
    using append_take_drop_id [of "length file" "contents (disk w)"] client_run_tail [OF assms(1, 2)] assms(3, 4) by simp
qed

end
