(* ===== verification/Honest_Seed.thy ===== *)
theory Honest_Seed
  imports Piece_Transfer Swarm_Runs
begin

text \<open>
  Liveness: a peer that has the file, shakes hands, advertises all pieces and sends the blocks of each
  piece as they are asked for, in any order within the piece, makes the client complete the download.
\<close>

section \<open>Delivering a message whose case breaks\<close>

text \<open>What the handlers of other messages leave of a connection, beside what the invariant covers.\<close>

definition conn_view :: "nat \<Rightarrow> world \<Rightarrow> bool \<times> buffer \<times> nat list \<times> nat" where
  "conn_view pid w = (isConnected pid w, inputStream (conn_of w pid), hasPieceIndexes (peers w pid), nextPeer w)"

lemma conn_view_hush:
  assumes "hush w' = hush w"
  shows "conn_view pid w' = conn_view pid w"
  using arg_cong [OF hush_eqD(9) [OF assms], of inputStream pid] hush_eqD(4, 5, 10) [OF assms]
  by (simp add: conn_view_def)

lemma conn_view_upd [simp]:
  "conn_view pid (upd_queue f q w) = conn_view pid w" "conn_view pid (upd_tor g w) = conn_view pid w"
  "conn_view pid (w\<lparr>disk := d, accepted := a\<rparr>) = conn_view pid w"
  "conn_view pid (upd_peer q (set_flag s b) w) = conn_view pid w"
  "conn_view pid (upd_peer q (\<lambda>p. p\<lparr>pieceQueue := h p\<rparr>) w) = conn_view pid w"
  by (simp_all add: conn_view_def isConnected_def upd_queue_def)

lemma upd_queue_rest [simp]:
  "conn_of (upd_queue f pid w) q = conn_of w q" "errlog (upd_queue f pid w) = errlog w" "nextPeer (upd_queue f pid w) = nextPeer w"
  "hasPieceIndexes (peers (upd_queue f pid w) q) = hasPieceIndexes (peers w q)"
  "isConnected q (upd_queue f pid w) = isConnected q w" "pstate (peers (upd_queue f pid w) q) = pstate (peers w q)"
  by (simp_all add: upd_queue_def isConnected_def)

text \<open>The connection waits for the next length prefix.\<close>

definition await_prefix :: "nat \<Rightarrow> world \<Rightarrow> world" where
  "await_prefix pid = upd_conn pid (\<lambda>c. c\<lparr>readCB := Some Handle, reading := Some 4, inputStream := []\<rparr>)"

lemma await_prefix_simps [simp]:
  "tor (await_prefix pid w) = tor w" "accepted (await_prefix pid w) = accepted w" "nextPeer (await_prefix pid w) = nextPeer w"
  "errlog (await_prefix pid w) = errlog w"
  "disk (await_prefix pid w) = disk w" "pieceQueue (peers (await_prefix pid w) q) = pieceQueue (peers w q)"
  "hasPieceIndexes (peers (await_prefix pid w) q) = hasPieceIndexes (peers w q)"
  "pstate (peers (await_prefix pid w) q) = pstate (peers w q)" "isConnected q (await_prefix pid w) = isConnected q w"
  "isConnected pid w \<Longrightarrow> awaits_prefix (conn_of (await_prefix pid w) pid)"
  by (auto simp: await_prefix_def awaits_prefix_def isConnected_def)

text \<open>What a connection was sent and how the two ends stand to each other.\<close>

definition wire_view :: "nat \<Rightarrow> world \<Rightarrow> buffer list \<times> (pstate \<Rightarrow> bool)" where
  "wire_view pid w = (sent (conn_of w pid), pstate (peers w pid))"

lemma wire_view_simps [simp]:
  "wire_view pid (await_prefix pid w) = wire_view pid w" "wire_view pid (upd_queue f q w) = wire_view pid w"
  "wire_view pid (upd_tor g w) = wire_view pid w" "wire_view pid (w\<lparr>disk := d, accepted := a\<rparr>) = wire_view pid w"
  "wire_view pid (body_arrived pid b w) = wire_view pid w"
  "wire_view pid (upd_peer q (\<lambda>p. p\<lparr>hasPieceIndexes := h p\<rparr>) w) = wire_view pid w"
  by (simp_all add: wire_view_def await_prefix_def body_arrived_def upd_queue_def)

lemma wire_view_put_all:
  "isConnected pid w \<Longrightarrow> wire_view pid (wr.put_all bs pid w) = (sent (conn_of w pid) @ bs, pstate (peers w pid))"
  using hush_eqD(7) [OF wr.rest_put_all] by (simp add: wire_view_def wr.out_put_all)

lemma wire_view_request_best:
  assumes "isConnected pid w"
  shows "wire_view pid (request_best i pid w) =
    (sent (conn_of w pid) @ encode_msg Interested # (if flag w pid PEER_CHOKING then [] else piece_requests (tor w) i),
     (pstate (peers w pid))(AM_INTERESTED := True))"
  using assms hush_eqD(7) [OF wr.rest_put_all]
  by (simp add: wire_view_def request_best_sent) (simp add: request_best_def enqueue_piece_def sendInterested_def set_flag_def)

text \<open>A peer is told of a new piece if at all; one that the client chokes is not.\<close>

lemma sent_announce_some: "\<exists>ns. sent (conn_of (announce i ps w) pid) = sent (conn_of w pid) @ map encode_msg ns"
proof -
  have "\<exists>ns. sent (conn_of (fold (\<lambda>p v. if g p then conn_write (encode_msg m) p v else v) ps u) pid) =
      sent (conn_of u pid) @ map encode_msg ns" for g m u
  proof (induction ps arbitrary: u)
    case (Cons p ps)
    have "\<exists>ns. sent (conn_of (conn_write (encode_msg m) p u) pid) = sent (conn_of u pid) @ map encode_msg ns"
      using exI [of _ "[m]"] exI [of _ "[]"] by (auto simp: wr.out_put)
    with Cons [of u] Cons [of "conn_write (encode_msg m) p u"] show ?case
      by (auto simp flip: map_append)
  qed simp
  then show ?thesis
    unfolding announce_def by this
qed

lemma sent_stored_some: "\<exists>ns. sent (conn_of (stored i d w) pid) = sent (conn_of w pid) @ map encode_msg ns"
proof -
  let ?u = "upd_tor (store_piece (unat i) (length d))
    (w\<lparr>disk := \<lparr>contents = write_at (piece_begin (tor w) (unat i)) d (contents (disk w)),
                fpos = piece_begin (tor w) (unat i) + length d\<rparr>, accepted := accepted w @ [(unat i, d)]\<rparr>)"
  show ?thesis
    using sent_announce_some [of i "activePeers (tor w)" ?u pid] by (simp add: stored_def)
qed

lemma wire_view_stored:
  assumes "flag w pid AM_CHOKING"
  shows "wire_view pid (stored i d w) = wire_view pid w"
proof -
  have "sent (conn_of (fold (\<lambda>p v. if g p then conn_write b p v else v) ps u) pid) = sent (conn_of u pid)"
    if "\<not> g pid" for g b ps u
    using that by (induction ps arbitrary: u) (auto simp: wr.out_put)
  then have "sent (conn_of (announce j ps u) pid) = sent (conn_of u pid)" if "flag u pid AM_CHOKING" for j ps u
    using that by (simp add: announce_def)
  then show ?thesis
    using assms by (simp add: stored_def wire_view_def)
qed

lemma piece_requests_same: "same_sizes t' t \<Longrightarrow> piece_requests t' i = piece_requests t i"
  by (simp add: piece_requests_def same_sizesD)

lemma deliver_break:
  assumes "awaits_prefix (conn_of w pid)" "length (payload m) < 4294967295"
    and run: "message_case env pid (message_id m) (incoming_of m) (body_arrived pid (message_id m # payload m) w) =
      Inr (Break v)"
    and view: "conn_view pid v = conn_view pid (body_arrived pid (message_id m # payload m) w) \<or>
      isConnected pid v \<and> inputStream (conn_of v pid) = message_id m # payload m"
  shows "deliver env pid m w = Inr (await_prefix pid v)"
proof -
  have "isConnected pid (body_arrived pid b w)" "inputStream (conn_of (body_arrived pid b w) pid) = b" for b
    using assms(1) by (simp_all add: body_arrived_def isConnected_def awaits_prefix_def)
  then have v: "isConnected pid v" "inputStream (conn_of v pid) = message_id m # payload m"
    using view by (auto simp: conn_view_def)
  have "consume (Suc (length (payload m))) pid (conn_read 4 Handle pid v) = await_prefix pid v"
    unfolding consume_def await_prefix_def conn_read_open [OF v(1)] upd_conn_upd_conn
    by (rule upd_conn_cong) (simp add: v(2))
  then show ?thesis
    using deliver_handleMessage [OF assms(1, 2), of env] run by (simp add: handleMessage_def incoming_of_def)
qed

lemma deliver_inv:
  assumes "client_inv env w" "awaits_prefix (conn_of w pid)" "length (payload m) < 4294967295"
    and "deliver env pid m w = Inr w'"
  shows "client_inv env w'"
proof -
  let ?b = "message_id m # payload m" and ?m = "IncomingMessage (payload m) (of_nat (length (payload m)))"
  have c: "core (body_arrived pid ?b w) = core w" "core (consume n pid v) = core v" for n v
    by (simp_all add: body_arrived_def consume_def core_upd_conn)
  have u: "unat (of_nat (length (payload m)) :: u64) = length (payload m)"
    using assms(3) by (intro unat_of_nat_u64) simp
  have "holds (message_faults (message_id m)) (client_inv env) (handleMessage env pid (message_id m) ?m (body_arrived pid ?b w))"
    using assms(1) client_inv_core [OF c(1)] u
    by (intro handleMessage_keeps_inv) (simp_all add: msg_ok_def IncomingMessage_def)
  then show ?thesis
    using assms(4) client_inv_core [OF c(2)] unfolding deliver_handleMessage [OF assms(2, 3)]
    by (cases "handleMessage env pid (message_id m) ?m (body_arrived pid ?b w)") auto
qed

section \<open>Messages as events\<close>

definition message_events :: "nat \<Rightarrow> message \<Rightarrow> event list" where
  "message_events pid m = [Received pid (take 4 (encode_msg m)), Received pid (drop 4 (encode_msg m))]"

lemma run_append: "run stp s es s' \<Longrightarrow> run stp s' fs s'' \<Longrightarrow> run stp s (es @ fs) s''"
proof (induction fs arbitrary: s'' rule: rev_induct)
  case Nil
  then show ?case by (auto elim: run.cases)
next
  case (snoc f fs)
  from snoc.prems(2) obtain v where "run stp s' fs v" "stp v f s''"
    by (auto elim: run.cases)
  then show ?case
    using snoc.IH [OF snoc.prems(1)] run_snoc by (metis append_assoc)
qed

lemma run_one: "swarm_step env w e w' \<Longrightarrow> run (swarm_step env) w [e] w'"
  using run_snoc [OF run_nil] by fastforce

lemma deliver_events:
  assumes "awaits_prefix (conn_of w pid)" "pid < nextPeer w" "length (payload m) < 4294967295"
    and "deliver env pid m w = Inr w'"
  shows "run (swarm_step env) w (message_events pid m) w'"
proof -
  let ?n = "Suc (length (payload m))"
  let ?w1 = "upd_conn pid (\<lambda>c. c\<lparr>readCB := Some Handle_body, reading := Some (of_nat ?n)\<rparr>) w"
  have p: "on_read env pid (take 4 (encode_msg m)) w = Inr ?w1"
    unfolding take_drop_encode using assms(3) by (intro on_read_prefix [OF assms(1)]) simp_all
  have "enabled (Received pid (take 4 (encode_msg m))) w"
    using assms(1, 2) unfolding take_drop_encode by (simp add: awaits_prefix_def be32.length_enc)
  with p have s1: "swarm_step env w (Received pid (take 4 (encode_msg m))) ?w1"
    by (intro swarm_step.step) simp_all
  have "enabled (Received pid (drop 4 (encode_msg m))) ?w1"
    using assms(2, 3) unfolding take_drop_encode by simp
  moreover have "on_read env pid (drop 4 (encode_msg m)) ?w1 = Inr w'"
    using assms(4) p by (simp add: deliver_def)
  ultimately have "swarm_step env ?w1 (Received pid (drop 4 (encode_msg m))) w'"
    by (intro swarm_step.step) simp_all
  then show ?thesis
    unfolding message_events_def using run_append [OF run_one [OF s1] run_one] by fastforce
qed

text \<open>
  \<open>handles env p w ms ns w'\<close>: a client that is sent the messages \<open>ms\<close> handles them one after the other
  and sends the messages \<open>ns\<close> back.
\<close>

inductive handles :: "env \<Rightarrow> nat \<Rightarrow> world \<Rightarrow> message list \<Rightarrow> message list \<Rightarrow> world \<Rightarrow> bool" for env p where
  none: "handles env p w [] [] w"
| one: "awaits_prefix (conn_of w p) \<Longrightarrow> p < nextPeer w \<Longrightarrow> length (payload m) < 4294967295 \<Longrightarrow> deliver env p m w = Inr v \<Longrightarrow>
    sent (conn_of v p) = sent (conn_of w p) @ map encode_msg ns \<Longrightarrow> handles env p v ms ns' w' \<Longrightarrow>
    handles env p w (m # ms) (ns @ ns') w'"

lemma handles_append:
  "handles env p w ms ns v \<Longrightarrow> handles env p v ms' ns' w' \<Longrightarrow> handles env p w (ms @ ms') (ns @ ns') w'"
  by (induction rule: handles.induct) (auto intro: handles.one)

lemma handles_one:
  assumes "awaits_prefix (conn_of w p)" "p < nextPeer w" "length (payload m) < 4294967295" "deliver env p m w = Inr v"
    and "sent (conn_of v p) = sent (conn_of w p) @ map encode_msg ns"
  shows "handles env p w [m] ns v"
  using handles.one [OF assms handles.none] by simp

lemma handles_run: "handles env p w ms ns w' \<Longrightarrow> run (swarm_step env) w (concat (map (message_events p) ms)) w'"
proof (induction rule: handles.induct)
  case (one w m v ns ms ns' w')
  show ?case
    using run_append [OF deliver_events [OF one.hyps(1-4)] one.IH] by simp
qed (simp add: run_nil)

section \<open>The state of the download from one peer\<close>

text \<open>A file whose parts have the digests of the torrent.\<close>

definition file_of :: "env \<Rightarrow> torrent \<Rightarrow> buffer \<Rightarrow> bool" where
  "file_of env t file \<longleftrightarrow>
     length file = unat (totalSize t) \<and>
     (\<forall>i < length (pieces t). digest_bytes env (part t file i) = hash (pieces t ! i))"

text \<open>
  The pieces before \<open>k\<close> are there, with the data of the file, the ones after it have not been asked for
  by anyone, and the peer has them all.
\<close>

definition pieces_upto :: "torrent \<Rightarrow> nat \<Rightarrow> bool" where
  "pieces_upto t k \<longleftrightarrow>
     (\<forall>i < length (pieces t). finished (pieces t ! i) = (i < k) \<and> (k < i \<longrightarrow> priority (pieces t ! i) = 0))"

definition seed_state :: "env \<Rightarrow> nat \<Rightarrow> buffer \<Rightarrow> nat \<Rightarrow> world \<Rightarrow> bool" where
  "seed_state env pid file k w \<longleftrightarrow>
     file_of env (tor w) file \<and> (\<forall>(i, d) \<in> set (accepted w). d = part (tor w) file i) \<and>
     pieces_upto (tor w) k \<and> isConnected pid w \<and> pid < nextPeer w \<and>
     {..<length (pieces (tor w))} \<subseteq> set (hasPieceIndexes (peers w pid))"

definition seeding :: "env \<Rightarrow> nat \<Rightarrow> buffer \<Rightarrow> nat \<Rightarrow> qpiece list \<Rightarrow> world \<Rightarrow> bool" where
  "seeding env pid file k qs w \<longleftrightarrow>
     client_inv env w \<and> seed_state env pid file k w \<and> awaits_prefix (conn_of w pid) \<and> pieceQueue (peers w pid) = qs"

lemma length_part: "length file = unat (totalSize t) \<Longrightarrow> length (part t file i) = piece_len t i"
  using piece_end_le [of t i] by (auto simp: part_def slice_def piece_len_def min_def)

lemma part_same: "same_sizes t' t \<Longrightarrow> part t' file i = part t file i"
  by (simp add: part_def same_sizesD)

lemma file_of_same:
  assumes s: "same_sizes t' t" and h: "map hash (pieces t') = map hash (pieces t)"
  shows "file_of env t' file = file_of env t file"
proof -
  have "hash (pieces t' ! i) = hash (pieces t ! i)" if "i < length (pieces t)" for i
    using arg_cong [OF h, of "\<lambda>xs. xs ! i"] that same_sizesD(1) [OF s] by simp
  then show ?thesis
    using part_same [OF s] same_sizesD(1) [OF s] s by (simp add: file_of_def same_sizes_def)
qed

lemma seed_state_same:
  assumes "conn_view pid v = conn_view pid w" "tor v = tor w" "accepted v = accepted w"
  shows "seed_state env pid file k v = seed_state env pid file k w"
  using assms by (simp add: seed_state_def conn_view_def)

lemma seed_full_length: "seed_state env pid file k w \<Longrightarrow> full_length w"
  by (auto simp: seed_state_def file_of_def full_length_def length_part)

lemma seed_length: "seed_state env pid file k w \<Longrightarrow> length (part (tor w) file i) = piece_len (tor w) i"
  by (simp add: seed_state_def file_of_def length_part)

text \<open>The connection handling around a message does not matter.\<close>

lemma seed_await [simp]: "seed_state env pid file k (await_prefix pid v) = seed_state env pid file k v"
  by (simp add: seed_state_def)

lemma seed_body [simp]: "seed_state env pid file k (body_arrived pid b w) = seed_state env pid file k w"
  by (simp add: seed_state_def body_arrived_def isConnected_def)

lemma seedingI0:
  assumes w: "client_inv env w" "awaits_prefix (conn_of w pid)" and "length (payload m) < 4294967295"
    and "message_case env pid (message_id m) (incoming_of m) (body_arrived pid (message_id m # payload m) w) = Inr (Break v)"
    and "seed_state env pid file k' v" "pieceQueue (peers v pid) = qs'"
    and "inputStream (conn_of v pid) = message_id m # payload m"
  shows "deliver env pid m w = Inr (await_prefix pid v) \<and> seeding env pid file k' qs' (await_prefix pid v)"
proof -
  have v: "isConnected pid v"
    using assms(5) by (simp add: seed_state_def)
  have d: "deliver env pid m w = Inr (await_prefix pid v)"
    using deliver_break [OF w(2) assms(3, 4)] v assms(7) by blast
  from deliver_inv [OF w assms(3) d] d v assms(5, 6) show ?thesis
    by (simp add: seeding_def)
qed

lemma seedingD:
  assumes "seeding env pid file k qs w"
  shows "client_inv env w" "awaits_prefix (conn_of w pid)"
  using assms by (simp_all add: seeding_def)

lemma seedingI:
  assumes "seeding env pid file k qs w" "length (payload m) < 4294967295"
    and "message_case env pid (message_id m) (incoming_of m) (body_arrived pid (message_id m # payload m) w) = Inr (Break v)"
    and "seed_state env pid file k' v" "pieceQueue (peers v pid) = qs'"
    and "inputStream (conn_of v pid) = message_id m # payload m"
  shows "deliver env pid m w = Inr (await_prefix pid v) \<and> seeding env pid file k' qs' (await_prefix pid v)"
  by (rule seedingI0 [OF seedingD [OF assms(1)] assms(2-6)])

text \<open>A block that is not the last one missing.\<close>

lemma unfinished_piece:
  "seed_state env pid file k w \<Longrightarrow> k < length (pieces (tor w)) \<Longrightarrow> \<not> finished (pieces (tor w) ! k)"
  by (simp add: seed_state_def pieces_upto_def)

lemma piece_len_32:
  "geometry_ok t \<Longrightarrow> piece_len t i < 4294967296"
  using piece_len_le [of t i] by (simp add: geometry_ok_def pieces_fit_def)

lemma length_block_message:
  "length (payload (block_message i data k)) < 4294967295"
  by (simp add: block_message_def block_at_def be32.length_enc)

lemma message_case_block:
  "message_case env pid (message_id (block_message i data k)) (incoming_of (block_message i data k)) w =
     receive_block env pid i data k w"
  by (simp add: message_case_def receive_block_def block_message_def)

lemma body_arrived_frame [simp]:
  "tor (body_arrived pid b w) = tor w" "pieceQueue (peers (body_arrived pid b w) q) = pieceQueue (peers w q)"
  "accepted (body_arrived pid b w) = accepted w" "disk (body_arrived pid b w) = disk w"
  "hasPieceIndexes (peers (body_arrived pid b w) q) = hasPieceIndexes (peers w q)"
  "pstate (peers (body_arrived pid b w) q) = pstate (peers w q)"
  "inputStream (conn_of (body_arrived pid b w) pid) = b" "nextPeer (body_arrived pid b w) = nextPeer w"
  "errlog (body_arrived pid b w) = errlog w" "core (body_arrived pid b w) = core w"
  by (simp_all add: body_arrived_def core_upd_conn)

lemma seeding_block:
  assumes s: "seeding env pid file k [partial_qpiece (tor w) k (part (tor w) file k) S h] w"
    and k: "k < length (pieces (tor w))" and b: "b < block_count (piece_len (tor w) k)"
    and more: "h + 1 \<noteq> block_count (piece_len (tor w) k)"
  shows "\<exists>w'. deliver env pid (block_message k (part (tor w) file k) b) w = Inr w' \<and> tor w' = tor w \<and>
    wire_view pid w' = wire_view pid w \<and>
    seeding env pid file k [partial_qpiece (tor w) k (part (tor w) file k) (insert b S) (h + 1)] w'"
proof -
  let ?d = "part (tor w) file k" and ?t = "tor w"
  let ?m = "block_message k ?d b"
  let ?w = "body_arrived pid (message_id ?m # payload ?m) w"
  let ?v = "upd_queue (\<lambda>qs. qs[0 := partial_qpiece ?t k ?d (insert b S) (h + 1)]) pid ?w"
  have st: "seed_state env pid file k w" and q: "pieceQueue (peers w pid) = [partial_qpiece ?t k ?d S h]"
    and g: "geometry_ok ?t"
    using s client_invD(3) by (auto simp: seeding_def)
  have f: "fetching pid k 0 (partial_qpiece (tor ?w) k ?d S h) ?w"
    using q by (simp add: fetching_def)
  have len: "length ?d = piece_len (tor ?w) k"
    using seed_length [OF st] by simp
  have "receive_block env pid k ?d b ?w = Inr (Break ?v)"
    using receive_block_run [OF f _ _ _ len] unfinished_piece [OF st k] k b more geometryD(3) [OF g] by simp
  moreover have "seed_state env pid file k ?v"
    using st by (subst seed_state_same [of _ _ ?w]) simp_all
  ultimately show ?thesis
    using seedingI [OF s length_block_message, of k ?d b ?v k] q by (simp add: message_case_block)
qed

section \<open>Asking for the next piece\<close>

lemma conn_view_request_best: "conn_view pid (request_best i pid w) = conn_view pid w"
proof -
  have "conn_view pid (sendInterested pid v) = conn_view pid v" for v
    using conn_view_hush [OF wr.rest_put, of pid "encode_msg Interested" pid v]
    by (simp add: sendInterested_encode)
  then have "conn_view pid (enqueue_piece i pid v) = conn_view pid v" for v
    by (simp add: enqueue_piece_def)
  then show ?thesis
    using conn_view_hush [OF wr.rest_put_all] by (simp add: request_best_def)
qed

lemma accepted_request_best: "accepted (request_best i pid w) = accepted w"
  using hush_eqD(12) [OF wr.rest_put_all] by (simp add: request_best_def enqueue_piece_def)

lemma pieces_upto_priority: "pieces_upto t k \<Longrightarrow> pieces_upto (set_priority k v t) k"
  by (simp add: pieces_upto_def) (simp add: set_priority_def nth_list_update)

lemma seed_request_best:
  assumes "seed_state env pid file k w"
  shows "seed_state env pid file k (request_best k pid w)"
proof -
  note t = request_best_tor [of k pid w]
  have s: "same_sizes (tor (request_best k pid w)) (tor w)"
    by (simp add: t)
  have "file_of env (tor (request_best k pid w)) file = file_of env (tor w) file"
    by (rule file_of_same [OF s]) (simp add: t)
  then show ?thesis
    using assms pieces_upto_priority conn_view_request_best [of pid k w] accepted_request_best [of k pid w] same_sizesD(1) [OF s]
    by (simp add: seed_state_def conn_view_def part_same [OF s]) (simp add: t)
qed

lemma select_next:
  assumes "client_inv env w" "seed_state env pid file k w" "k < length (pieces (tor w))"
    and "priority (pieces (tor w) ! k) = 0"
  shows "selectPieceAndRequest pid w = Inr (request_best k pid w)"
proof -
  let ?ps = "pieces (tor w)" and ?has = "hasPieceIndexes (peers w pid)"
  have up: "i < length ?ps \<Longrightarrow> finished (?ps ! i) = (i < k) \<and> (k < i \<longrightarrow> priority (?ps ! i) = 0)" for i
    using assms(2) by (simp add: seed_state_def pieces_upto_def)
  have cand: "candidates ?has ?ps = {k..<length ?ps}"
    using assms(2) up by (auto simp: candidates_def seed_state_def not_less)
  have k: "k \<in> candidates ?has ?ps"
    using assms(3) cand by simp
  have "i = k" if "best_choice ?has ?ps i" for i
  proof -
    have "k \<le> i" "i < length ?ps" "preferred ?ps i k"
      using that cand k by (auto simp: best_choice_def)
    then show ?thesis
      using up [of i] assms(4) by (cases "i = k") (auto simp: preferred_def)
  qed
  moreover have "\<not> (\<forall>j \<in> candidates ?has ?ps. priority (?ps ! j) = INT32_MAX)"
    using k assms(4) by force
  ultimately show ?thesis
    using selectPieceAndRequest_run [of w pid] geometryD [OF client_invD(3) [OF assms(1)]]
      marksD(3) [OF client_invD(4) [OF assms(1)]] by blast
qed

section \<open>Completing a piece\<close>

lemma pieces_upto_store:
  "pieces_upto t k \<Longrightarrow> pieces_upto (store_piece k n t) (Suc k)"
  by (auto simp: pieces_upto_def store_piece_def nth_list_update less_Suc_eq)

lemma conn_view_stored: "conn_view pid (stored i d w) = conn_view pid w"
  unfolding stored_def by (subst conn_view_hush [OF hush_announce]) simp

lemma stored_simps [simp]:
  "tor (stored i d w) = store_piece (unat i) (length d) (tor w)" "accepted (stored i d w) = accepted w @ [(unat i, d)]"
  by (simp_all add: stored_def)

lemma seed_stored:
  assumes "seed_state env pid file k w" "unat i = k"
  shows "seed_state env pid file (Suc k) (stored i (part (tor w) file k) w)"
proof -
  let ?v = "stored i (part (tor w) file k) w"
  have s: "same_sizes (tor ?v) (tor w)"
    by simp
  have "file_of env (tor ?v) file = file_of env (tor w) file"
    by (rule file_of_same [OF s]) simp
  moreover have "part (tor ?v) file j = part (tor w) file j" for j
    by (rule part_same) simp
  ultimately show ?thesis
    using assms pieces_upto_store conn_view_stored [of pid i _ w] same_sizesD(1) [OF s]
    by (simp add: seed_state_def conn_view_def)
qed

lemma fully_downloaded_upto:
  assumes "marks_ok t" "pieces_upto t k" "0 < k" "k \<le> length (pieces t)"
  shows "completedPieces t = getTotalPieces t \<longleftrightarrow> k = length (pieces t)"
proof -
  have "isFullyDownloaded t \<longleftrightarrow> (\<forall>i < length (pieces t). i < k)"
    using isFullyDownloaded_iff [OF assms(1)] assms(2) by (simp add: pieces_upto_def)
  also have "\<dots> \<longleftrightarrow> k = length (pieces t)"
    using assms(3, 4) by (metis le_antisym le_trans linorder_not_less order_refl)
  finally show ?thesis
    by (simp add: isFullyDownloaded_def getTotalPieces_def)
qed

lemma seed_complete:
  fixes q :: qpiece
  assumes inv: "client_inv env w" and st: "seed_state env pid file k w" and k: "k < length (pieces (tor w))"
    and fw: "\<And>s d. length d \<le> fwrite_count env s d"
  defines "w1 \<equiv> upd_queue (\<lambda>qs. qs[0 := q]) pid w"
  defines "w3 \<equiv> upd_queue (remove_at 0) pid (stored (of_nat k) (part (tor w) file k) w1)"
  shows "handlePieceCompleted env pid (of_nat k) (part (tor w) file k) w1 = Inr (stored (of_nat k) (part (tor w) file k) w1)"
    "client_inv env w3" "seed_state env pid file (Suc k) w3"
proof -
  let ?d = "part (tor w) file k"
  note g = geometryD [OF client_invD(3) [OF inv]]
  have u: "unat (of_nat k :: u32) = k"
    by (rule unat_index [OF g(3) k])
  have d: "?d \<noteq> []"
    using seed_length [OF st, of k] piece_len_pos [OF g(1) k] by auto
  have chk: "checkPieceHash env (tor w1) ?d (unat (of_nat k :: u32))"
    using st k by (simp add: u w1_def checkPieceHash_def seed_state_def file_of_def)
  show h: "handlePieceCompleted env pid (of_nat k) ?d w1 = Inr (stored (of_nat k) ?d w1)"
    using handlePieceCompleted_match [OF _ _ _ _ d chk, of pid] g marksD(1) [OF client_invD(4) [OF inv]] fw
    by (simp add: w1_def)
  show "client_inv env w3"
    using complete_safe [OF inv, of "of_nat k" ?d 0 pid q] h k d unfinished_piece [OF st k]
    by (simp add: u w1_def w3_def)
  have "seed_state env pid file k w1"
    using st by (subst seed_state_same [of _ _ w]) (simp_all add: w1_def)
  from seed_stored [OF this u] have "seed_state env pid file (Suc k) (stored (of_nat k) ?d w1)"
    by (simp add: w1_def)
  then show "seed_state env pid file (Suc k) w3"
    by (subst seed_state_same [of _ _ "stored (of_nat k) ?d w1"]) (simp_all add: w3_def)
qed

lemma stream_view: "conn_view pid v = conn_view pid w \<Longrightarrow> inputStream (conn_of v pid) = inputStream (conn_of w pid)"
  by (simp add: conn_view_def)

lemma pieceQueue_stored [simp]: "pieceQueue (peers (stored i d w) q) = pieceQueue (peers w q)"
  by (simp add: stored_def)

text \<open>
  After the last block of a piece, the next piece is asked for.  A peer that the client does not choke is
  told of the new piece as well.
\<close>

definition next_asked :: "torrent \<Rightarrow> nat \<Rightarrow> bool \<Rightarrow> message list" where
  "next_asked t k choked =
     (if k < length (pieces t) then Interested # (if choked then [] else request_messages t k) else [])"

definition replied :: "nat \<Rightarrow> nat \<Rightarrow> world \<Rightarrow> message list \<Rightarrow> world \<Rightarrow> bool" where
  "replied pid k w ns w' \<longleftrightarrow>
     sent (conn_of w' pid) = sent (conn_of w pid) @ map encode_msg ns \<and>
     pstate (peers w' pid) = (pstate (peers w pid))(AM_INTERESTED := flag w' pid AM_INTERESTED) \<and>
     (flag w pid AM_CHOKING \<longrightarrow> ns = next_asked (tor w) k (flag w pid PEER_CHOKING))"

lemma repliedD:
  assumes "replied pid k w ns w'"
  shows "sent (conn_of w' pid) = sent (conn_of w pid) @ map encode_msg ns"
    "flag w pid AM_CHOKING \<Longrightarrow> ns = next_asked (tor w) k (flag w pid PEER_CHOKING)"
    "flag w' pid AM_CHOKING = flag w pid AM_CHOKING" "flag w' pid PEER_CHOKING = flag w pid PEER_CHOKING"
proof -
  have "pstate (peers w' pid) = (pstate (peers w pid))(AM_INTERESTED := flag w' pid AM_INTERESTED)"
    using assms by (simp add: replied_def)
  note fun_cong [OF this, of AM_CHOKING] fun_cong [OF this, of PEER_CHOKING]
  then show "flag w' pid AM_CHOKING = flag w pid AM_CHOKING" "flag w' pid PEER_CHOKING = flag w pid PEER_CHOKING"
    by simp_all
qed (use assms in \<open>simp_all add: replied_def\<close>)

lemma replied_last:
  assumes "\<not> k < length (pieces (tor w))" "sent (conn_of v pid) = sent (conn_of w pid) @ map encode_msg ns"
    and "pstate (peers v pid) = pstate (peers w pid)" "flag w pid AM_CHOKING \<Longrightarrow> ns = []"
  shows "replied pid k w ns (await_prefix pid v)"
  using assms by (simp add: replied_def next_asked_def) (simp add: await_prefix_def)

lemma replied_next:
  assumes "k < length (pieces (tor w))" "sent (conn_of v pid) = sent (conn_of w pid) @ map encode_msg ns"
    and "pstate (peers v pid) = pstate (peers w pid)" "flag w pid AM_CHOKING \<Longrightarrow> ns = []"
    and "isConnected pid v" "same_sizes (tor v) (tor w)"
  shows "replied pid k w (ns @ Interested # (if flag w pid PEER_CHOKING then [] else request_messages (tor w) k))
    (await_prefix pid (request_best k pid v))"
proof -
  let ?v = "request_best k pid v"
  have "wire_view pid ?v = (sent (conn_of w pid) @ map encode_msg ns @ encode_msg Interested #
      (if flag w pid PEER_CHOKING then [] else piece_requests (tor w) k), (pstate (peers w pid))(AM_INTERESTED := True))"
    using wire_view_request_best [OF assms(5), of k] piece_requests_same [OF assms(6)] assms(2, 3) by simp
  then have "sent (conn_of (await_prefix pid ?v) pid) = sent (conn_of w pid) @ map encode_msg ns @ encode_msg Interested #
      (if flag w pid PEER_CHOKING then [] else piece_requests (tor w) k)"
    "pstate (peers (await_prefix pid ?v) pid) = (pstate (peers w pid))(AM_INTERESTED := True)"
    by (simp_all add: wire_view_def) (simp add: await_prefix_def)
  then show ?thesis
    using assms(1, 4) by (simp add: replied_def next_asked_def piece_requests_messages)
qed

lemma seeding_last:
  assumes s: "seeding env pid file k [partial_qpiece (tor w) k (part (tor w) file k) S h] w"
    and k: "k < length (pieces (tor w))" and b: "b < block_count (piece_len (tor w) k)"
    and last: "h + 1 = block_count (piece_len (tor w) k)" "insert b S = {..<block_count (piece_len (tor w) k)}"
    and fw: "\<And>s d. length d \<le> fwrite_count env s d"
  shows "\<exists>w' ns. deliver env pid (block_message k (part (tor w) file k) b) w = Inr w' \<and> same_sizes (tor w') (tor w) \<and>
    replied pid (Suc k) w ns w' \<and>
    seeding env pid file (Suc k) (if Suc k < length (pieces (tor w)) then [fresh_qpiece (tor w') (Suc k)] else []) w'"
proof -
  let ?d = "part (tor w) file k" and ?t = "tor w" and ?n = "length (pieces (tor w))"
  let ?m = "block_message k ?d b"
  let ?w = "body_arrived pid (message_id ?m # payload ?m) w"
  let ?q = "partial_qpiece ?t k ?d (insert b S) (h + 1)"
  let ?w1 = "upd_queue (\<lambda>qs. qs[0 := ?q]) pid ?w"
  define w3 where "w3 = upd_queue (remove_at 0) pid (stored (of_nat k) ?d ?w1)"
  have st: "seed_state env pid file k ?w" and q: "pieceQueue (peers ?w pid) = [partial_qpiece ?t k ?d S h]"
    and inv: "client_inv env ?w"
    using s client_inv_core [of ?w w] by (simp_all add: seeding_def)
  note g = geometryD [OF client_invD(3) [OF inv]]
  have f: "fetching pid k 0 (partial_qpiece (tor ?w) k ?d S h) ?w"
    using q by (simp add: fetching_def)
  have len: "length ?d = piece_len (tor ?w) k"
    using seed_length [OF st] by simp
  have asm: "assemble (blocks ?q) = Inr ?d"
    using assemble_partial [of ?d ?t k "h + 1"] len last(2) by simp
  note comp = seed_complete [OF inv st _ fw, of ?q, simplified, OF k]
  have w3: "client_inv env w3" "seed_state env pid file (Suc k) w3" "pieceQueue (peers w3 pid) = []"
    "tor w3 = store_piece k (length ?d) ?t"
    using comp(2, 3) q unat_index [of ?t k] g(3) k by (simp_all add: w3_def remove_at_def)
  have run: "receive_block env pid k ?d b ?w = after_piece pid 0 (stored (of_nat k) ?d ?w1)"
    using receive_block_run [OF f _ _ _ len] unfinished_piece [OF st] k b last asm g(3) comp(1) by simp
  have view: "inputStream (conn_of w3 pid) = message_id ?m # payload ?m"
    using stream_view [OF conn_view_stored [of pid "of_nat k" ?d ?w1]] by (simp add: w3_def)
  obtain ns where ns: "sent (conn_of w3 pid) = sent (conn_of w pid) @ map encode_msg ns"
    using sent_stored_some [of "of_nat k" ?d ?w1 pid] by (auto simp: w3_def) (simp add: body_arrived_def)
  have flags: "pstate (peers w3 pid) = pstate (peers w pid)"
    by (simp add: w3_def stored_def)
  have quiet: "ns = []" if "flag w pid AM_CHOKING"
    using wire_view_stored [of ?w1 pid] that ns by (simp add: w3_def wire_view_def) (simp add: body_arrived_def)
  have n: "length (pieces (tor w3)) = ?n"
    by (simp add: w3(4) same_sizesD(1))
  have upto: "pieces_upto (tor w3) (Suc k)"
    using w3(2) by (simp add: seed_state_def)
  have full: "completedPieces (tor w3) = getTotalPieces (tor w3) \<longleftrightarrow> Suc k = ?n"
    using fully_downloaded_upto [OF client_invD(4) [OF w3(1)] upto] k n by simp
  show ?thesis
  proof (cases "Suc k < ?n")
    case False
    then have "receive_block env pid k ?d b ?w = Inr (Break w3)"
      using run full k by (simp add: after_piece_def w3_def Let_def)
    then show ?thesis
      using seedingI [OF s length_block_message, of k ?d b w3 "Suc k"] w3 view False replied_last [OF False ns flags quiet]
      by (auto simp: message_case_block)
  next
    case True
    have "priority (pieces ?t ! Suc k) = 0"
      using st True by (simp add: seed_state_def pieces_upto_def)
    then have "priority (pieces (tor w3) ! Suc k) = 0"
      by (simp add: w3(4) store_piece_def)
    then have "receive_block env pid k ?d b ?w = Inr (Break (request_best (Suc k) pid w3))"
      using run full True select_next [OF w3(1, 2)] n by (simp add: after_piece_def w3_def Let_def)
    moreover have "seed_state env pid file (Suc k) (request_best (Suc k) pid w3)"
      by (rule seed_request_best [OF w3(2)])
    moreover have "inputStream (conn_of (request_best (Suc k) pid w3) pid) = message_id ?m # payload ?m"
      using stream_view [OF conn_view_request_best] view by simp
    moreover have "pieceQueue (peers (request_best (Suc k) pid w3) pid) = [fresh_qpiece (tor (request_best (Suc k) pid w3)) (Suc k)]"
      by (simp add: request_best_queue w3(3) request_best_tor)
    moreover have "same_sizes (tor (request_best (Suc k) pid w3)) ?t"
      by (simp add: request_best_tor w3(4) same_sizes_def) (simp add: store_piece_def set_priority_def)
    moreover have "isConnected pid w3" "same_sizes (tor w3) ?t"
      using w3(2) by (simp_all add: seed_state_def w3(4))
    note replied_next [OF True ns flags quiet this]
    ultimately show ?thesis
      using seedingI [OF s length_block_message, of k ?d b "request_best (Suc k) pid w3" "Suc k"] True
      by (auto simp: message_case_block)
  qed
qed

section \<open>All blocks, all pieces\<close>

lemma seeding_run:
  assumes "seeding env pid file k qs w" "length (payload m) < 4294967295" "deliver env pid m w = Inr w'"
  shows "run (swarm_step env) w (message_events pid m) w'"
  using deliver_events [of w pid m env w'] assms by (simp add: seeding_def seed_state_def)

definition next_queue :: "torrent \<Rightarrow> nat \<Rightarrow> qpiece list" where
  "next_queue t k = (if k < length (pieces t) then [fresh_qpiece t k] else [])"

definition block_events :: "nat \<Rightarrow> torrent \<Rightarrow> buffer \<Rightarrow> nat \<Rightarrow> nat list \<Rightarrow> event list" where
  "block_events pid t file k bs = concat (map (\<lambda>b. message_events pid (block_message k (part t file k) b)) bs)"

lemma seeding_blocks:
  assumes "seeding env pid file k [partial_qpiece (tor w) k (part (tor w) file k) S h] w"
    and "k < length (pieces (tor w))" "distinct bs" "bs \<noteq> []" "set bs \<inter> S = {}"
    and "S \<union> set bs = {..<block_count (piece_len (tor w) k)}" "h + length bs = block_count (piece_len (tor w) k)"
    and fw: "\<And>s d. length d \<le> fwrite_count env s d"
  shows "\<exists>w' ns. handles env pid w (map (block_message k (part (tor w) file k)) bs) ns w' \<and> same_sizes (tor w') (tor w) \<and>
    replied pid (Suc k) w ns w' \<and> seeding env pid file (Suc k) (next_queue (tor w') (Suc k)) w'"
  using assms(1-7)
proof (induction bs arbitrary: S h w)
  case Nil
  then show ?case by simp
next
  case (Cons b bs)
  note s = Cons.prems(1) and k = Cons.prems(2)
  have b: "b < block_count (piece_len (tor w) k)"
    using Cons.prems(6) by auto
  have w: "awaits_prefix (conn_of w pid)" "pid < nextPeer w"
    using s by (simp_all add: seeding_def seed_state_def)
  show ?case
  proof (cases "bs = []")
    case True
    have "insert b S = {..<block_count (piece_len (tor w) k)}" "h + 1 = block_count (piece_len (tor w) k)"
      using Cons.prems(6, 7) True by auto
    from seeding_last [OF s k b this(2, 1) fw] obtain w' ns where w':
      "deliver env pid (block_message k (part (tor w) file k) b) w = Inr w'" "same_sizes (tor w') (tor w)"
      "replied pid (Suc k) w ns w'"
      "seeding env pid file (Suc k) (if Suc k < length (pieces (tor w)) then [fresh_qpiece (tor w') (Suc k)] else []) w'"
      by blast
    moreover from this(4) have "seeding env pid file (Suc k) (next_queue (tor w') (Suc k)) w'"
      by (simp add: next_queue_def same_sizesD(1) [OF w'(2)])
    ultimately show ?thesis
      using handles_one [OF w length_block_message w'(1) repliedD(1) [OF w'(3)]] True by auto
  next
    case False
    have "h + 1 \<noteq> block_count (piece_len (tor w) k)"
      using Cons.prems(7) False by (cases bs) simp_all
    from seeding_block [OF s k b this] obtain v where v:
      "deliver env pid (block_message k (part (tor w) file k) b) w = Inr v" "tor v = tor w" "wire_view pid v = wire_view pid w"
      "seeding env pid file k [partial_qpiece (tor w) k (part (tor w) file k) (insert b S) (h + 1)] v"
      by blast
    have "insert b S \<union> set bs = S \<union> set (b # bs)" "set bs \<inter> insert b S = {}"
      using Cons.prems(3, 5) by auto
    with Cons.IH [of v "insert b S" "h + 1"] v Cons.prems k False
    obtain w' ns where w': "handles env pid v (map (block_message k (part (tor w) file k)) bs) ns w'" "same_sizes (tor w') (tor w)"
      "replied pid (Suc k) v ns w'" "seeding env pid file (Suc k) (next_queue (tor w') (Suc k)) w'"
      by auto
    have "replied pid (Suc k) w ns w'"
      using w'(3) v(2, 3) by (simp add: replied_def wire_view_def)
    moreover have "handles env pid w [block_message k (part (tor w) file k) b] [] v"
      using handles_one [OF w length_block_message v(1), of "[]"] v(3) by (simp add: wire_view_def)
    ultimately show ?thesis
      using handles_append [OF _ w'(1)] w'(2, 4) by fastforce
  qed
qed

text \<open>An order in which the blocks of each piece are sent: each of them once.\<close>

definition block_orders :: "torrent \<Rightarrow> (nat \<Rightarrow> nat list) \<Rightarrow> bool" where
  "block_orders t ord \<longleftrightarrow>
     (\<forall>i < length (pieces t). distinct (ord i) \<and> set (ord i) = {..<block_count (piece_len t i)})"

definition file_events :: "nat \<Rightarrow> torrent \<Rightarrow> buffer \<Rightarrow> (nat \<Rightarrow> nat list) \<Rightarrow> nat list \<Rightarrow> event list" where
  "file_events pid t file ord ks = concat (map (\<lambda>k. block_events pid t file k (ord k)) ks)"

lemma block_events_same: "same_sizes t' t \<Longrightarrow> block_events pid t' file k = block_events pid t file k"
  by (simp add: block_events_def part_same fun_eq_iff)

lemma block_orders_same: "same_sizes t' t \<Longrightarrow> block_orders t' ord = block_orders t ord"
  by (simp add: block_orders_def same_sizesD)

lemma block_count_pos: "0 < l \<Longrightarrow> 0 < block_count l"
  by (simp add: block_count_def)

lemma seeding_piece:
  assumes "seeding env pid file k (next_queue (tor w) k) w" "k < length (pieces (tor w))"
    and "distinct bs" "set bs = {..<block_count (piece_len (tor w) k)}"
    and fw: "\<And>s d. length d \<le> fwrite_count env s d"
  shows "\<exists>w' ns. handles env pid w (map (block_message k (part (tor w) file k)) bs) ns w' \<and> same_sizes (tor w') (tor w) \<and>
    replied pid (Suc k) w ns w' \<and> seeding env pid file (Suc k) (next_queue (tor w') (Suc k)) w'"
proof -
  have len: "length bs = block_count (piece_len (tor w) k)"
    using distinct_card [OF assms(3)] assms(4) by simp
  have g: "wf_sizes (tor w)"
    using assms(1) geometryD(1) client_invD(3) by (auto simp: seeding_def)
  have "bs \<noteq> []"
    using len block_count_pos [OF piece_len_pos [OF g assms(2)]] by auto
  moreover have "seeding env pid file k [partial_qpiece (tor w) k (part (tor w) file k) {} 0] w"
    using assms(1, 2) by (simp add: next_queue_def fresh_partial [of _ _ "part (tor w) file k"])
  ultimately show ?thesis
    using seeding_blocks [of env pid "file" k w "{}" 0 bs] assms(2-4) len fw by auto
qed

lemma seeding_pieces:
  assumes "seeding env pid file k (next_queue (tor w) k) w" "k \<le> length (pieces (tor w))" "block_orders (tor w) ord"
    and fw: "\<And>s d. length d \<le> fwrite_count env s d"
  shows "\<exists>w'. run (swarm_step env) w (file_events pid (tor w) file ord [k..<length (pieces (tor w))]) w' \<and>
    same_sizes (tor w') (tor w) \<and> seeding env pid file (length (pieces (tor w))) [] w'"
  using assms(1-3)
proof (induction "length (pieces (tor w)) - k" arbitrary: k w)
  case 0
  then have "k = length (pieces (tor w))"
    by simp
  then show ?case
    using "0.prems"(1) run_nil [of "swarm_step env" w]
    by (intro exI [of _ w]) (simp add: file_events_def next_queue_def same_sizes_def)
next
  case (Suc x)
  let ?t = "tor w" and ?n = "length (pieces (tor w))"
  have k: "k < ?n"
    using Suc.hyps(2) by simp
  have "distinct (ord k)" "set (ord k) = {..<block_count (piece_len ?t k)}"
    using Suc.prems(3) k by (simp_all add: block_orders_def)
  then obtain v0 ns where h: "handles env pid w (map (block_message k (part ?t file k)) (ord k)) ns v0"
      and v0: "same_sizes (tor v0) ?t" "seeding env pid file (Suc k) (next_queue (tor v0) (Suc k)) v0"
    using seeding_piece [OF Suc.prems(1) k _ _ fw] by blast
  then obtain v where v: "run (swarm_step env) w (block_events pid ?t file k (ord k)) v" "same_sizes (tor v) ?t"
      "seeding env pid file (Suc k) (next_queue (tor v) (Suc k)) v"
    using handles_run [OF h] by (auto simp: block_events_def comp_def)
  have n: "length (pieces (tor v)) = ?n"
    by (rule same_sizesD(1) [OF v(2)])
  have "file_events pid (tor v) file ord ks = file_events pid ?t file ord ks" for ks
    by (simp add: file_events_def block_events_same [OF v(2)])
  moreover have "x = ?n - Suc k"
    using Suc.hyps(2) k by simp
  ultimately
  obtain w' where w': "run (swarm_step env) v (file_events pid ?t file ord [Suc k..<?n]) w'" "same_sizes (tor w') (tor v)"
      "seeding env pid file ?n [] w'"
    using Suc.hyps(1) [of v "Suc k"] Suc.prems(3) v(3) k n block_orders_same [OF v(2)] by auto
  have "file_events pid ?t file ord [k..<?n] = block_events pid ?t file k (ord k) @ file_events pid ?t file ord [Suc k..<?n]"
    using k by (simp add: file_events_def upt_conv_Cons)
  moreover have "same_sizes (tor w') ?t"
    using w'(2) v(2) by (simp add: same_sizes_def)
  ultimately show ?case
    using run_append [OF v(1) w'(1)] w'(3) by auto
qed

section \<open>From the first connection to the first request\<close>

text \<open>The client after the handshake of the first connection, before it knows what the peer has.\<close>

definition greeted :: "env \<Rightarrow> torrent \<Rightarrow> nat \<Rightarrow> world \<Rightarrow> bool" where
  "greeted env t pid w \<longleftrightarrow>
     client_inv env w \<and> awaits_prefix (conn_of w pid) \<and> pieceQueue (peers w pid) = [] \<and> hasPieceIndexes (peers w pid) = [] \<and>
     pid < nextPeer w \<and> accepted w = [] \<and> same_sizes (tor w) t \<and> pieces (tor w) = pieces t"

definition seed_handshake :: "torrent \<Rightarrow> buffer \<Rightarrow> buffer \<Rightarrow> buffer" where
  "seed_handshake t reserved i = handshake_of 19 protocol_name reserved (slice 28 20 (handshake t)) i"

lemma seed_handshake_ok:
  assumes "length (handshake t) = 68" "length reserved = 8" "length i = 20" "handshake u = handshake t"
  shows "length (seed_handshake t reserved i) = 68" "\<not> handshake_mismatch (handshake u) (seed_handshake t reserved i) 68"
proof -
  have "length protocol_name = 19" "length (slice 28 20 (handshake t)) = 20"
    using assms(1) by (simp_all add: protocol_name_def slice_def)
  note parts = handshake_parts [OF this(1) assms(2) this(2) assms(3)] handshake_mismatch_iff [OF this(1) assms(2) this(2) assms(3)]
  show "length (seed_handshake t reserved i) = 68" "\<not> handshake_mismatch (handshake u) (seed_handshake t reserved i) 68"
    by (simp_all only: seed_handshake_def parts) (simp add: assms(4))
qed

text \<open>
  A connection that has agreed on the handshake waits for the first message, and nothing else the
  rest of the development looks at has changed.
\<close>

definition agreed :: "nat \<Rightarrow> world \<Rightarrow> world \<Rightarrow> bool" where
  "agreed pid w w' \<longleftrightarrow>
     core w' = core w \<and> awaits_prefix (conn_of w' pid) \<and> nextPeer w' = nextPeer w \<and>
     hasPieceIndexes (peers w' pid) = hasPieceIndexes (peers w pid) \<and> pstate (peers w' pid) = pstate (peers w pid)"

lemma agreed_greeted:
  assumes "agreed pid w w'" "client_inv env w'" "pieceQueue (peers w pid) = []" "hasPieceIndexes (peers w pid) = []"
    and "pid < nextPeer w" "accepted w = []" "same_sizes (tor w) t" "pieces (tor w) = pieces t"
  shows "greeted env t pid w'"
proof -
  have "core w' = core w"
    using assms(1) by (simp add: agreed_def)
  then have "pieceQueue (peers w' pid) = pieceQueue (peers w pid)" "accepted w' = accepted w" "pieces (tor w') = pieces (tor w)"
      "same_sizes (tor w') (tor w)"
    using core_same_sizes by (simp_all add: core_def fun_eq_iff)
  then show ?thesis
    using assms by (simp add: greeted_def agreed_def same_sizes_def)
qed

lemma nextPeer_handshaked [simp]: "nextPeer (handshaked pid w) = nextPeer w"
  by (simp add: handshaked_def)

lemma on_read_authenticate:
  assumes "isConnected pid w" "readCB (conn_of w pid) = Some Authenticate_handshake" "inputStream (conn_of w pid) = []"
    and "length hs = 68" "\<not> handshake_mismatch (handshake (tor w)) hs 68"
  shows "\<exists>w'. on_read env pid hs w = Inr w' \<and> agreed pid w w' \<and>
    sent (conn_of w' pid) = sent (conn_of w pid) @ [handshake (tor w), encode_msg (Bitfield (getRawBitfield (tor w)))]"
proof -
  define w1 where "w1 = upd_conn pid (\<lambda>c. c\<lparr>inputStream := inputStream c @ hs, reading := None\<rparr>) w"
  define v where "v = handshaked pid (conn_write (handshake (tor w1)) pid (set_peerId (slice 48 20 hs) pid w1))"
  define w2 where "w2 = conn_read 4 Handle pid (conn_write (encode_msg (Bitfield (getRawBitfield (tor v)))) pid v)"
  define w3 where "w3 = upd_conn pid (\<lambda>c. c\<lparr>inputStream := drop 68 (inputStream c)\<rparr>) w2"
  have c: "readCB (conn_of w1 pid) = Some Authenticate_handshake" "inputStream (conn_of w1 pid) = hs" "isConnected pid w1"
      "handshake (tor w1) = handshake (tor w)"
    using assms(1-3) by (simp_all add: w1_def isConnected_def)
  have v: "isConnected pid v" "isConnected pid (set_peerId i pid w1)" for i
    using c(3) by (simp_all add: v_def set_peerId_def isConnected_def conn_write_def)
  have "on_authenticate_handshake pid hs 68 w1 = Inr w2"
    using assms(5) c(4) by (simp add: on_authenticate_handshake_def sendBitfield_encode Let_def v_def w2_def)
  then have "on_read env pid hs w = Inr w3"
    unfolding on_read_def Let_def w1_def [symmetric] c(1, 2) assms(4) by (simp add: run_read_cb_def w3_def)
  moreover have "core w3 = core w"
    by (simp add: w3_def w2_def v_def w1_def core_simps)
  moreover have "getRawBitfield (tor v) = getRawBitfield (tor w)"
    by (simp add: v_def w1_def set_peerId_def getRawBitfield_def)
  moreover have "isConnected pid (conn_write b pid v)" for b
    using v(1) by simp
  ultimately show ?thesis
    using v assms(4)
    by (simp add: agreed_def w3_def w2_def conn_read_open conn_write_open awaits_prefix_def isConnected_def)
      (simp add: v_def conn_write_open isConnected_def set_peerId_def w1_def assms(3))
qed

lemma on_read_connected:
  assumes "isConnected pid w" "readCB (conn_of w pid) = Some Connect_handshake" "inputStream (conn_of w pid) = []"
    and "length hs = 68" "\<not> handshake_mismatch (handshake (tor w)) hs 68"
  shows "\<exists>w'. on_read env pid hs w = Inr w' \<and> agreed pid w w' \<and> sent (conn_of w' pid) = sent (conn_of w pid)"
proof -
  define w1 where "w1 = upd_conn pid (\<lambda>c. c\<lparr>inputStream := inputStream c @ hs, reading := None\<rparr>) w"
  define v where "v = handshaked pid (set_peerId (slice 48 20 hs) pid w1)"
  define w3 where "w3 = upd_conn pid (\<lambda>c. c\<lparr>inputStream := drop 68 (inputStream c)\<rparr>) (conn_read 4 Handle pid v)"
  have c: "readCB (conn_of w1 pid) = Some Connect_handshake" "inputStream (conn_of w1 pid) = hs" "isConnected pid w1"
      "handshake (tor w1) = handshake (tor w)"
    using assms(1-3) by (simp_all add: w1_def isConnected_def)
  have v: "isConnected pid v"
    using c(3) by (simp add: v_def set_peerId_def isConnected_def)
  have "on_connect_handshake pid hs 68 w1 = conn_read 4 Handle pid v"
    using assms(5) c(4) by (simp add: on_connect_handshake_def v_def)
  then have "on_read env pid hs w = Inr w3"
    unfolding on_read_def Let_def w1_def [symmetric] c(1, 2) assms(4) by (simp add: run_read_cb_def w3_def)
  moreover have "core w3 = core w"
    by (simp add: w3_def v_def w1_def core_simps)
  ultimately show ?thesis
    using v assms(4)
    by (simp add: agreed_def w3_def conn_read_open awaits_prefix_def isConnected_def)
      (simp add: v_def set_peerId_def w1_def assms(3))
qed

lemma run_greeting:
  assumes "swarm_inv env (start_world t d)" and "length (handshake t) = 68" "length reserved = 8" "length i = 20"
  shows "\<exists>w. run (swarm_step env) (start_world t d)
      [StartAccepting lp True, Accepted (Some a), Received 0 (seed_handshake t reserved i)] w \<and> greeted env t 0 w"
proof -
  let ?hs = "seed_handshake t reserved i"
  define w1 where "w1 = upd_tor (listen lp) (start_world t d)"
  define w2 where "w2 = on_accepted (Some a) w1"
  have c2: "conn_of w2 0 = new_connection\<lparr>socket_open := True, remote := Some a, errorCB := True,
      readCB := Some Authenticate_handshake, reading := Some 68\<rparr>"
    and q2: "pieceQueue (peers w2 0) = []" "hasPieceIndexes (peers w2 0) = []" "0 < nextPeer w2" "accepted w2 = []"
      "same_sizes (tor w2) t" "pieces (tor w2) = pieces t" and t2: "handshake (tor w2) = handshake t"
    by (simp_all add: w2_def w1_def on_accepted_def Let_def make_peer_def start_world_def peer_authenticate_def
        setErrorCallback_def conn_read_def isConnected_def new_peer_def blacklist_def same_sizes_def)
  have s1: "swarm_step env (start_world t d) (StartAccepting lp True) w1"
    by (simp add: swarm_step_iff w1_def start_accepting_run)
  have s2: "swarm_step env w1 (Accepted (Some a)) w2"
    by (simp add: swarm_step_iff w2_def) (simp add: w1_def)
  note hs = seed_handshake_ok [OF assms(2-4) t2]
  obtain w3 where w3: "on_read env 0 ?hs w2 = Inr w3" "agreed 0 w2 w3"
    using on_read_authenticate [of 0 w2, OF _ _ _ hs, of env] by (auto simp: isConnected_def c2 new_connection_def)
  then have s3: "swarm_step env w2 (Received 0 ?hs) w3"
    using q2(3) by (simp add: swarm_step_iff c2 hs(1))
  have run: "run (swarm_step env) (start_world t d) ([StartAccepting lp True] @ [Accepted (Some a)] @ [Received 0 ?hs]) w3"
    using run_append [OF run_one [OF s1] run_append [OF run_one [OF s2] run_one [OF s3]]] .
  have "client_inv env w3"
    using swarm_invD(1) [OF sw.run_keeps [OF run assms(1)]] .
  then show ?thesis
    using run agreed_greeted [OF w3(2) _ q2] by auto
qed

text \<open>The bit field of a peer that has everything.\<close>

definition full_bitfield :: "torrent \<Rightarrow> message" where
  "full_bitfield t = Bitfield (getRawBitfield (t\<lparr>bitfield := replicate (length (pieces t)) True\<rparr>))"

lemma full_bitfield_scan:
  "bitfield_scan (length (pieces t)) 0 (payload (full_bitfield t)) = [0..<length (pieces t)]"
  using bitfield_scan_sent [of "t\<lparr>bitfield := replicate (length (pieces t)) True\<rparr>" "length (pieces t)"]
  by (simp add: full_bitfield_def filter_id_conv)

lemma length_full_bitfield: "length (payload (full_bitfield t)) = (length (pieces t) + 7) div 8"
  by (simp add: full_bitfield_def getRawBitfield_def to_block_range_def)

lemma incoming_of_fields [simp]:
  "getSize (incoming_of m) = of_nat (length (payload m))" "getBuffer (incoming_of m) = payload m"
  by (simp_all add: incoming_of_def IncomingMessage_def getSize_def getBuffer_def)

lemma deliver_full_bitfield:
  assumes g: "greeted env t pid w" and new: "pieces t = map new_piece hs" "file_of env t file"
  shows "\<exists>w'. deliver env pid (full_bitfield t) w = Inr w' \<and> same_sizes (tor w') t \<and>
    wire_view pid w' =
      (sent (conn_of w pid) @ encode_msg Interested # (if flag w pid PEER_CHOKING then [] else piece_requests (tor w) 0),
       (pstate (peers w pid))(AM_INTERESTED := True)) \<and>
    seeding env pid file 0 (next_queue (tor w') 0) w'"
proof -
  let ?m = "full_bitfield t" and ?n = "length (pieces t)"
  let ?w = "body_arrived pid (message_id ?m # payload ?m) w"
  let ?v = "upd_peer pid (\<lambda>r. r\<lparr>hasPieceIndexes := hasPieceIndexes r @ [0..<?n]\<rparr>) ?w"
  have w: "client_inv env w" "awaits_prefix (conn_of w pid)" "pieces (tor w) = pieces t" "same_sizes (tor w) t"
      "pieceQueue (peers w pid) = []"
    using g by (simp_all add: greeted_def)
  note geo = geometryD [OF client_invD(3) [OF w(1)]]
  have n: "0 < ?n" "?n \<le> 2 ^ 32"
    using geo(1, 3) w(3) by (simp_all add: wf_sizes_def pieces_fit_def)
  then have "8 \<le> ?n + 7" by linarith
  then have len: "0 < length (payload ?m)" "length (payload ?m) < 4294967295"
    using n(2) by (simp_all add: length_full_bitfield div_greater_zero_iff)
  then have u: "unat (of_nat (length (payload ?m)) :: u64) = length (payload ?m)"
    by (intro unat_of_nat_u64) simp
  with len(1) have ge: "\<not> (of_nat (length (payload ?m)) :: u64) < 1"
    by (simp add: word_less_nat_alt)
  have inv: "client_inv env ?v"
    using w(1) client_inv_core [of ?w w] by (simp add: quiet_simps client_inv_core [OF core_has])
  have pri: "priority (pieces t ! i) = 0" "\<not> finished (pieces t ! i)" if "i < ?n" for i
    using that new(1) by (simp_all add: new_piece_def)
  have st: "seed_state env pid file 0 ?v"
    using g file_of_same [OF w(4), of env "file"] new(2) w(3) pri
    by (auto simp: seed_state_def greeted_def pieces_upto_def isConnected_def awaits_prefix_def body_arrived_def)
  have "\<not> isFullyDownloaded (tor w)"
    using isFullyDownloaded_iff [OF client_invD(4) [OF w(1)]] n(1) pri(2) w(3) by auto
  then have "message_case env pid (message_id ?m) (incoming_of ?m) ?w = Inr (Break (request_best 0 pid ?v))"
    using select_next [OF inv st] n(1) pri(1) w(3) ge u full_bitfield_scan [of t]
    by (simp add: message_case_def full_bitfield_def on_bitfield_def Let_def getTotalPieces_def del: One_nat_def)
  note run = this
  have "seed_state env pid file 0 (request_best 0 pid ?v)"
    by (rule seed_request_best [OF st])
  moreover have "isConnected pid ?v" "inputStream (conn_of ?v pid) = message_id ?m # payload ?m"
    using st by (simp_all add: seed_state_def)
  then have "isConnected pid (request_best 0 pid ?v) \<and>
      inputStream (conn_of (request_best 0 pid ?v) pid) = message_id ?m # payload ?m"
    using conn_view_request_best [of pid 0 ?v] by (simp add: conn_view_def)
  moreover have "wire_view pid (request_best 0 pid ?v) =
      (sent (conn_of w pid) @ encode_msg Interested # (if flag w pid PEER_CHOKING then [] else piece_requests (tor w) 0),
       (pstate (peers w pid))(AM_INTERESTED := True))"
    using wire_view_request_best [of pid ?v 0] st by (simp add: seed_state_def body_arrived_def)
  moreover have "pieceQueue (peers (request_best 0 pid ?v) pid) = next_queue (tor (request_best 0 pid ?v)) 0"
    using n(1) w(3, 5) by (simp add: request_best_queue request_best_tor next_queue_def)
  moreover have "same_sizes (tor (request_best 0 pid ?v)) t"
    using w(4) by (simp add: request_best_tor) (simp add: same_sizes_def set_priority_def)
  ultimately show ?thesis
    using seedingI0 [OF w(1, 2) len(2) run] by auto
qed

lemma deliver_unchoke:
  assumes s: "seeding env pid file 0 (next_queue (tor w) 0) w"
  shows "\<exists>w'. deliver env pid Unchoke w = Inr w' \<and> tor w' = tor w \<and>
    wire_view pid w' = (sent (conn_of w pid) @ piece_requests (tor w) 0, (pstate (peers w pid))(PEER_CHOKING := False)) \<and>
    seeding env pid file 0 (next_queue (tor w') 0) w'"
proof -
  let ?w = "body_arrived pid [1] w"
  let ?w1 = "upd_peer pid (set_flag PEER_CHOKING False) ?w"
  let ?v = "wr.put_all (piece_requests (tor w) 0) pid ?w1"
  have w: "client_inv env w" "seed_state env pid file 0 w" "pieceQueue (peers w pid) = next_queue (tor w) 0"
    using s by (simp_all add: seeding_def)
  have wf: "wf_sizes (tor w)"
    using geometryD(1) [OF client_invD(3) [OF w(1)]] .
  then have n: "0 < length (pieces (tor w))"
    by (simp add: wf_sizes_def)
  note hush = hush_eqD [OF wr.rest_put_all [of "piece_requests (tor w) 0" pid ?w1]]
  have "requestPiece 0 pid ?w1 = Inr ?v"
    using requestPiece_run [of ?w1 0 pid] wf n by simp
  then have run: "message_case env pid (message_id Unchoke) (incoming_of Unchoke) ?w = Inr (Break ?v)"
    using w(3) n by (simp add: message_case_def on_unchoke_def next_queue_def fresh_qpiece_def)
  have view: "conn_view pid ?v = conn_view pid ?w"
    using conn_view_hush [OF wr.rest_put_all] by simp
  have st: "seed_state env pid file 0 ?v"
    using seed_state_same [OF view] hush(1, 12) w(2) by simp
  have "isConnected pid ?w1"
    using w(2) by (simp add: seed_state_def isConnected_def body_arrived_def)
  then have wire: "wire_view pid ?v = (sent (conn_of w pid) @ piece_requests (tor w) 0, (pstate (peers w pid))(PEER_CHOKING := False))"
    by (simp add: wire_view_put_all) (simp add: body_arrived_def set_flag_def)
  have "pieceQueue (peers ?v pid) = next_queue (tor w) 0" "inputStream (conn_of ?v pid) = [1]"
    using hush(6) w(3) stream_view [OF view] by simp_all
  with seedingI [OF s, of Unchoke ?v 0] run st show ?thesis
    using hush(1) wire by simp
qed

section \<open>The whole download\<close>

text \<open>
  What the peer does: it connects, sends its handshake, its bit field, unchokes the client, and sends
  the blocks of the pieces, piece by piece, the blocks of a piece in the order \<open>ord\<close>.
\<close>

definition sharing_events :: "nat \<Rightarrow> torrent \<Rightarrow> buffer \<Rightarrow> (nat \<Rightarrow> nat list) \<Rightarrow> event list" where
  "sharing_events pid t file ord =
     message_events pid (full_bitfield t) @ message_events pid Unchoke @ file_events pid t file ord [0..<length (pieces t)]"

definition seed_events :: "u16 \<Rightarrow> torrent \<Rightarrow> buffer \<Rightarrow> (nat \<Rightarrow> nat list) \<Rightarrow> u32 \<Rightarrow> buffer \<Rightarrow> buffer \<Rightarrow> event list" where
  "seed_events lp t file ord a reserved i =
     [StartAccepting lp True, Accepted (Some a), Received 0 (seed_handshake t reserved i)] @ sharing_events 0 t file ord"

lemma seeding_contents:
  assumes "seeding env pid file (length (pieces (tor w))) [] w"
  shows "isFullyDownloaded (tor w)" "take (length file) (contents (disk w)) = file" "full_length w"
proof -
  let ?t = "tor w"
  have w: "client_inv env w" "seed_state env pid file (length (pieces ?t)) w"
    using assms by (simp_all add: seeding_def)
  note store = client_invD(1) [OF w(1)]
  have fin: "\<forall>i < length (pieces ?t). finished (pieces ?t ! i)"
    using w(2) by (simp add: seed_state_def pieces_upto_def)
  then show "isFullyDownloaded ?t"
    using isFullyDownloaded_iff [OF client_invD(4) [OF w(1)]] by simp
  show full: "full_length w"
    by (rule seed_full_length [OF w(2)])
  have "part ?t (contents (disk w)) i = part ?t file i" if "i < length (pieces ?t)" for i
  proof -
    have "i \<in> fst ` set (accepted w)"
      using store_invD(3) [OF store] fin that by (simp add: accepted_ok_def finished_set_def)
    then obtain d where d: "(i, d) \<in> set (accepted w)"
      by auto
    then have "on_disk ?t (contents (disk w)) i d"
      using store_invD(4) [OF store full] by (auto simp: data_ok_def)
    moreover have "d = part ?t file i"
      using w(2) d by (auto simp: seed_state_def)
    ultimately show ?thesis
      by (simp add: on_disk_def part_def)
  qed
  then have "map (part ?t (contents (disk w))) [0..<length (pieces ?t)] = map (part ?t file) [0..<length (pieces ?t)]"
    by simp
  then have "take (unat (totalSize ?t)) (contents (disk w)) = take (unat (totalSize ?t)) file"
    using concat_all_parts [OF geometryD(1) [OF client_invD(3) [OF w(1)]]] by metis
  then show "take (length file) (contents (disk w)) = file"
    using w(2) by (simp add: seed_state_def file_of_def)
qed

lemma honest_sharing:
  assumes g: "greeted env t pid w1" and t: "pieces t = map new_piece hs" "file_of env t file" "block_orders t ord"
    and fw: "\<And>s d. length d \<le> fwrite_count env s d"
  shows "\<exists>w. run (swarm_step env) w1 (sharing_events pid t file ord) w \<and>
    isFullyDownloaded (tor w) \<and> take (length file) (contents (disk w)) = file \<and> full_length w"
proof -
  obtain w2 where w2: "deliver env pid (full_bitfield t) w1 = Inr w2" "same_sizes (tor w2) t"
      "seeding env pid file 0 (next_queue (tor w2) 0) w2"
    using deliver_full_bitfield [OF g t(1, 2)] by blast
  have inv: "client_inv env w1" "length (pieces (tor w1)) = length (pieces t)"
    using g by (simp_all add: greeted_def)
  then have "length (pieces t) \<le> 2 ^ 32"
    using geometryD(3) [OF client_invD(3) [OF inv(1)]] by (simp add: pieces_fit_def)
  then have "length (payload (full_bitfield t)) < 4294967295"
    by (simp add: length_full_bitfield)
  then have r2: "run (swarm_step env) w1 (message_events pid (full_bitfield t)) w2"
    using deliver_events [OF _ _ _ w2(1)] g by (simp add: greeted_def)
  obtain w3 where w3: "deliver env pid Unchoke w2 = Inr w3" "tor w3 = tor w2"
      "seeding env pid file 0 (next_queue (tor w3) 0) w3"
    using deliver_unchoke [OF w2(3)] by blast
  have r3: "run (swarm_step env) w2 (message_events pid Unchoke) w3"
    using seeding_run [OF w2(3) _ w3(1)] by simp
  have s: "same_sizes (tor w3) t" "length (pieces (tor w3)) = length (pieces t)"
    using w2(2) w3(2) same_sizesD(1) by simp_all
  have e: "file_events pid (tor w3) file ord ks = file_events pid t file ord ks" for ks
    by (simp add: file_events_def block_events_same [OF s(1)])
  obtain w where w: "run (swarm_step env) w3 (file_events pid t file ord [0..<length (pieces t)]) w"
      "same_sizes (tor w) (tor w3)" "seeding env pid file (length (pieces (tor w3))) [] w"
    using seeding_pieces [OF w3(3) _ _ fw, of ord] block_orders_same [OF s(1)] t(3) s(2) e by auto
  have "length (pieces (tor w)) = length (pieces (tor w3))"
    by (rule same_sizesD(1) [OF w(2)])
  with seeding_contents [of env pid "file" w] w(3) run_append [OF r2 run_append [OF r3 w(1)]]
  show ?thesis
    unfolding sharing_events_def by auto
qed

lemma honest_download:
  assumes "swarm_inv env (start_world t d)" "length (handshake t) = 68" "pieces t = map new_piece hs"
    and "file_of env t file" "block_orders t ord" "length reserved = 8" "length i = 20"
    and fw: "\<And>s d. length d \<le> fwrite_count env s d"
  shows "\<exists>w. run (swarm_step env) (start_world t d) (seed_events lp t file ord a reserved i) w \<and>
    isFullyDownloaded (tor w) \<and> take (length file) (contents (disk w)) = file \<and> full_length w"
proof -
  obtain w1 where w1: "run (swarm_step env) (start_world t d)
      [StartAccepting lp True, Accepted (Some a), Received 0 (seed_handshake t reserved i)] w1" "greeted env t 0 w1"
    using run_greeting [OF assms(1, 2, 6, 7)] by blast
  show ?thesis
    using honest_sharing [OF w1(2) assms(3-5) fw] run_append [OF w1(1)] unfolding seed_events_def by blast
qed

lemma parsed_start:
  assumes "describes lib fs md" "sizes_consistent md" "parseFile env lib fs dir Torrent = Inr (SUCCESS, t, d)"
  shows "swarm_inv env (start_world t d)" "length (handshake t) = 68" "pieces t = map new_piece (m_hashes md)"
    "mainTrackerUrl t = m_url md" "client_run env lib fs dir md [] (start_world t d)"
    "blackListed t = {}" "activePeers t = []"
proof -
  have t: "t = parsed env lib dir md" "d = opened fs"
    using parseFile_described [OF assms(1) fopen_ok_SUCCESS [OF assms(1, 3)], of env dir] assms(3) by simp_all
  have "length (digest_bytes env x) = 20" for x
    by (simp add: digest_bytes_def upt_rec be32.length_enc)
  then show "length (handshake t) = 68"
    by (simp add: t parsed_def Torrent_def make_handshake_def to_bytes_def peer_id_bytes_def)
  show "pieces t = map new_piece (m_hashes md)" "mainTrackerUrl t = m_url md" "blackListed t = {}" "activePeers t = []"
    by (simp_all add: t parsed_def Torrent_def)
  show "swarm_inv env (start_world t d)"
    unfolding t by (rule start_inv [OF assms(2)])
  show "client_run env lib fs dir md [] (start_world t d)"
    using assms by (auto simp: client_run_def intro: run_nil)
qed

lemma file_of_length:
  assumes "describes lib fs md" "sizes_consistent md" "parseFile env lib fs dir Torrent = Inr (SUCCESS, t, d)" "file_of env t file"
  shows "length file = unat (m_total md)"
  using client_run_fixed(3) [OF parsed_start(5) [OF assms(1-3)]] assms(4) by (simp add: file_of_def start_world_def)

lemma honest_client_run:
  assumes "describes lib fs md" "sizes_consistent md" "parseFile env lib fs dir Torrent = Inr (SUCCESS, t, d)"
    and "file_of env t file" "block_orders t ord" "length reserved = 8" "length i = 20"
    and "\<And>s d. length d \<le> fwrite_count env s d"
  shows "\<exists>w. client_run env lib fs dir md (seed_events lp t file ord a reserved i) w \<and>
    isFullyDownloaded (tor w) \<and> contents (disk w) = file @ drop (length file) (contents d) \<and> full_length w"
proof -
  obtain w where w: "client_run env lib fs dir md (seed_events lp t file ord a reserved i) w" "isFullyDownloaded (tor w)"
      "take (length file) (contents (disk w)) = file" "full_length w"
    using honest_download [where a = a and lp = lp, OF parsed_start(1-3) [OF assms(1-3)] assms(4-8)] assms(1-3)
    by (auto simp: client_run_def)
  from client_run_whole [OF w(1, 4, 3) file_of_length [OF assms(1-4)] assms(3)] w show ?thesis
    by blast
qed

section \<open>Properties\<close>

text \<open>
  C8: a download completes.  A client started on a well-formed torrent file, whose disk takes every write
  completely, and one peer that connects, has the file and sends it, piece by piece and in any order within
  a piece: after these events the client is done, and its download file is that file, followed by what a
  longer file that was there before had beyond this length (the client does not truncate it).
\<close>

theorem honest_seed_completes:
  assumes "describes lib fs md" "sizes_consistent md" "parseFile env lib fs dir Torrent = Inr (SUCCESS, t, d)"
    and "file_of env t file" "block_orders t ord" "length reserved = 8" "length i = 20"
    and "\<And>s d. length d \<le> fwrite_count env s d"
  shows "\<exists>w. client_run env lib fs dir md (seed_events lp t file ord a reserved i) w \<and>
    isFullyDownloaded (tor w) \<and> contents (disk w) = file @ drop (length file) (contents d) \<and> full_length w"
  using assms by (rule honest_client_run)

end
