(* ===== verification/Dialled_Seed.thy ===== *)
theory Dialled_Seed
  imports Honest_Seed
begin

text \<open>
  The other way a download begins: the tracker names peers, the client dials them, and one of them has
  the file.  The others need not even answer.
\<close>

section \<open>The handshake of a peer that was dialled\<close>

text \<open>
  The host name is resolved, the connection is made, and the peer answers our handshake with its own.
\<close>

definition dialled_events :: "nat \<Rightarrow> torrent \<Rightarrow> buffer \<Rightarrow> (nat \<Rightarrow> nat list) \<Rightarrow> u32 \<Rightarrow> buffer \<Rightarrow> buffer \<Rightarrow> event list" where
  "dialled_events pid t file ord a reserved i =
     [Resolved pid, Connected pid (Some a), Received pid (seed_handshake t reserved i)] @ sharing_events pid t file ord"

text \<open>The connection after it was made: our handshake is sent, the other one is waited for.\<close>

lemma made_connection:
  assumes "connCB (conn_of w pid)" "inputStream (conn_of w pid) = []" and w2: "w2 = on_connect_done (Some a) pid (on_resolved pid w)"
  shows "isConnected pid w2" "readCB (conn_of w2 pid) = Some Connect_handshake"
    "reading (conn_of w2 pid) = Some 68" "inputStream (conn_of w2 pid) = []"
    "sent (conn_of w2 pid) = sent (conn_of w pid) @ [handshake (tor w)]"
    "pieceQueue (peers w2 pid) = pieceQueue (peers w pid)" "hasPieceIndexes (peers w2 pid) = hasPieceIndexes (peers w pid)"
    "pstate (peers w2 pid) = pstate (peers w pid)" "nextPeer w2 = nextPeer w" "tor w2 = tor w" "accepted w2 = accepted w"
    "core w2 = core w" "disk w2 = disk w"
proof -
  show "isConnected pid w2" "readCB (conn_of w2 pid) = Some Connect_handshake"
    "reading (conn_of w2 pid) = Some 68" "inputStream (conn_of w2 pid) = []"
    "sent (conn_of w2 pid) = sent (conn_of w pid) @ [handshake (tor w)]"
    "pieceQueue (peers w2 pid) = pieceQueue (peers w pid)" "hasPieceIndexes (peers w2 pid) = hasPieceIndexes (peers w pid)"
    "pstate (peers w2 pid) = pstate (peers w pid)" "nextPeer w2 = nextPeer w" "tor w2 = tor w" "accepted w2 = accepted w"
    "disk w2 = disk w"
    using assms(1, 2) by (simp_all add: w2 on_connect_done_def on_resolved_def on_connected_def Let_def
        conn_read_def conn_write_def isConnected_def)
  show "core w2 = core w"
    by (simp add: w2 on_connect_done_def on_resolved_def on_connected_def Let_def core_simps)
qed

lemma dialling_conn:
  assumes "peers w pid = dialling e"
  shows "stage (conn_of w pid) = Resolving" "connCB (conn_of w pid)" "inputStream (conn_of w pid) = []"
    "sent (conn_of w pid) = []" "pieceQueue (peers w pid) = []" "hasPieceIndexes (peers w pid) = []"
    "pstate (peers w pid) = (\<lambda>s. s = AM_CHOKING \<or> s = PEER_CHOKING)"
  by (cases e; simp add: assms dialling_def new_peer_def new_connection_def)+

lemma run_dialled_greeting:
  assumes inv: "swarm_inv env w" and pid: "peers w pid = dialling e" "pid < nextPeer w"
    and w: "accepted w = []" "same_sizes (tor w) t" "pieces (tor w) = pieces t" "handshake (tor w) = handshake t"
    and len: "length (handshake t) = 68" "length reserved = 8" "length i = 20"
  shows "\<exists>w'. run (swarm_step env) w [Resolved pid, Connected pid (Some a), Received pid (seed_handshake t reserved i)] w' \<and>
    greeted env t pid w'"
proof -
  let ?hs = "seed_handshake t reserved i"
  define w1 where "w1 = on_resolved pid w"
  define w2 where "w2 = on_connect_done (Some a) pid w1"
  note c = dialling_conn [OF pid(1)]
  note d = made_connection [OF c(2, 3) w2_def [unfolded w1_def]]
  have s1: "swarm_step env w (Resolved pid) w1"
    using c(1) by (simp add: swarm_step_iff w1_def pid(2))
  have s2: "swarm_step env w1 (Connected pid (Some a)) w2"
    by (simp add: swarm_step_iff w2_def) (simp add: w1_def on_resolved_def pid(2))
  have t2: "handshake (tor w2) = handshake t"
    using d(10) w(4) by simp
  note hs = seed_handshake_ok [OF len t2]
  obtain w3 where w3: "on_read env pid ?hs w2 = Inr w3" "agreed pid w2 w3"
    using on_read_connected [OF d(1, 2, 4) hs] by blast
  then have s3: "swarm_step env w2 (Received pid ?hs) w3"
    using d(3, 9) pid(2) by (simp add: swarm_step_iff hs(1))
  have run: "run (swarm_step env) w ([Resolved pid] @ [Connected pid (Some a)] @ [Received pid ?hs]) w3"
    using run_append [OF run_one [OF s1] run_append [OF run_one [OF s2] run_one [OF s3]]] .
  have "client_inv env w3"
    using swarm_invD(1) [OF sw.run_keeps [OF run inv]] .
  moreover have "pid < nextPeer w2" "accepted w2 = []" "same_sizes (tor w2) t" "pieces (tor w2) = pieces t"
    using d(9-11) pid(2) w by simp_all
  moreover have "pieceQueue (peers w2 pid) = []" "hasPieceIndexes (peers w2 pid) = []"
    using c(5, 6) d(6, 7) by simp_all
  ultimately show ?thesis
    using run agreed_greeted [OF w3(2)] by auto
qed

section \<open>The download from a peer that was dialled\<close>

text \<open>
  The client after the tracker has named the peers \<open>es\<close> and the acceptor was started.
\<close>

definition dialled_world :: "u16 \<Rightarrow> torrent \<Rightarrow> stream \<Rightarrow> (u32 \<times> u16) list \<Rightarrow> world" where
  "dialled_world lp t d es =
     upd_tor (listen lp) (fold dial (fresh_addresses {} es) (start_world t d))"

lemma fold_dial_fixed:
  "accepted (fold dial fs w) = accepted w" "pieces (tor (fold dial fs w)) = pieces (tor w)"
  "handshake (tor (fold dial fs w)) = handshake (tor w)" "pieceLength (tor (fold dial fs w)) = pieceLength (tor w)"
  "totalSize (tor (fold dial fs w)) = totalSize (tor w)"
  by (induction fs arbitrary: w) (simp_all add: dial_def blacklist_def)

lemma known_ips_start: "blackListed t = {} \<Longrightarrow> activePeers t = [] \<Longrightarrow> known_ips (start_world t d) = {}"
  by (simp add: known_ips_def start_world_def)

lemma connect_dialled:
  assumes "blackListed t = {}" "activePeers t = []"
  shows "connectToPeers (compact es @ [0]) (6 * length es) (start_world t d) =
    Inr (fold dial (fresh_addresses {} es) (start_world t d))"
  using connect_compact [of "start_world t d" es] assms(2) known_ips_start [OF assms]
  by (simp add: peers_known_def) (simp add: start_world_def)

lemma dialled_run:
  assumes "blackListed t = {}" "activePeers t = []"
  shows "run (swarm_step env) (start_world t d) [TrackerPeers (compact es), StartAccepting lp True] (dialled_world lp t d es)"
proof -
  let ?w = "fold dial (fresh_addresses {} es) (start_world t d)"
  have "swarm_step env (start_world t d) (TrackerPeers (compact es)) ?w"
    using connect_dialled [OF assms, of es d] by (simp add: swarm_step_iff)
  moreover have "swarm_step env ?w (StartAccepting lp True) (dialled_world lp t d es)"
    by (simp add: swarm_step_iff start_accepting_run dialled_world_def)
  ultimately show ?thesis
    using run_append [OF run_one run_one] by fastforce
qed

lemma dialled_download:
  assumes d: "describes lib fs md" "sizes_consistent md" "parseFile env lib fs dir Torrent = Inr (SUCCESS, t, d)"
    and f: "file_of env t file" "block_orders t ord" "\<And>s d. length d \<le> fwrite_count env s d"
    and len: "length reserved = 8" "length i = 20" and pid: "pid < length (fresh_addresses {} es)"
  shows "\<exists>w. run (swarm_step env) (dialled_world lp t d es) (dialled_events pid t file ord a reserved i) w \<and>
    client_run env lib fs dir md ([TrackerPeers (compact es), StartAccepting lp True] @ dialled_events pid t file ord a reserved i) w \<and>
    isFullyDownloaded (tor w) \<and> contents (disk w) = file @ drop (length file) (contents d) \<and> full_length w"
proof -
  let ?w = "dialled_world lp t d es"
  note start = parsed_start [OF d]
  have t: "blackListed t = {}" "activePeers t = []"
    using start(6, 7) .
  have start_run: "run (swarm_step env) (start_world t d) [TrackerPeers (compact es), StartAccepting lp True] ?w"
    by (rule dialled_run [OF t])
  have "peers ?w pid = dialling (fresh_addresses {} es ! pid)"
    using fold_dial(4) [of "fresh_addresses {} es" "start_world t d" pid] pid by (simp add: dialled_world_def start_world_def)
  moreover have "pid < nextPeer ?w"
    using pid by (simp add: dialled_world_def fold_dial start_world_def)
  moreover have "accepted ?w = []" "same_sizes (tor ?w) t" "pieces (tor ?w) = pieces t" "handshake (tor ?w) = handshake t"
    by (simp_all add: dialled_world_def same_sizes_def fold_dial_fixed) (simp_all add: start_world_def)
  ultimately obtain w1 where w1: "run (swarm_step env) ?w
      [Resolved pid, Connected pid (Some a), Received pid (seed_handshake t reserved i)] w1" "greeted env t pid w1"
    using run_dialled_greeting [OF sw.run_keeps [OF start_run start(1)] _ _ _ _ _ _ start(2) len] by blast
  obtain w where w: "run (swarm_step env) w1 (sharing_events pid t file ord) w" "isFullyDownloaded (tor w)"
      "take (length file) (contents (disk w)) = file" "full_length w"
    using honest_sharing [OF w1(2) start(3) f] by blast
  have r: "run (swarm_step env) ?w (dialled_events pid t file ord a reserved i) w"
    unfolding dialled_events_def by (rule run_append [OF w1(1) w(1)])
  have c: "client_run env lib fs dir md ([TrackerPeers (compact es), StartAccepting lp True] @ dialled_events pid t file ord a reserved i) w"
    using d run_append [OF start_run r] by (auto simp: client_run_def)
  from client_run_whole [OF c w(4, 3) file_of_length [OF d f(1)] d(3)] r w c show ?thesis
    by blast
qed

end
