(* ===== verification/Tracker_Url.thy ===== *)
theory Tracker_Url
  imports Text_Format
begin

text \<open>
  \<open>parseTrackerUrl\<close> of \<open>src/utils/utils.cpp\<close> and \<open>struct UrlMeta\<close> of \<open>src/utils/utils.hpp\<close>, over a
  model of the part of \<open>std::regex\<close> it uses: ECMAScript expressions made of characters, classes,
  sequences, optional parts, greedy repetitions of a class and numbered groups, matched by
  backtracking against the whole string (\<open>std::regex_match\<close>).
\<close>

section \<open>Regular expressions\<close>

datatype re =
    Cls "char \<Rightarrow> bool"
  | Lit string
  | Seq re re
  | Opt re
  | Star "char \<Rightarrow> bool"
  | Plus "char \<Rightarrow> bool"
  | Grp nat re

text \<open>The sub-matches: a group that did not take part has no entry.\<close>

type_synonym smatch = "nat \<Rightarrow> string option"

text \<open>
  A matcher takes the rest of the input, the groups so far and what is to be matched next; the
  first alternative whose continuation succeeds wins.  A repetition is greedy.
\<close>

fun star_match :: "(char \<Rightarrow> bool) \<Rightarrow> string \<Rightarrow> (string \<Rightarrow> smatch option) \<Rightarrow> smatch option" where
  "star_match P [] k = k []"
| "star_match P (c # s) k =
     (if P c then (case star_match P s k of Some m \<Rightarrow> Some m | None \<Rightarrow> k (c # s)) else k (c # s))"

fun re_match :: "re \<Rightarrow> string \<Rightarrow> smatch \<Rightarrow> (string \<Rightarrow> smatch \<Rightarrow> smatch option) \<Rightarrow> smatch option" where
  "re_match (Cls P) s m k = (case s of [] \<Rightarrow> None | c # r \<Rightarrow> if P c then k r m else None)"
| "re_match (Lit w) s m k = (if take (length w) s = w then k (drop (length w) s) m else None)"
| "re_match (Seq a b) s m k = re_match a s m (\<lambda>s m. re_match b s m k)"
| "re_match (Opt a) s m k = (case re_match a s m k of Some r \<Rightarrow> Some r | None \<Rightarrow> k s m)"
| "re_match (Star P) s m k = star_match P s (\<lambda>s. k s m)"
| "re_match (Plus P) s m k =
     (case s of [] \<Rightarrow> None | c # r \<Rightarrow> if P c then star_match P r (\<lambda>s. k s m) else None)"
| "re_match (Grp i a) s m k =
     re_match a s m (\<lambda>r m. k r (m(i \<mapsto> take (length s - length r) s)))"

definition regex_match :: "string \<Rightarrow> re \<Rightarrow> smatch option" where
  "regex_match s r = re_match r s Map.empty (\<lambda>s m. if s = [] then Some m else None)"

text \<open>\<open>match[i]\<close> as a string: empty for a group that did not take part.\<close>

definition sub_match :: "smatch \<Rightarrow> nat \<Rightarrow> string" where
  "sub_match m i = (case m i of None \<Rightarrow> [] | Some s \<Rightarrow> s)"

section \<open>The two expressions and parseTrackerUrl\<close>

record UrlMeta =
  protocol :: string
  host :: string
  port :: string
  announcePath :: string
  passKeyParam :: string

definition empty_UrlMeta :: UrlMeta where
  "empty_UrlMeta = \<lparr>protocol = [], host = [], port = [], announcePath = [], passKeyParam = []\<rparr>"

text \<open>\<open>[^:/]\<close>, \<open>\d\<close>, \<open>[^\?]\<close> and \<open>.\<close>, which matches no line terminator.\<close>

definition host_char :: "char \<Rightarrow> bool" where
  "host_char c \<longleftrightarrow> c \<noteq> CHR '':'' \<and> c \<noteq> CHR ''/''"

definition path_char :: "char \<Rightarrow> bool" where
  "path_char c \<longleftrightarrow> c \<noteq> CHR ''?''"

definition dot_char :: "char \<Rightarrow> bool" where
  "dot_char c \<longleftrightarrow> of_char c \<noteq> (10 :: nat) \<and> of_char c \<noteq> (13 :: nat)"

definition re_protocol :: re where
  "re_protocol = Grp 1 (Seq (Lit ''http'') (Seq (Opt (Lit ''s'')) (Lit ''://'')))"

definition re_path :: re where
  "re_path = Seq (Lit ''/ann'') (Star path_char)"

definition re_passkey :: re where
  "re_passkey = Seq (Lit ''?passkey='') (Star dot_char)"

definition httpOrHttpsWithPort :: re where
  "httpOrHttpsWithPort =
     Seq re_protocol (Seq (Grp 2 (Plus host_char)) (Seq (Grp 3 (Seq (Lit '':'') (Plus is_digit)))
       (Seq (Grp 4 re_path) (Opt (Grp 5 re_passkey)))))"

definition httpOrHttpsWithoutPort :: re where
  "httpOrHttpsWithoutPort =
     Seq re_protocol (Seq (Grp 2 (Plus host_char)) (Seq (Grp 3 re_path) (Opt (Grp 4 re_passkey))))"

text \<open>\<open>std::replace(..., '?', '&')\<close>.\<close>

definition replace_query :: "string \<Rightarrow> string" where
  "replace_query s = map (\<lambda>c. if c = CHR ''?'' then CHR ''&'' else c) s"

text \<open>
  \<open>match.size()\<close> is the number of groups of the expression plus one, whether or not they took part,
  so both size tests of the code succeed on every match.
\<close>

definition parseTrackerUrl :: "string \<Rightarrow> UrlMeta" where
  "parseTrackerUrl url =
     (case regex_match url httpOrHttpsWithPort of
        Some m \<Rightarrow>
          \<lparr>protocol = sub_match m 1, host = sub_match m 2, port = drop 1 (sub_match m 3),
           announcePath = sub_match m 4, passKeyParam = replace_query (sub_match m 5)\<rparr>
      | None \<Rightarrow>
          (case regex_match url httpOrHttpsWithoutPort of
             Some m \<Rightarrow>
               \<lparr>protocol = sub_match m 1, host = sub_match m 2, port = ''80'',
                announcePath = sub_match m 3, passKeyParam = replace_query (sub_match m 4)\<rparr>
           | None \<Rightarrow> empty_UrlMeta))"

section \<open>Lemmas on the matcher\<close>

text \<open>A greedy repetition takes the longest run when the continuation then succeeds.\<close>

lemma star_match_max:
  "\<forall>c \<in> set xs. P c \<Longrightarrow> r = [] \<or> \<not> P (hd r) \<Longrightarrow> k r = Some m \<Longrightarrow> star_match P (xs @ r) k = Some m"
  by (induction xs; cases r) auto

text \<open>It fails when the continuation fails at every split of the run.\<close>

lemma star_match_fail:
  "(\<And>t. length t \<le> length s \<Longrightarrow> t = drop (length s - length t) s \<Longrightarrow>
      \<forall>c \<in> set (take (length s - length t) s). P c \<Longrightarrow> k t = None) \<Longrightarrow> star_match P s k = None"
proof (induction s)
  case Nil
  then show ?case by simp
next
  case (Cons c s)
  have "k (c # s) = None"
    by (rule Cons.prems) simp_all
  moreover have "star_match P s k = None" if "P c"
  proof (rule Cons.IH)
    fix t assume t: "length t \<le> length s" "t = drop (length s - length t) s"
      "\<forall>c \<in> set (take (length s - length t) s). P c"
    show "k t = None"
      using Cons.prems [of t] t that by (simp add: Suc_diff_le)
  qed
  ultimately show ?case by simp
qed

section \<open>The matcher accepts the language of the expression\<close>

fun lang :: "re \<Rightarrow> string set" where
  "lang (Cls P) = {[c] | c. P c}"
| "lang (Lit w) = {w}"
| "lang (Seq a b) = {u @ v | u v. u \<in> lang a \<and> v \<in> lang b}"
| "lang (Opt a) = insert [] (lang a)"
| "lang (Star P) = {u. \<forall>c \<in> set u. P c}"
| "lang (Plus P) = {u. u \<noteq> [] \<and> (\<forall>c \<in> set u. P c)}"
| "lang (Grp i a) = lang a"

fun groups :: "re \<Rightarrow> nat set" where
  "groups (Seq a b) = groups a \<union> groups b"
| "groups (Opt a) = groups a"
| "groups (Grp i a) = insert i (groups a)"
| "groups _ = {}"

lemma star_match_sound:
  "star_match P s k = Some m \<Longrightarrow> \<exists>u t. s = u @ t \<and> (\<forall>c \<in> set u. P c) \<and> k t = Some m"
proof (induction s)
  case Nil
  then show ?case by simp
next
  case (Cons c s)
  show ?case
  proof (cases "k (c # s) = Some m")
    case True
    then show ?thesis by - (rule exI [of _ "[]"], rule exI [of _ "c # s"], simp)
  next
    case False
    with Cons.prems have "P c" "star_match P s k = Some m"
      by (auto split: if_splits option.splits)
    then obtain u t where "s = u @ t" "\<forall>c \<in> set u. P c" "k t = Some m"
      using Cons.IH by blast
    with \<open>P c\<close> show ?thesis
      by - (rule exI [of _ "c # u"], rule exI [of _ t], auto)
  qed
qed

lemma star_match_complete:
  "\<forall>c \<in> set u. P c \<Longrightarrow> k t \<noteq> None \<Longrightarrow> star_match P (u @ t) k \<noteq> None"
proof (induction u)
  case Nil
  then show ?case by (cases t) (auto split: option.splits)
next
  case (Cons c u)
  then show ?case by (auto split: option.splits)
qed

text \<open>
  Soundness: a match consumed a word of the language, and wrote no group but its own.
\<close>

lemma re_match_sound:
  "re_match r s m k = Some m' \<Longrightarrow>
     \<exists>u t m''. s = u @ t \<and> u \<in> lang r \<and> k t m'' = Some m' \<and> (\<forall>i. i \<notin> groups r \<longrightarrow> m'' i = m i)"
proof (induction r arbitrary: s m k)
  case (Cls P)
  then obtain c t where "s = c # t" "P c" "k t m = Some m'"
    by (auto split: list.splits if_splits)
  then show ?case by - (rule exI [of _ "[c]"], rule exI [of _ t], rule exI [of _ m], simp)
next
  case (Lit w)
  then have "s = w @ drop (length w) s" "k (drop (length w) s) m = Some m'"
    by (metis append_take_drop_id re_match.simps(2) option.distinct(1))+
  then show ?case by auto
next
  case (Seq a b)
  from Seq.IH(1) [OF Seq.prems [unfolded re_match.simps]] obtain u t m1 where
    1: "s = u @ t" "u \<in> lang a" "re_match b t m1 k = Some m'" "\<forall>i. i \<notin> groups a \<longrightarrow> m1 i = m i"
    by blast
  from Seq.IH(2) [OF 1(3)] obtain v t' m2 where
    2: "t = v @ t'" "v \<in> lang b" "k t' m2 = Some m'" "\<forall>i. i \<notin> groups b \<longrightarrow> m2 i = m1 i"
    by blast
  from 1 2 show ?case
    by - (rule exI [of _ "u @ v"], rule exI [of _ t'], rule exI [of _ m2], auto)
next
  case (Opt a)
  show ?case
  proof (cases "re_match a s m k")
    case None
    with Opt.prems show ?thesis
      by - (rule exI [of _ "[]"], rule exI [of _ s], rule exI [of _ m], simp)
  next
    case (Some r)
    with Opt.prems have "re_match a s m k = Some m'" by simp
    from Opt.IH [OF this] show ?thesis by auto
  qed
next
  case (Star P)
  then show ?case by (auto dest!: star_match_sound)
next
  case (Plus P)
  then obtain c r where c: "s = c # r" "P c" "star_match P r (\<lambda>s. k s m) = Some m'"
    by (auto split: list.splits if_splits)
  from star_match_sound [OF this(3)] obtain u t where
    "r = u @ t" "\<forall>c \<in> set u. P c" "k t m = Some m'" by blast
  with c show ?case by - (rule exI [of _ "c # u"], rule exI [of _ t], rule exI [of _ m], auto)
next
  case (Grp i a)
  from Grp.IH [OF Grp.prems [unfolded re_match.simps]] obtain u t m1 where
    "s = u @ t" "u \<in> lang a" "k t (m1(i \<mapsto> take (length s - length t) s)) = Some m'"
    "\<forall>i. i \<notin> groups a \<longrightarrow> m1 i = m i" by blast
  then have "s = u @ t \<and> u \<in> lang (Grp i a) \<and> k t (m1(i \<mapsto> u)) = Some m' \<and>
      (\<forall>j. j \<notin> groups (Grp i a) \<longrightarrow> (m1(i \<mapsto> u)) j = m j)"
    by simp
  then show ?case by blast
qed

text \<open>Completeness: a prefix in the language is found when what follows accepts the rest.\<close>

lemma re_match_complete:
  "u \<in> lang r \<Longrightarrow> (\<And>m. k t m \<noteq> None) \<Longrightarrow> re_match r (u @ t) m k \<noteq> None"
proof (induction r arbitrary: u t m k)
  case (Seq a b)
  then obtain v w where "u = v @ w" "v \<in> lang a" "w \<in> lang b" by auto
  with Seq.IH(1) [of v "\<lambda>s m. re_match b s m k" "w @ t" m] Seq.IH(2) [of w k t] Seq.prems(2)
  show ?case by auto
next
  case (Opt a)
  show ?case
  proof (cases "u = []")
    case True
    with Opt.prems(2) show ?thesis by (auto split: option.splits)
  next
    case False
    with Opt.prems Opt.IH [of u k t m] show ?thesis by (auto split: option.splits)
  qed
next
  case (Star P)
  then show ?case using star_match_complete [of u P "\<lambda>s. k s m" t] by simp
next
  case (Plus P)
  then obtain c v where "u = c # v" by (cases u) auto
  with Plus star_match_complete [of v P "\<lambda>s. k s m" t] show ?case by simp
next
  case (Grp i a)
  then show ?case
    using Grp.IH [of u "\<lambda>r m. k r (m(i \<mapsto> take (length (u @ t) - length r) (u @ t)))" t m]
    by simp
qed auto

lemma regex_match_lang: "regex_match s r \<noteq> None \<longleftrightarrow> s \<in> lang r"
proof
  assume "regex_match s r \<noteq> None"
  then obtain m where "regex_match s r = Some m" by auto
  from re_match_sound [OF this [unfolded regex_match_def]] show "s \<in> lang r"
    by (auto split: if_splits)
next
  assume "s \<in> lang r"
  from re_match_complete [OF this, of "\<lambda>s m. if s = [] then Some m else None" "[]"]
  show "regex_match s r \<noteq> None" by (simp add: regex_match_def)
qed

section \<open>The groups of the two expressions\<close>

lemma lang_passkey: "u \<in> lang re_passkey \<longleftrightarrow> (\<exists>k. u = ''?passkey='' @ k \<and> (\<forall>c \<in> set k. dot_char c))"
  by (auto simp: re_passkey_def)

lemma lang_path: "u \<in> lang re_path \<longleftrightarrow> (\<exists>p. u = ''/ann'' @ p \<and> (\<forall>c \<in> set p. path_char c))"
  by (auto simp: re_path_def)

lemma match_protocol:
  assumes "pr \<in> {''http://'', ''https://''}"
  shows "re_match re_protocol (pr @ r) m k = k r (m(1 \<mapsto> pr))"
  using assms by (auto simp: re_protocol_def split: option.splits)

text \<open>The optional pass key at the end of the input.\<close>

lemma match_end:
  assumes "pk = [] \<or> pk \<in> lang re_passkey"
  shows "re_match (Opt (Grp i re_passkey)) pk m (\<lambda>s m. if s = [] then Some m else None) =
     Some (if pk = [] then m else m(i \<mapsto> pk))"
proof (cases "pk = []")
  case True
  then show ?thesis by (simp add: re_passkey_def)
next
  case False
  with assms obtain k where k: "pk = ''?passkey='' @ k" "\<forall>c \<in> set k. dot_char c"
    by (auto simp: lang_passkey)
  then show ?thesis
    using star_match_max [of k dot_char "[]"] by (simp add: re_passkey_def)
qed

lemma match_path_max:
  assumes "pa \<in> lang re_path" and "r = [] \<or> \<not> path_char (hd r)" and "k r (m(j \<mapsto> pa)) = Some x"
  shows "re_match (Grp j re_path) (pa @ r) m k = Some x"
proof -
  obtain p where p: "pa = ''/ann'' @ p" "\<forall>c \<in> set p. path_char c"
    using assms(1) by (auto simp: lang_path)
  let ?k = "\<lambda>s. k s (m(j \<mapsto> take (length (pa @ r) - length s) (pa @ r)))"
  have "?k r = Some x"
    using assms(3) by simp
  from star_match_max [where k = ?k, OF p(2) assms(2) this] show ?thesis
    by (simp add: re_path_def p(1))
qed

lemma match_path:
  assumes "pa \<in> lang re_path" and "pk = [] \<or> pk \<in> lang re_passkey"
  shows "re_match (Seq (Grp j re_path) (Opt (Grp i re_passkey))) (pa @ pk) m
       (\<lambda>s m. if s = [] then Some m else None) =
     Some (if pk = [] then m(j \<mapsto> pa) else m(j \<mapsto> pa, i \<mapsto> pk))"
proof -
  have "pk = [] \<or> \<not> path_char (hd pk)"
    using assms(2) by (auto simp: lang_passkey path_char_def)
  then show ?thesis
    unfolding re_match.simps(3) by - (rule match_path_max [OF assms(1)], assumption, rule match_end [OF assms(2)])
qed

text \<open>Whenever an expression that starts with protocol and host matches, the host is not empty.\<close>

lemma match_host_nonempty:
  assumes "regex_match s (Seq re_protocol (Seq (Grp 2 (Plus host_char)) r)) = Some m"
    and "2 \<notin> groups r"
  shows "sub_match m 2 \<noteq> []"
proof -
  let ?k = "\<lambda>s m. if s = [] then Some m else None"
  from re_match_sound [of re_protocol] assms(1) obtain t m1 where
    "re_match (Plus host_char) t m1 (\<lambda>u m. re_match r u (m(2 \<mapsto> take (length t - length u) t)) ?k) = Some m"
    unfolding regex_match_def re_match.simps(3, 7) by blast
  from re_match_sound [OF this] obtain u v m2 where
    1: "t = u @ v" "u \<in> lang (Plus host_char)" "re_match r v (m2(2 \<mapsto> u)) ?k = Some m"
    by auto
  from re_match_sound [OF 1(3)] assms(2) have "m 2 = Some u"
    by (auto split: if_splits)
  with 1(2) show ?thesis by (simp add: sub_match_def)
qed

lemma match_host_max:
  assumes "h \<noteq> []" "\<forall>c \<in> set h. host_char c" and "r = [] \<or> \<not> host_char (hd r)"
    and "k r (m(2 \<mapsto> h)) = Some x"
  shows "re_match (Grp 2 (Plus host_char)) (h @ r) m k = Some x"
proof -
  obtain c h' where h: "h = c # h'"
    using assms(1) by (cases h) auto
  let ?k = "\<lambda>s. k s (m(2 \<mapsto> take (length (h @ r) - length s) (h @ r)))"
  have "?k r = Some x"
    using assms(4) by simp
  then show ?thesis
    using star_match_max [of h' host_char r ?k x] assms(2, 3) by (simp add: h)
qed

lemma match_port_max:
  assumes "ds \<noteq> []" "\<forall>c \<in> set ds. is_digit c" and "r = [] \<or> \<not> is_digit (hd r)"
    and "k r (m(3 \<mapsto> CHR '':'' # ds)) = Some x"
  shows "re_match (Grp 3 (Seq (Lit '':'') (Plus is_digit))) (CHR '':'' # ds @ r) m k = Some x"
proof -
  obtain c ds' where ds: "ds = c # ds'"
    using assms(1) by (cases ds) auto
  let ?k = "\<lambda>s. k s (m(3 \<mapsto> take (length (CHR '':'' # ds @ r) - length s) (CHR '':'' # ds @ r)))"
  have "?k r = Some x"
    using assms(4) by simp
  then show ?thesis
    using star_match_max [of ds' is_digit r ?k x] assms(2, 3) by (simp add: ds)
qed

lemma lang_protocol: "lang re_protocol = {''http://'', ''https://''}"
  by (auto simp: re_protocol_def)

lemma lang_with_port:
  "u \<in> lang httpOrHttpsWithPort \<Longrightarrow>
     \<exists>p g t. u = p @ g @ CHR '':'' # t \<and> p \<in> {''http://'', ''https://''} \<and> (\<forall>c \<in> set g. host_char c)"
proof -
  assume "u \<in> lang httpOrHttpsWithPort"
  then obtain p v where p: "u = p @ v" "p \<in> {''http://'', ''https://''}"
      "v \<in> lang (Seq (Grp 2 (Plus host_char)) (Seq (Grp 3 (Seq (Lit '':'') (Plus is_digit)))
         (Seq (Grp 4 re_path) (Opt (Grp 5 re_passkey)))))"
    unfolding httpOrHttpsWithPort_def lang.simps(3) lang_protocol by blast
  then obtain g w where g: "v = g @ w" "g \<in> lang (Grp 2 (Plus host_char))"
      "w \<in> lang (Seq (Grp 3 (Seq (Lit '':'') (Plus is_digit))) (Seq (Grp 4 re_path) (Opt (Grp 5 re_passkey))))"
    unfolding lang.simps(3) [of "Grp 2 (Plus host_char)"] by blast
  then obtain d e where w: "w = d @ e" "d \<in> lang (Grp 3 (Seq (Lit '':'') (Plus is_digit)))"
    unfolding lang.simps(3) [of "Grp 3 (Seq (Lit '':'') (Plus is_digit))"] by blast
  then obtain t where "w = CHR '':'' # t"
    by auto
  then have "u = p @ g @ CHR '':'' # t" "\<forall>c \<in> set g. host_char c"
    using p(1) g(1, 2) by simp_all
  with p(2) show ?thesis by blast
qed

text \<open>A URL without a port cannot match the expression that wants one: no colon follows the host.\<close>

lemma no_port_no_match:
  assumes pr: "pr \<in> {''http://'', ''https://''}" and h: "\<forall>c \<in> set h. host_char c" and r: "r = [] \<or> hd r = CHR ''/''"
  shows "regex_match (pr @ h @ r) httpOrHttpsWithPort = None"
proof (rule ccontr)
  assume "\<not> ?thesis"
  then have "pr @ h @ r \<in> lang httpOrHttpsWithPort"
    using regex_match_lang by blast
  from lang_with_port [OF this] obtain p g t where
    *: "pr @ h @ r = p @ g @ CHR '':'' # t" "p \<in> {''http://'', ''https://''}" "\<forall>c \<in> set g. host_char c"
    by blast
  with pr have "h @ r = g @ CHR '':'' # t"
    by auto
  moreover have "takeWhile host_char (h @ r) = h"
    using h r by (cases r) (auto simp: takeWhile_append host_char_def)
  moreover have "takeWhile host_char (g @ CHR '':'' # t) = g"
    using *(3) by (auto simp: takeWhile_append host_char_def)
  ultimately show False
    using r by auto
qed

lemma parse_url:
  assumes "pr \<in> {''http://'', ''https://''}" and "h \<noteq> []" "\<forall>c \<in> set h. host_char c"
    and "ds \<noteq> []" "\<forall>c \<in> set ds. is_digit c"
    and "pa \<in> lang re_path" and "pk = [] \<or> pk \<in> lang re_passkey"
  shows "parseTrackerUrl (pr @ h @ '':'' @ ds @ pa @ pk) =
      \<lparr>protocol = pr, host = h, port = ds, announcePath = pa, passKeyParam = replace_query pk\<rparr>
    \<and> parseTrackerUrl (pr @ h @ pa @ pk) =
      \<lparr>protocol = pr, host = h, port = ''80'', announcePath = pa, passKeyParam = replace_query pk\<rparr>"
proof -
  let ?k = "\<lambda>s m. if s = [] then Some m else None"
  let ?m = "\<lambda>i. Map.empty(1 \<mapsto> pr, 2 \<mapsto> h, i \<mapsto> pa)"
  obtain p where pa: "pa = CHR ''/'' # p"
    using assms(6) by (auto simp: lang_path)
  have nd: "\<not> is_digit (CHR ''/'')" "\<not> host_char (CHR ''/'')" "\<not> host_char (CHR '':'')"
    by (simp_all add: is_digit_def host_char_def)
  have "regex_match (pr @ h @ '':'' @ ds @ pa @ pk) httpOrHttpsWithPort =
      Some (if pk = [] then Map.empty(1 \<mapsto> pr, 2 \<mapsto> h, 3 \<mapsto> CHR '':'' # ds, 4 \<mapsto> pa)
            else Map.empty(1 \<mapsto> pr, 2 \<mapsto> h, 3 \<mapsto> CHR '':'' # ds, 4 \<mapsto> pa, 5 \<mapsto> pk))"
    unfolding regex_match_def httpOrHttpsWithPort_def re_match.simps(3) [of re_protocol]
      match_protocol [OF assms(1)] re_match.simps(3) [of "Grp 2 _"] append_Cons append_Nil
    by (rule match_host_max [OF assms(2, 3)])
      (simp_all only: re_match.simps(3) [of "Grp 3 _"] list.sel nd simp_thms,
       rule match_port_max [OF assms(4, 5)], simp add: pa nd, rule match_path [OF assms(6, 7)])
  moreover have "regex_match (pr @ h @ pa @ pk) httpOrHttpsWithPort = None"
    using no_port_no_match [OF assms(1, 3), of "pa @ pk"] by (simp add: pa)
  moreover have "regex_match (pr @ h @ pa @ pk) httpOrHttpsWithoutPort =
      Some (if pk = [] then ?m 3 else (?m 3)(4 \<mapsto> pk))"
    unfolding regex_match_def httpOrHttpsWithoutPort_def re_match.simps(3) [of re_protocol]
      match_protocol [OF assms(1)] re_match.simps(3) [of "Grp 2 _"]
    by (rule match_host_max [OF assms(2, 3)]) (simp add: pa nd, rule match_path [OF assms(6, 7)])
  ultimately show ?thesis
    by (simp add: parseTrackerUrl_def sub_match_def replace_query_def)
qed

section \<open>Properties\<close>

text \<open>
  C36: an announce URL made of a protocol, a host, a port, a path that starts with \<open>/ann\<close> and an
  optional pass key is split into exactly these parts (the pass key's question mark becoming an
  ampersand), and without the port the port is 80 whatever the protocol.
\<close>

theorem parseTrackerUrl_parts:
  assumes "pr \<in> {''http://'', ''https://''}" and "h \<noteq> []" "\<forall>c \<in> set h. host_char c"
    and "ds \<noteq> []" "\<forall>c \<in> set ds. is_digit c"
    and "pa \<in> lang re_path" and "pk = [] \<or> pk \<in> lang re_passkey"
  shows "parseTrackerUrl (pr @ h @ '':'' @ ds @ pa @ pk) =
      \<lparr>protocol = pr, host = h, port = ds, announcePath = pa, passKeyParam = replace_query pk\<rparr>
    \<and> parseTrackerUrl (pr @ h @ pa @ pk) =
      \<lparr>protocol = pr, host = h, port = ''80'', announcePath = pa, passKeyParam = replace_query pk\<rparr>"
  using assms by (rule parse_url)

text \<open>
  The host is empty, which is the test \<open>validateTracker\<close> rejects a URL by, exactly when neither
  expression describes the URL.
\<close>

lemma parseTrackerUrl_host_empty_iff:
  "host (parseTrackerUrl url) = [] \<longleftrightarrow>
     url \<notin> lang httpOrHttpsWithPort \<and> url \<notin> lang httpOrHttpsWithoutPort"
proof -
  have "sub_match m 2 \<noteq> []" if "regex_match url httpOrHttpsWithPort = Some m" for m
    using match_host_nonempty [OF that [unfolded httpOrHttpsWithPort_def]]
    by (simp add: re_path_def re_passkey_def)
  moreover have "sub_match m 2 \<noteq> []" if "regex_match url httpOrHttpsWithoutPort = Some m" for m
    using match_host_nonempty [OF that [unfolded httpOrHttpsWithoutPort_def]]
    by (simp add: re_path_def re_passkey_def)
  ultimately show ?thesis
    unfolding regex_match_lang [symmetric]
    by (auto simp: parseTrackerUrl_def empty_UrlMeta_def split: option.splits)
qed

end
