(* ===== verification/Tracker.thy ===== *)
theory Tracker
  imports Metainfo Tracker_Url
begin

text \<open>
  The tracker client (\<open>src/torrent/tracker.cpp\<close>) and \<open>Torrent::validateTracker\<close>: the text of the request,
  the reading of the response from the stream, and what is done with it.  What the network delivers is a
  parameter: the end points a host resolves to, which of them accept, and the chunks in which the answer
  arrives, one per \<open>read_some\<close>.
\<close>

section \<open>Input streams\<close>

text \<open>
  The part of \<open>std::istream\<close> the response is read with: the unread characters and two state bits.  An
  extraction from a stream that is not good only sets the fail bit.
\<close>

record istream =
  chars :: string
  eofbit :: bool
  failbit :: bool

definition good :: "istream \<Rightarrow> bool" where
  "good s \<longleftrightarrow> \<not> eofbit s \<and> \<not> failbit s"

definition is_space :: "char \<Rightarrow> bool" where
  "is_space c \<longleftrightarrow> c \<in> {CHR '' '', CHR 0x09, CHR 0x0A, CHR 0x0B, CHR 0x0C, CHR 0x0D}"

text \<open>\<open>s >> word\<close> for a string.\<close>

definition read_word :: "istream \<Rightarrow> string \<times> istream" where
  "read_word s =
     (let r = dropWhile is_space (chars s)
      in if \<not> good s then ([], s\<lparr>failbit := True\<rparr>)
         else if r = [] then ([], s\<lparr>chars := [], eofbit := True, failbit := True\<rparr>)
         else let rest = dropWhile (\<lambda>c. \<not> is_space c) r
              in (takeWhile (\<lambda>c. \<not> is_space c) r, s\<lparr>chars := rest, eofbit := (rest = [])\<rparr>))"

text \<open>
  \<open>s >> status\<close> for an \<open>int\<close>: \<open>u\<close> is what the variable held, which stays when nothing can be extracted at
  all; text that is no number gives 0, a number out of range the nearest \<open>int\<close>.
\<close>

definition read_int :: "int \<Rightarrow> istream \<Rightarrow> int \<times> istream" where
  "read_int u s =
     (let r = dropWhile is_space (chars s)
      in if \<not> good s then (u, s\<lparr>failbit := True\<rparr>)
         else if r = [] then (u, s\<lparr>chars := [], eofbit := True, failbit := True\<rparr>)
         else
           let neg = (hd r = CHR ''-''); r1 = (if hd r \<in> {CHR ''-'', CHR ''+''} then tl r else r);
               ds = takeWhile is_digit r1; rest = dropWhile is_digit r1;
               v = (if neg then - int (read_decimal ds) else int (read_decimal ds));
               c = max (- 2147483648) (min 2147483647 v)
           in if ds = [] then (0, s\<lparr>chars := rest, eofbit := (rest = []), failbit := True\<rparr>)
              else (c, s\<lparr>chars := rest, eofbit := (rest = []), failbit := (c \<noteq> v)\<rparr>))"

definition getline :: "istream \<Rightarrow> string \<times> istream" where
  "getline s =
     (if \<not> good s then ([], s\<lparr>failbit := True\<rparr>)
      else if chars s = [] then ([], s\<lparr>eofbit := True, failbit := True\<rparr>)
      else let line = takeWhile (\<lambda>c. c \<noteq> CHR 0x0A) (chars s); rest = dropWhile (\<lambda>c. c \<noteq> CHR 0x0A) (chars s)
           in (line, if rest = [] then s\<lparr>chars := [], eofbit := True\<rparr> else s\<lparr>chars := tl rest\<rparr>))"

lemma getline_shrinks: "\<not> failbit (snd (getline s)) \<Longrightarrow> length (chars (snd (getline s))) < length (chars s)"
proof -
  have "length (tl (dropWhile P xs)) < length xs" if "xs \<noteq> []" for P and xs :: string
  proof (cases "dropWhile P xs")
    case Nil
    with that show ?thesis by (simp del: dropWhile_eq_Nil_conv)
  next
    case (Cons y ys)
    with length_dropWhile_le [of P xs] show ?thesis by simp
  qed
  then show "\<not> failbit (snd (getline s)) \<Longrightarrow> ?thesis"
    by (auto simp: getline_def Let_def good_def split: if_splits)
qed

text \<open>The loop that skips the header: it ends at a line that is a single carriage return, or fails.\<close>

function seek_body :: "istream \<Rightarrow> istream" where
  "seek_body s =
     (if failbit (snd (getline s)) then snd (getline s)
      else if fst (getline s) = [CHR 0x0D] then snd (getline s)
      else seek_body (snd (getline s)))"
  by pat_completeness auto
termination
  by (relation "measure (\<lambda>s. length (chars s))") (use getline_shrinks in auto)

declare seek_body.simps [simp del]

section \<open>Reading from the socket\<close>

fun contains :: "string \<Rightarrow> string \<Rightarrow> bool" where
  "contains d [] = (d = [])"
| "contains d (c # s) = (take (length d) (c # s) = d \<or> contains d s)"

text \<open>
  \<open>asio::read_until\<close>: more is read only while the delimiter is not in the buffer; at the end of the
  stream it throws.  The result is the buffer, which may hold more than asked for, and what was not read.
\<close>

fun read_until :: "string \<Rightarrow> string \<Rightarrow> string list \<Rightarrow> (string \<times> string list) option" where
  "read_until d buf [] = (if contains d buf then Some (buf, []) else None)"
| "read_until d buf (c # cs) = (if contains d buf then Some (buf, c # cs) else read_until d (buf @ c) cs)"

text \<open>What the network does.\<close>

record tracker_net =
  resolve :: "string \<Rightarrow> string \<Rightarrow> nat list option"
  connects :: "nat \<Rightarrow> bool"
  write_ok :: bool
  answer :: "string \<Rightarrow> string list"
  uninit_int :: int

section \<open>The request\<close>

record tracker =
  myPort :: u16
  urlMeta :: UrlMeta
  timeToNextRequest :: int

text \<open>
  A \<open>time_point\<close> of the system clock counts nanoseconds in 64 bits, as in libstdc++; adding milliseconds
  to it converts them first, and both operations are signed.
\<close>

definition fits_int64 :: "int \<Rightarrow> bool" where
  "fits_int64 x \<longleftrightarrow> - 9223372036854775808 \<le> x \<and> x < 9223372036854775808"

definition add_milliseconds :: "int \<Rightarrow> int \<Rightarrow> int res" where
  "add_milliseconds now ms =
     (if fits_int64 (ms * 1000000) \<and> fits_int64 (now + ms * 1000000) then Inr (now + ms * 1000000) else Inl SignedOverflow)"

text \<open>\<open>Tracker::Tracker\<close>: the time of the next request is the epoch.\<close>

definition new_tracker :: "u16 \<Rightarrow> UrlMeta \<Rightarrow> tracker" where
  "new_tracker p um = \<lparr>myPort = p, urlMeta = um, timeToNextRequest = 0\<rparr>"

definition setNextRequestTime :: "int \<Rightarrow> tracker \<Rightarrow> tracker" where
  "setNextRequestTime p tr = tr\<lparr>timeToNextRequest := p\<rparr>"

definition isNextRequestDue :: "int \<Rightarrow> tracker \<Rightarrow> bool" where
  "isNextRequestDue now tr \<longleftrightarrow> timeToNextRequest tr \<le> now"

definition event_text :: "TrackerEvent \<Rightarrow> string" where
  "event_text e = (case e of EV_NONE \<Rightarrow> '''' | EV_COMPLETED \<Rightarrow> ''event=completed&''
     | EV_STOPPED \<Rightarrow> ''event=stopped&'' | EV_STARTED \<Rightarrow> ''event=started&'')"

text \<open>A string made of bytes: \<open>std::string((const char *)p, n)\<close>.\<close>

definition byte_string :: "buffer \<Rightarrow> string" where
  "byte_string bs = map (\<lambda>b. char_of (unat b)) bs"

lemma to_bytes_byte_string [simp]: "to_bytes (byte_string bs) = bs"
proof -
  have "of_char (char_of (unat b) :: char) = (b :: u8)" for b
  proof -
    have "unat b < 256"
      using unsigned_less [of b, where ?'a = nat] by simp
    then have "of_char (char_of (unat b) :: char) = unat b"
      by simp
    moreover have "(of_char c :: u8) = of_nat (of_char c)" for c
      by (rule of_nat_of_char [symmetric])
    ultimately show ?thesis
      by (simp only: of_nat_unat ucast_id)
  qed
  then show ?thesis
    by (simp add: to_bytes_def byte_string_def o_def)
qed

definition crlf :: string where
  "crlf = [CHR 0x0D, CHR 0x0A]"

definition query_text :: "TrackerQuery \<Rightarrow> tracker \<Rightarrow> torrent \<Rightarrow> string" where
  "query_text r tr t =
     event_text (event r) @
     ''info_hash='' @ urlEncode (byte_string (slice 28 20 (handshake t))) @
     ''&peer_id='' @ urlEncode (byte_string (ownPeerId t)) @
     ''&port='' @ to_string (unat (myPort tr)) @
     ''&uploaded='' @ to_string (unat (uploaded r)) @
     ''&downloaded='' @ to_string (unat (downloaded r)) @
     ''&left='' @ to_string (unat (remaining r)) @
     ''&compact=1'' @
     urlEncode (passKeyParam (urlMeta tr))"

definition request_text :: "TrackerQuery \<Rightarrow> tracker \<Rightarrow> torrent \<Rightarrow> string" where
  "request_text r tr t =
     ''GET '' @ announcePath (urlMeta tr) @ ''?'' @ query_text r tr t @ '' HTTP/1.0'' @ crlf @
     ''Host: '' @ host (urlMeta tr) @ crlf @ ''User-Agent: YtoRRenT'' @ crlf @ ''Connection: close'' @ crlf @ crlf"

section \<open>Connecting and reading the response\<close>

text \<open>The loop over the end points; dereferencing the end of an empty list is a fault.\<close>

fun try_connect :: "(nat \<Rightarrow> bool) \<Rightarrow> nat list \<Rightarrow> bool res" where
  "try_connect ok [] = Inl NullDeref"
| "try_connect ok (e # es) = (if ok e then Inr True else if es = [] then Inr False else try_connect ok es)"

text \<open>From the connected socket to the body of the response: \<open>None\<close> for the returns with an error.\<close>

definition read_response :: "int \<Rightarrow> string list \<Rightarrow> string option" where
  "read_response u cs =
     (case read_until crlf [] cs of
        None \<Rightarrow> None
      | Some (buf, cs1) \<Rightarrow>
          let (httpVersion, s1) = read_word \<lparr>chars = buf, eofbit = False, failbit = False\<rparr>
          in if take 5 httpVersion \<noteq> ''HTTP/'' then None
             else
               let (status, s2) = read_int u s1
               in if status \<noteq> 200 then None
                  else case read_until (crlf @ crlf) (chars s2) cs1 of
                         None \<Rightarrow> None
                       | Some (buf2, cs2) \<Rightarrow>
                           let s3 = seek_body (s2\<lparr>chars := buf2\<rparr>)
                           in if failbit s3 then None else Some (chars s3))"

section \<open>The query\<close>

text \<open>What is done with the body: the decoder throws on malformed data, and nothing checks the keys.\<close>

definition handle_body :: "bencoding \<Rightarrow> int \<Rightarrow> TrackerQuery \<Rightarrow> string \<Rightarrow> tracker \<Rightarrow> world \<Rightarrow> (bool \<times> tracker \<times> world) res" where
  "handle_body lib now r body tr w =
     bind_res (decode_item lib body) (\<lambda>bRespDict.
     bind_res (as_dictionary (Some bRespDict)) (\<lambda>respDict.
     bind_res (as_string (dict_at respDict ''peers'')) (\<lambda>peersInfo.
     bind_res (as_integer (dict_at respDict ''interval'')) (\<lambda>trackerTimeout.
     bind_res (add_milliseconds now (sint trackerTimeout)) (\<lambda>next.
       let tr1 = setNextRequestTime next tr
       in if event r = EV_NONE \<or> event r = EV_STARTED
          then bind_res (connectToPeers (to_bytes peersInfo @ [0]) (length peersInfo) w) (\<lambda>w1. Inr (True, tr1, w1))
          else Inr (True, tr1, w))))))"

definition httpRequest :: "bencoding \<Rightarrow> tracker_net \<Rightarrow> int \<Rightarrow> TrackerQuery \<Rightarrow> tracker \<Rightarrow> world \<Rightarrow> (bool \<times> tracker \<times> world) res" where
  "httpRequest lib net now r tr w =
     (case resolve net (host (urlMeta tr)) (port (urlMeta tr)) of
        None \<Rightarrow> Inr (False, tr, w)
      | Some endpoints \<Rightarrow>
          bind_res (try_connect (connects net) endpoints) (\<lambda>connected.
            if \<not> connected then Inr (False, tr, w)
            else if \<not> write_ok net then Inl (Uncaught ''boost::system::system_error'')
            else case read_response (uninit_int net) (answer net (request_text r tr (tor w))) of
                   None \<Rightarrow> Inr (False, tr, w)
                 | Some body \<Rightarrow> handle_body lib now r body tr w))"

definition tracker_query :: "bencoding \<Rightarrow> tracker_net \<Rightarrow> int \<Rightarrow> TrackerQuery \<Rightarrow> tracker \<Rightarrow> world \<Rightarrow> (bool \<times> tracker \<times> world) res" where
  "tracker_query = httpRequest"

text \<open>\<open>Torrent::validateTracker\<close>: the tracker that becomes \<open>mainTracker\<close>, if any.\<close>

definition validateTracker :: "bencoding \<Rightarrow> tracker_net \<Rightarrow> int \<Rightarrow> string \<Rightarrow> TrackerQuery \<Rightarrow> u16 \<Rightarrow> world \<Rightarrow>
    (tracker option \<times> world) res" where
  "validateTracker lib net now turl q p w =
     (let um = parseTrackerUrl turl
      in if host um = [] then Inr (None, w)
         else bind_res (tracker_query lib net now q (new_tracker p um) w) (\<lambda>(ok, tr, w1).
                Inr (if ok then Some tr else None, w1)))"

section \<open>The parameters of the query\<close>

text \<open>What a web server makes of the query: pairs separated by ampersands, split at the first equals sign.\<close>

fun split_on :: "char \<Rightarrow> string \<Rightarrow> string list" where
  "split_on d [] = [[]]"
| "split_on d (c # cs) =
     (if c = d then [] # split_on d cs
      else case split_on d cs of [] \<Rightarrow> [[c]] | x # xs \<Rightarrow> (c # x) # xs)"

definition param :: "string \<Rightarrow> string \<times> string" where
  "param s = (takeWhile (\<lambda>c. c \<noteq> CHR ''='') s, urlDecode (drop 1 (dropWhile (\<lambda>c. c \<noteq> CHR ''='') s)))"

definition parse_query :: "string \<Rightarrow> (string \<times> string) list" where
  "parse_query q = map param (split_on (CHR ''&'') q)"

lemma split_on_none: "d \<notin> set a \<Longrightarrow> split_on d a = [a]"
  by (induction a) auto

lemma split_on_append: "d \<notin> set a \<Longrightarrow> split_on d (a @ d # b) = a # split_on d b"
  by (induction a) auto

lemma urlDecode_kept: "list_all kept a \<Longrightarrow> urlDecode (a @ b) = a @ urlDecode b"
  by (induction a) (auto simp: kept_def isalnum_def)

lemma param_kept:
  assumes "CHR ''='' \<notin> set k" "list_all kept a"
  shows "param (k @ CHR ''='' # a @ urlEncode s) = (k, a @ s)"
proof -
  have "takeWhile (\<lambda>c. c \<noteq> CHR ''='') (k @ CHR ''='' # r) = k" "dropWhile (\<lambda>c. c \<noteq> CHR ''='') (k @ CHR ''='' # r) = CHR ''='' # r" for r
    using assms(1) by (induction k) auto
  then show ?thesis
    by (simp add: param_def urlDecode_kept [OF assms(2)] urlDecode_urlEncode)
qed

lemma kept_digits: "list_all kept (to_string n)"
proof -
  have "is_digit c \<Longrightarrow> kept c" for c
    by (simp add: is_digit_def kept_def isalnum_def)
  then show ?thesis
    using to_string_digits [of _ n] by (auto simp: list_all_iff)
qed

lemma no_separator:
  "list_all kept a \<Longrightarrow> CHR ''&'' \<notin> set (a @ urlEncode s)"
proof -
  assume a: "list_all kept a"
  have "\<not> kept (CHR ''&'')"
    by (simp add: kept_def isalnum_def)
  moreover from this have "CHR ''&'' \<notin> set (urlEncode s)"
    using urlEncode_chars [of s] by auto
  ultimately show ?thesis
    using a by (auto simp: list_all_iff)
qed

text \<open>A parameter of the query, followed by others or last.\<close>

lemma parse_query_cons:
  assumes "set k \<inter> {CHR ''='', CHR ''&''} = {}" "list_all kept a"
  shows "parse_query (k @ CHR ''='' # (a @ urlEncode s) @ CHR ''&'' # r) = (k, a @ s) # parse_query r"
    "parse_query (k @ CHR ''='' # (a @ urlEncode s)) = [(k, a @ s)]"
proof -
  have n: "CHR ''&'' \<notin> set (k @ CHR ''='' # a @ urlEncode s)"
    using assms(1) no_separator [OF assms(2), of s] by auto
  have p: "param (k @ CHR ''='' # a @ urlEncode s) = (k, a @ s)"
    using assms by (intro param_kept) auto
  show "parse_query (k @ CHR ''='' # (a @ urlEncode s) @ CHR ''&'' # r) = (k, a @ s) # parse_query r"
    using split_on_append [OF n, of r] p by (simp add: parse_query_def)
  show "parse_query (k @ CHR ''='' # (a @ urlEncode s)) = [(k, a @ s)]"
    using split_on_none [OF n] p by (simp add: parse_query_def)
qed

lemmas parse_query_text = parse_query_cons [where a = "[]", simplified]
lemmas parse_query_digits = parse_query_cons [where s = "[]" and a = "to_string n" for n, OF _ kept_digits, simplified]

definition event_params :: "TrackerEvent \<Rightarrow> (string \<times> string) list" where
  "event_params e = (case e of EV_NONE \<Rightarrow> [] | EV_COMPLETED \<Rightarrow> [(''event'', ''completed'')]
     | EV_STOPPED \<Rightarrow> [(''event'', ''stopped'')] | EV_STARTED \<Rightarrow> [(''event'', ''started'')])"

lemma query_text_params:
  "parse_query (query_text r tr t) = event_params (event r) @
     [(''info_hash'', byte_string (slice 28 20 (handshake t))), (''peer_id'', byte_string (ownPeerId t)),
      (''port'', to_string (unat (myPort tr))), (''uploaded'', to_string (unat (uploaded r))),
      (''downloaded'', to_string (unat (downloaded r))), (''left'', to_string (unat (remaining r))),
      (''compact'', ''1'' @ passKeyParam (urlMeta tr))]"
proof -
  have e: "parse_query (event_text ev @ q) = event_params ev @ parse_query q" for ev q
    using parse_query_cons(1) [of "''event''" "''completed''" "[]" q] parse_query_cons(1) [of "''event''" "''stopped''" "[]" q]
      parse_query_cons(1) [of "''event''" "''started''" "[]" q]
    by (cases ev) (simp_all add: event_text_def event_params_def kept_def isalnum_def)
  show ?thesis
    unfolding query_text_def e
    using parse_query_text(1) [of "''info_hash''"] parse_query_text(1) [of "''peer_id''"]
      parse_query_digits(1) [of "''port''"] parse_query_digits(1) [of "''uploaded''"]
      parse_query_digits(1) [of "''downloaded''"] parse_query_digits(1) [of "''left''"]
      parse_query_cons(2) [of "''compact''" "''1''"]
    by (simp add: kept_def isalnum_def)
qed

section \<open>The response\<close>

text \<open>
  A response header: the status line, the header lines, and the empty line that ends it.
\<close>

definition header_text :: "string list \<Rightarrow> string" where
  "header_text ls = concat (map (\<lambda>l. l @ crlf) ls) @ crlf"

definition plain_line :: "string \<Rightarrow> bool" where
  "plain_line l \<longleftrightarrow> l \<noteq> [] \<and> CHR 0x0D \<notin> set l \<and> CHR 0x0A \<notin> set l"

lemma contains_iff: "contains d s \<longleftrightarrow> (\<exists>a b. s = a @ d @ b)"
proof (induction s)
  case (Cons c s)
  have "(\<exists>a b. c # s = a @ d @ b) \<longleftrightarrow> (\<exists>b. c # s = d @ b) \<or> (\<exists>a b. s = a @ d @ b)"
    by (auto simp: Cons_eq_append_conv)
  moreover have "take (length d) (c # s) = d \<longleftrightarrow> (\<exists>b. c # s = d @ b)"
    by (metis append_eq_conv_conj append_take_drop_id)
  ultimately show ?case
    using Cons by simp
qed simp

text \<open>The first line ends at the first line end; the empty line is only at the end of the header.\<close>

lemma first_crlf:
  assumes "CHR 0x0D \<notin> set l" "l @ CHR 0x0D # y = a @ CHR 0x0D # b"
  shows "length l \<le> length a"
proof (rule ccontr)
  assume "\<not> length l \<le> length a"
  then have "(l @ CHR 0x0D # y) ! length a = l ! length a" "l ! length a \<in> set l"
    by (simp_all add: nth_append)
  with assms show False
    by (metis nth_append_length)
qed

lemma first_empty_line:
  assumes "\<forall>l \<in> set ls. plain_line l" "ls \<noteq> []" "header_text ls @ z = a @ crlf @ crlf @ r"
  shows "length (header_text ls) \<le> length (a @ crlf @ crlf)"
  using assms
proof (induction ls arbitrary: a)
  case Nil
  then show ?case by simp
next
  case (Cons l ls)
  have l: "CHR 0x0D \<notin> set l" "l \<noteq> []"
    using Cons.prems(1) by (simp_all add: plain_line_def)
  have eq: "l @ CHR 0x0D # CHR 0x0A # header_text ls @ z = a @ CHR 0x0D # CHR 0x0A # CHR 0x0D # CHR 0x0A # r"
    using Cons.prems(3) by (simp add: header_text_def crlf_def)
  have "length l \<le> length a"
    by (rule first_crlf [OF l(1) eq])
  then obtain a1 where a1: "a = l @ a1"
    using eq by (metis append_eq_append_conv_if append_take_drop_id)
  then have eq1: "CHR 0x0D # CHR 0x0A # header_text ls @ z = a1 @ CHR 0x0D # CHR 0x0A # CHR 0x0D # CHR 0x0A # r"
    using eq by simp
  show ?case
  proof (cases a1)
    case Nil
    then have e: "header_text ls @ z = CHR 0x0D # CHR 0x0A # r"
      using eq1 by simp
    have "ls = []"
    proof (rule ccontr)
      assume "ls \<noteq> []"
      then obtain l' ls' where "ls = l' # ls'"
        by (cases ls) auto
      then have "plain_line l'" "header_text ls = l' @ crlf @ header_text ls'"
        using Cons.prems(1) by (simp_all add: header_text_def)
      with e show False
        by (cases l') (auto simp: plain_line_def)
    qed
    then show ?thesis
      using a1 Nil by (simp add: header_text_def)
  next
    case (Cons c a2)
    then have eq2: "CHR 0x0A # header_text ls @ z = a2 @ CHR 0x0D # CHR 0x0A # CHR 0x0D # CHR 0x0A # r" "c = CHR 0x0D"
      using eq1 by simp_all
    then obtain a3 where a3: "a2 = CHR 0x0A # a3" "header_text ls @ z = a3 @ crlf @ crlf @ r"
      by (cases a2) (auto simp: crlf_def)
    show ?thesis
    proof (cases "ls = []")
      case True
      then show ?thesis
        using a1 Cons a3 by (simp add: header_text_def crlf_def)
    next
      case False
      have "length (header_text ls) \<le> length (a3 @ crlf @ crlf)"
        using Cons.prems(1) False a3(2) by (intro Cons.IH) simp_all
      then show ?thesis
        using a1 Cons a3(1) by (simp add: header_text_def crlf_def)
    qed
  qed
qed

lemma contains_append: "contains d a \<Longrightarrow> contains d (a @ b)" "contains d b \<Longrightarrow> contains d (a @ b)"
  unfolding contains_iff by (metis append.assoc)+

lemma read_until_at:
  assumes "contains d (buf @ concat pre @ c)" "\<not> contains d (buf @ concat pre)"
  shows "read_until d buf (pre @ c # post) = Some (buf @ concat pre @ c, post)"
  using assms
proof (induction pre arbitrary: buf)
  case Nil
  then show ?case by (cases post) simp_all
next
  case (Cons p pre)
  have "\<not> contains d buf"
    using Cons.prems(2) contains_append(1) by metis
  then show ?case
    using Cons.IH [of "buf @ p"] Cons.prems by simp
qed

lemma read_until_some:
  "contains d (buf @ concat cs) \<Longrightarrow>
   \<exists>k \<le> length cs. read_until d buf (cs @ post) = Some (buf @ concat (take k cs), drop k cs @ post) \<and>
     contains d (buf @ concat (take k cs))"
proof (induction cs arbitrary: buf)
  case Nil
  then show ?case by (cases post) simp_all
next
  case (Cons c cs)
  show ?case
  proof (cases "contains d buf")
    case True
    then show ?thesis by (intro exI [of _ 0]) simp
  next
    case False
    obtain k where "k \<le> length cs" "contains d ((buf @ c) @ concat (take k cs))"
        "read_until d (buf @ c) (cs @ post) = Some ((buf @ c) @ concat (take k cs), drop k cs @ post)"
      using Cons.IH [of "buf @ c"] Cons.prems by auto
    with False show ?thesis
      by (intro exI [of _ "Suc k"]) simp
  qed
qed

lemma getline_line:
  assumes "good s" "CHR 0x0A \<notin> set l" "chars s = l @ CHR 0x0A # r"
  shows "getline s = (l, s\<lparr>chars := r\<rparr>)"
proof -
  have "takeWhile (\<lambda>c. c \<noteq> CHR 0x0A) (l @ CHR 0x0A # r) = l" "dropWhile (\<lambda>c. c \<noteq> CHR 0x0A) (l @ CHR 0x0A # r) = CHR 0x0A # r"
    using assms(2) by (induction l) auto
  with assms show ?thesis
    by (simp add: getline_def)
qed

lemma seek_body_header:
  assumes "good s" "\<forall>l \<in> set ls. plain_line l" "chars s = header_text ls @ body"
  shows "seek_body s = s\<lparr>chars := body\<rparr>"
  using assms
proof (induction ls arbitrary: s)
  case Nil
  then have "getline s = ([CHR 0x0D], s\<lparr>chars := body\<rparr>)"
    by (intro getline_line) (simp_all add: header_text_def crlf_def)
  with Nil.prems(1) show ?case
    by (subst seek_body.simps) (simp add: good_def)
next
  case (Cons l ls)
  have l: "l \<noteq> []" "CHR 0x0A \<notin> set l"
    using Cons.prems(2) by (simp_all add: plain_line_def)
  have "getline s = (l @ [CHR 0x0D], s\<lparr>chars := header_text ls @ body\<rparr>)"
    using Cons.prems(1, 3) l(2) by (intro getline_line) (simp_all add: header_text_def crlf_def)
  then show ?case
    using Cons.IH [of "s\<lparr>chars := header_text ls @ body\<rparr>"] Cons.prems(1, 2) l(1)
    by (subst seek_body.simps) (simp add: good_def)
qed

text \<open>The status line.\<close>

definition status_line :: "char \<Rightarrow> string \<Rightarrow> string" where
  "status_line v reason = ''HTTP/1.'' @ v # '' 200'' @ reason"

lemma read_status_line:
  assumes "is_digit v" "reason \<noteq> []" "hd reason = CHR '' ''" "chars s = status_line v reason @ r" "good s"
  shows "read_word s = (''HTTP/1.'' @ [v], s\<lparr>chars := '' 200'' @ reason @ r\<rparr>)"
    "read_int u (s\<lparr>chars := '' 200'' @ reason @ r\<rparr>) = (200, s\<lparr>chars := reason @ r\<rparr>)"
proof -
  have "\<not> is_space v"
    using assms(1) by (auto simp: is_digit_def is_space_def)
  then show "read_word s = (''HTTP/1.'' @ [v], s\<lparr>chars := '' 200'' @ reason @ r\<rparr>)"
    using assms(4, 5) by (simp add: read_word_def status_line_def is_space_def good_def)
  obtain x where x: "reason = CHR '' '' # x"
    using assms(2, 3) by (cases reason) auto
  show "read_int u (s\<lparr>chars := '' 200'' @ reason @ r\<rparr>) = (200, s\<lparr>chars := reason @ r\<rparr>)"
    using assms(5)
    by (simp add: x read_int_def is_space_def good_def is_digit_def Let_def read_decimal_def char_digit_def)
qed

lemma plain_status_line: "is_digit v \<Longrightarrow> plain_line reason \<Longrightarrow> plain_line (status_line v reason)"
  by (auto simp: plain_line_def status_line_def is_digit_def)

text \<open>
  The first read ends somewhere behind the status line; \<open>b\<close> is what it got beyond that.
\<close>

lemma status_line_read:
  assumes l: "plain_line l" and T: "X @ Y = l @ crlf @ Z" and c: "contains crlf X"
  shows "\<exists>b. X = l @ crlf @ b \<and> b @ Y = Z"
proof -
  obtain a e where X: "X = a @ crlf @ e"
    using c by (auto simp: contains_iff)
  then have eq: "l @ CHR 0x0D # CHR 0x0A # Z = a @ CHR 0x0D # CHR 0x0A # (e @ Y)"
    using T by (simp add: crlf_def)
  have "length l \<le> length a"
    by (rule first_crlf [OF _ eq]) (use l in \<open>simp add: plain_line_def\<close>)
  then have "length (l @ crlf) \<le> length X"
    by (simp add: X)
  moreover have "X @ Y = (l @ crlf) @ Z"
    using T by simp
  ultimately obtain b where "X = (l @ crlf) @ b" "b @ Y = Z"
    by (metis append_eq_append_conv_if append_take_drop_id)
  then show ?thesis
    by auto
qed

lemma header_ends_empty: "contains (crlf @ crlf) (crlf @ header_text ls @ z)"
proof (cases ls rule: rev_cases)
  case Nil
  then have "crlf @ header_text ls @ z = [] @ (crlf @ crlf) @ z"
    by (simp add: header_text_def)
  then show ?thesis
    unfolding contains_iff by blast
next
  case (snoc ks k)
  then have "crlf @ header_text ls @ z = (crlf @ concat (map (\<lambda>l. l @ crlf) ks) @ k) @ (crlf @ crlf) @ z"
    by (simp add: header_text_def)
  then show ?thesis
    unfolding contains_iff by blast
qed

lemma response_body:
  assumes v: "is_digit v" and r: "plain_line reason" "hd reason = CHR '' ''" and ls: "\<forall>l \<in> set ls. plain_line l"
    and T: "concat pre @ c = header_text (status_line v reason # ls) @ body"
    and c: "length (concat pre) < length (header_text (status_line v reason # ls))"
  shows "read_response u (pre @ c # post) = Some body"
proof -
  let ?l = "status_line v reason" and ?e = "crlf @ crlf"
  note pl = plain_status_line [OF v r(1)]
  have rne: "reason \<noteq> []"
    using r(1) by (simp add: plain_line_def)
  have T': "concat (pre @ [c]) = ?l @ crlf @ header_text ls @ body"
    using T by (simp add: header_text_def)
  have "contains crlf (?l @ crlf @ header_text ls @ body)"
    unfolding contains_iff by blast
  then obtain k where k: "k \<le> length (pre @ [c])" "contains crlf (concat (take k (pre @ [c])))"
      "read_until crlf [] ((pre @ [c]) @ post) = Some (concat (take k (pre @ [c])), drop k (pre @ [c]) @ post)"
    using read_until_some [of crlf "[]" "pre @ [c]" post] T' by auto
  have "concat (take k (pre @ [c])) @ concat (drop k (pre @ [c])) = ?l @ crlf @ header_text ls @ body"
    using T' by (metis append_take_drop_id concat_append)
  from status_line_read [OF pl this k(2)] obtain b where
    b: "concat (take k (pre @ [c])) = ?l @ crlf @ b" "b @ concat (drop k (pre @ [c])) = header_text ls @ body"
    by blast
  have words: "read_word \<lparr>chars = ?l @ crlf @ b, eofbit = False, failbit = False\<rparr> =
      (''HTTP/1.'' @ [v], \<lparr>chars = '' 200'' @ reason @ crlf @ b, eofbit = False, failbit = False\<rparr>)"
    "read_int u \<lparr>chars = '' 200'' @ reason @ crlf @ b, eofbit = False, failbit = False\<rparr> =
      (200, \<lparr>chars = reason @ crlf @ b, eofbit = False, failbit = False\<rparr>)"
    using read_status_line [OF v rne r(2), where s = "\<lparr>chars = ?l @ crlf @ b, eofbit = False, failbit = False\<rparr>"
        and r = "crlf @ b"]
    by (simp_all add: good_def)
  have all: "contains ?e (reason @ crlf @ header_text ls @ body)"
    using header_ends_empty contains_append(2) by metis
  have second: "read_until ?e (reason @ crlf @ b) (drop k (pre @ [c]) @ post) =
      Some (reason @ crlf @ header_text ls @ body, post)"
  proof (cases "k \<le> length pre")
    case False
    then have "drop k (pre @ [c]) = []"
      by simp
    then show ?thesis
      using b(2) all by (cases post) simp_all
  next
    case True
    then have d: "drop k (pre @ [c]) = drop k pre @ [c]" "take k (pre @ [c]) = take k pre"
      by simp_all
    have p: "concat pre = ?l @ crlf @ b @ concat (drop k pre)"
      using b(1) d(2) by (metis append.assoc append_take_drop_id concat_append)
    have "\<not> contains ?e (reason @ crlf @ b @ concat (drop k pre))"
    proof
      assume "contains ?e (reason @ crlf @ b @ concat (drop k pre))"
      then have "contains ?e (concat pre)"
        unfolding p status_line_def by (simp add: contains_append)
      then obtain x y where xy: "concat pre = x @ ?e @ y"
        by (auto simp: contains_iff)
      then have "header_text (?l # ls) @ body = x @ crlf @ crlf @ (y @ c)"
        using T by simp
      from first_empty_line [OF _ _ this] pl ls have "length (header_text (?l # ls)) \<le> length (x @ ?e)"
        by simp
      with c xy show False
        by simp
    qed
    moreover have "(reason @ crlf @ b) @ concat (drop k pre) @ c = reason @ crlf @ header_text ls @ body"
      using b(2) d(1) by simp
    ultimately show ?thesis
      using read_until_at [of ?e "reason @ crlf @ b" "drop k pre" c post] all d(1) by simp
  qed
  have "seek_body \<lparr>chars = reason @ crlf @ header_text ls @ body, eofbit = False, failbit = False\<rparr> =
      \<lparr>chars = body, eofbit = False, failbit = False\<rparr>"
    using seek_body_header [of "\<lparr>chars = reason @ crlf @ header_text ls @ body, eofbit = False, failbit = False\<rparr>"
        "reason # ls" body] r(1) ls by (simp add: good_def header_text_def)
  with k(3) b(1) words second show ?thesis
    by (simp add: read_response_def)
qed

section \<open>What a query does\<close>

lemma handle_body_run:
  assumes "decode lib body = Some (BDictionary m)" "map_of m ''peers'' = Some (BString p)"
    and "map_of m ''interval'' = Some (BInteger i)"
  shows "handle_body lib now r body tr w =
    bind_res (add_milliseconds now (sint i)) (\<lambda>n.
      let tr1 = tr\<lparr>timeToNextRequest := n\<rparr>
      in if event r = EV_NONE \<or> event r = EV_STARTED
         then bind_res (connectToPeers (to_bytes p @ [0]) (length p) w) (\<lambda>w1. Inr (True, tr1, w1))
         else Inr (True, tr1, w))"
  using assms
  by (simp add: handle_body_def decode_item_def as_dictionary_def as_string_def as_integer_def dict_at_def setNextRequestTime_def)

lemma httpRequest_False:
  "httpRequest lib net now r tr w = Inr (False, tr', w') \<Longrightarrow> tr' = tr \<and> w' = w"
  by (auto simp: httpRequest_def handle_body_def Let_def split: option.splits if_splits)

lemma query_text_no_space: "CHR '' '' \<notin> set (query_text r tr t)"
proof -
  have "CHR '' '' \<notin> set (urlEncode s)" for s
    using urlEncode_chars [of s] by (auto simp: kept_def isalnum_def)
  moreover have "CHR '' '' \<notin> set (to_string n)" for n
    using to_string_digits [of "CHR '' ''" n] by (auto simp: is_digit_def)
  ultimately show ?thesis
    by (simp add: query_text_def event_text_def split: TrackerEvent.splits)
qed

text \<open>
  A header and a body as the client finds them: the header may be cut into reads anywhere, and the body is
  what arrives in the read that completes the header.
\<close>

definition answers :: "string list \<Rightarrow> string \<Rightarrow> bool" where
  "answers cs body \<longleftrightarrow>
     (\<exists>v reason ls pre c post. is_digit v \<and> plain_line reason \<and> hd reason = CHR '' '' \<and> (\<forall>l \<in> set ls. plain_line l) \<and>
        cs = pre @ c # post \<and> concat pre @ c = header_text (status_line v reason # ls) @ body \<and>
        length (concat pre) < length (header_text (status_line v reason # ls)))"

lemma answers_response: "answers cs body \<Longrightarrow> read_response u cs = Some body"
  unfolding answers_def using response_body by blast

section \<open>Properties\<close>

text \<open>
  C35: the request.  It is a well-formed request line with one query, whose parameters, read as a web
  server reads them, are the event, the bytes of our info hash and identity, the port and the counters;
  the pass key does not arrive as a parameter of its own: it is part of the value of \<open>compact\<close>.
\<close>

theorem request_parameters:
  "\<exists>q. request_text r tr t = ''GET '' @ announcePath (urlMeta tr) @ ''?'' @ q @ '' HTTP/1.0'' @ crlf @
       ''Host: '' @ host (urlMeta tr) @ crlf @ ''User-Agent: YtoRRenT'' @ crlf @ ''Connection: close'' @ crlf @ crlf
     \<and> CHR '' '' \<notin> set q
     \<and> parse_query q = event_params (event r) @
       [(''info_hash'', byte_string (slice 28 20 (handshake t))), (''peer_id'', byte_string (ownPeerId t)),
        (''port'', to_string (unat (myPort tr))), (''uploaded'', to_string (unat (uploaded r))),
        (''downloaded'', to_string (unat (downloaded r))), (''left'', to_string (unat (remaining r))),
        (''compact'', ''1'' @ passKeyParam (urlMeta tr))]"
  by (rule exI [of _ "query_text r tr t"]) (simp only: request_text_def query_text_no_space query_text_params simp_thms)

text \<open>
  C22: a regular query that is answered with status 200, a header of plain lines and a body that decodes to a
  list of peers and an interval.  However the header was cut into reads, the body is what arrived in the read
  that completed the header, all of it and nothing that comes later; the unknown addresses are dialled, and
  the next request is due after as many milliseconds as the interval says, unless this time overflows the
  64 bits of the clock.
\<close>

theorem query_dials_peers:
  assumes "resolve net (host (urlMeta tr)) (port (urlMeta tr)) = Some eps" "try_connect (connects net) eps = Inr True"
    and "write_ok net" "answers (answer net (request_text r tr (tor w))) body"
    and "decode lib body = Some (BDictionary m)" "map_of m ''peers'' = Some (BString p)"
    and "map_of m ''interval'' = Some (BInteger i)" "to_bytes p = compact es" "peers_known w" "event r = EV_NONE"
  shows "tracker_query lib net now r tr w =
    (if fits_int64 (sint i * 1000000) \<and> fits_int64 (now + sint i * 1000000)
     then Inr (True, tr\<lparr>timeToNextRequest := now + sint i * 1000000\<rparr>, fold dial (fresh_addresses (known_ips w) es) w)
     else Inl SignedOverflow)"
proof -
  have l: "length p = 6 * length es"
    using arg_cong [OF assms(8), of length] by (simp add: to_bytes_def)
  have "connectToPeers (to_bytes p @ [0]) (length p) w = Inr (fold dial (fresh_addresses (known_ips w) es) w)"
    unfolding assms(8) l by (rule connect_compact [OF assms(9)])
  then show ?thesis
    using assms(1-3, 10) answers_response [OF assms(4)] handle_body_run [OF assms(5-7)]
    by (simp add: tracker_query_def httpRequest_def Let_def add_milliseconds_def)
qed

text \<open>
  A query that fails, because the host does not resolve, no end point accepts, or the response is
  not one with status 200, changes neither the tracker nor the client.
\<close>

lemma failed_query_changes_nothing:
  assumes "tracker_query lib net now r tr w = Inr (False, tr', w')"
  shows "tr' = tr \<and> w' = w"
  using assms unfolding tracker_query_def by (rule httpRequest_False)

text \<open>
  What the tracker can do to the client with a response of status 200: a body that is not bencoded
  ends it with an exception nothing catches, and a dictionary without a list of peers, which is how a
  tracker reports a failure, makes it dereference a null pointer.
\<close>

lemma bad_body_ends_client:
  assumes "resolve net (host (urlMeta tr)) (port (urlMeta tr)) = Some eps" "try_connect (connects net) eps = Inr True"
    and "write_ok net" "answers (answer net (request_text r tr (tor w))) body"
    and "decode lib body = None \<and> f = Uncaught ''bencoding::DecodingError'' \<or>
      decode lib body = Some (BDictionary m) \<and> map_of m ''peers'' = None \<and> f = NullDeref"
  shows "tracker_query lib net now r tr w = Inl f"
  using assms(1-3, 5) answers_response [OF assms(4)]
  by (auto simp: tracker_query_def httpRequest_def handle_body_def decode_item_def as_dictionary_def as_string_def
      dict_at_def)

end
