(* ===== verification/Teardown.thy ===== *)
theory Teardown
  imports Peer_Registry
begin

text \<open>
  What is left when an object is destroyed (\<open>~Acceptor\<close>, \<open>~Connection\<close>, \<open>~Peer\<close>, \<open>~Torrent\<close>). The memory
  itself is not modelled: an object that is gone stays in the world in its last state.
\<close>

definition destroy_acceptor :: "torrent \<Rightarrow> torrent res" where
  "destroy_acceptor t = bind_res (acceptor_isStarted t) (\<lambda>started. Inr (if started then acceptor_stop t else t))"

definition destroy_connection :: "nat \<Rightarrow> world \<Rightarrow> world" where
  "destroy_connection pid = conn_close pid"

definition destroy_peer :: "nat \<Rightarrow> world \<Rightarrow> world" where
  "destroy_peer pid = upd_peer pid (\<lambda>p. p\<lparr>pieceQueue := []\<rparr>)"

definition destroy_torrent :: "torrent \<Rightarrow> torrent res" where
  "destroy_torrent t =
     (let t1 = (if fp (tfile t) then t\<lparr>tfile := (tfile t)\<lparr>fp := False\<rparr>\<rparr> else t)
      in if acceptor t1 \<noteq> None then bind_res (destroy_acceptor t1) (\<lambda>t2. Inr (t2\<lparr>acceptor := None\<rparr>)) else Inr t1)"

text \<open>
  \<open>delete t\<close> never faults; the download file is closed and nothing listens, the rest, and with it every
  connection, is as before: \<open>main\<close> stops the event loop first.
\<close>

lemma destroy_torrent_run:
  "\<exists>t'. destroy_torrent t = Inr t' \<and> \<not> fp (tfile t') \<and> acceptor t' = None \<and> pieces t' = pieces t \<and>
     activePeers t' = activePeers t \<and> completedPieces t' = completedPieces t \<and> pieceLength t' = pieceLength t \<and>
     totalSize t' = totalSize t"
  by (cases "acceptor t")
    (auto simp: destroy_torrent_def destroy_acceptor_def acceptor_isStarted_def acceptor_stop_def Let_def)

lemma destroy_connection_closes: "\<not> isConnected pid (destroy_connection pid w)"
  by (simp add: destroy_connection_def)

end
