(* ===== verification/Client.thy ===== *)
theory Client
  imports Dialled_Seed Tracker Teardown
begin

text \<open>
  The main thread: \<open>Torrent::download\<close> and \<open>Torrent::seed\<close> (\<open>src/torrent/torrent.cpp\<close>) and \<open>main\<close>
  (\<open>main.cpp\<close>).  They run interleaved with the completion handlers of the network thread; what happens
  from outside is given as a list of ticks, one for each time around the loop: the handlers that run
  before the loop looks at the counter, the clock, and, should a query be due, what the network and the
  handlers do during it.  A finite list of ticks is the beginning of an execution.
\<close>

section \<open>The network thread\<close>

text \<open>The events of the network thread; the others are what the main thread does.\<close>

fun handler_event :: "event \<Rightarrow> bool" where
  "handler_event (TrackerPeers info) = False"
| "handler_event (StartAccepting p bound) = False"
| "handler_event DownloadDone = False"
| "handler_event _ = True"

text \<open>The handlers that run meanwhile: those of the list that can run when their turn comes.\<close>

fun run_handlers :: "env \<Rightarrow> event list \<Rightarrow> world \<Rightarrow> world res" where
  "run_handlers env [] w = Inr w"
| "run_handlers env (e # es) w =
     (if handler_event e \<and> enabled e w then bind_res (client_step env e w) (run_handlers env es)
      else run_handlers env es w)"

text \<open>
  \<open>g_io_context\<close> and its work guard, and the two functions that drive them: the thread that calls
  \<open>Connection::start\<close> runs handlers until the context is stopped, and then no more.
\<close>

record io_context =
  work_guard :: bool
  stopped :: bool

definition g_io_context :: io_context where
  "g_io_context = \<lparr>work_guard = True, stopped = False\<rparr>"

definition Connection_start :: "env \<Rightarrow> io_context \<Rightarrow> event list \<Rightarrow> world \<Rightarrow> world res" where
  "Connection_start env io es w = (if stopped io then Inr w else run_handlers env es w)"

definition Connection_stop :: "io_context \<Rightarrow> io_context" where
  "Connection_stop io = io\<lparr>work_guard := False, stopped := True\<rparr>"

lemma Connection_start_run [simp]: "Connection_start env g_io_context es w = run_handlers env es w"
  by (simp add: Connection_start_def g_io_context_def)

lemma Connection_start_stopped [simp]: "Connection_start env (Connection_stop io) es w = Inr w"
  by (simp add: Connection_start_def Connection_stop_def)

section \<open>Queries\<close>

record exchange =
  meanwhile :: "event list"
  network :: tracker_net
  answered :: int

record tick = exchange +
  before :: "event list"
  clock :: int

text \<open>\<open>mainTracker->query(buildTrackerQuery(e))\<close>, the query being built before it is sent.\<close>

definition query_main :: "env \<Rightarrow> bencoding \<Rightarrow> TrackerEvent \<Rightarrow> 'a exchange_scheme \<Rightarrow> tracker \<Rightarrow> world \<Rightarrow>
    (bool \<times> tracker \<times> world) res" where
  "query_main env lib ev x tr w =
     bind_res (buildTrackerQuery ev (tor w)) (\<lambda>q.
     bind_res (run_handlers env (meanwhile x) w) (\<lambda>w1.
       tracker_query lib (network x) (answered x) q tr w1))"

text \<open>\<open>validateTracker(mainTrackerUrl, buildTrackerQuery(TrackerEvent::STARTED), port)\<close>.\<close>

definition find_tracker :: "env \<Rightarrow> bencoding \<Rightarrow> u16 \<Rightarrow> 'a exchange_scheme \<Rightarrow> world \<Rightarrow> (tracker option \<times> world) res" where
  "find_tracker env lib p x w =
     bind_res (buildTrackerQuery EV_STARTED (tor w)) (\<lambda>q.
     bind_res (run_handlers env (meanwhile x) w) (\<lambda>w1.
       validateTracker lib (network x) (answered x) (mainTrackerUrl (tor w)) q p w1))"

section \<open>Downloading\<close>

datatype DownloadError = COMPLETED | TRACKER_QUERY_FAILURE | NETWORK_ERROR

text \<open>The loop of \<open>download\<close>: whether it was left, the tracker and the world.  The result of a query is ignored.\<close>

fun download_loop :: "env \<Rightarrow> bencoding \<Rightarrow> nat \<Rightarrow> tick list \<Rightarrow> tracker \<Rightarrow> world \<Rightarrow> (bool \<times> tracker \<times> world) res" where
  "download_loop env lib piecesNeeded [] tr w = Inr (False, tr, w)"
| "download_loop env lib piecesNeeded (k # ks) tr w =
     bind_res (run_handlers env (before k) w) (\<lambda>w1.
       if completedPieces (tor w1) = piecesNeeded then Inr (True, tr, w1)
       else bind_res (if isNextRequestDue (clock k) tr then query_main env lib EV_NONE k tr w1
                      else Inr (True, tr, w1))
              (\<lambda>(ok, tr2, w2). download_loop env lib piecesNeeded ks tr2 w2))"

text \<open>
  \<open>download\<close>: \<open>bound\<close> tells whether a listening socket can be opened on a port, \<open>first\<close> and \<open>final\<close> are
  the first and the closing exchange with the tracker.  The result is \<open>None\<close> while the loop runs.
\<close>

definition download :: "env \<Rightarrow> bencoding \<Rightarrow> (u16 \<Rightarrow> bool) \<Rightarrow> exchange \<Rightarrow> tick list \<Rightarrow> exchange \<Rightarrow> u16 \<Rightarrow> bool \<Rightarrow>
    tracker option \<Rightarrow> world \<Rightarrow> (DownloadError option \<times> tracker option \<times> world) res" where
  "download env lib bound first ks final p seedAfter mainTracker w =
     (let piecesNeeded = length (pieces (tor w)) in
      bind_res (find_tracker env lib p first w) (\<lambda>(found, w1).
        case found of
          None \<Rightarrow> Inr (Some TRACKER_QUERY_FAILURE, mainTracker, w1)
        | Some tr \<Rightarrow>
            bind_res (start_accepting p (bound p) w1) (\<lambda>w2.
            bind_res (download_loop env lib piecesNeeded ks tr w2) (\<lambda>(left, tr2, w3).
              if \<not> left then Inr (None, Some tr2, w3)
              else
                let w4 = (if seedAfter then w3 else disconnectPeers w3);
                    ev = (if completedPieces (tor w4) = piecesNeeded then EV_COMPLETED else EV_STOPPED)
                in bind_res (query_main env lib ev final tr2 w4) (\<lambda>(ok, tr3, w5).
                     Inr (Some (if ev = EV_COMPLETED then COMPLETED else NETWORK_ERROR), Some tr3, w5))))))"

section \<open>Downloading from a given peer\<close>

text \<open>The loop of \<open>customDownload\<close>, which only waits, and the function, which nothing calls.\<close>

fun wait_loop :: "env \<Rightarrow> nat \<Rightarrow> event list list \<Rightarrow> world \<Rightarrow> (bool \<times> world) res" where
  "wait_loop env piecesNeeded [] w = Inr (False, w)"
| "wait_loop env piecesNeeded (es # ess) w =
     bind_res (run_handlers env es w) (\<lambda>w1.
       if completedPieces (tor w1) = piecesNeeded then Inr (True, w1) else wait_loop env piecesNeeded ess w1)"

definition customDownload :: "env \<Rightarrow> event list list \<Rightarrow> string \<Rightarrow> string \<Rightarrow> world \<Rightarrow> (bool \<times> world) res" where
  "customDownload env ess peerIp peerPort w =
     (let piecesNeeded = length (pieces (tor w)); pid = nextPeer w;
          w1 = make_peer new_connection w;
          w2 = peer_connect peerIp peerPort pid (upd_tor (blacklist (getRawIp w1 pid)) w1)
      in bind_res (wait_loop env piecesNeeded ess w2) (\<lambda>(left, w3).
           if \<not> left then Inr (False, w3)
           else let w4 = (if fp (tfile (tor w3)) then upd_tor (\<lambda>t. t\<lparr>tfile := (tfile t)\<lparr>fp := False\<rparr>\<rparr>) w3 else w3)
                in Inr (True, peer_disconnect pid w4)))"

section \<open>Seeding\<close>

text \<open>The loop of \<open>seed\<close> has no end.\<close>

fun seed_loop :: "env \<Rightarrow> bencoding \<Rightarrow> tick list \<Rightarrow> tracker \<Rightarrow> world \<Rightarrow> (tracker \<times> world) res" where
  "seed_loop env lib [] tr w = Inr (tr, w)"
| "seed_loop env lib (k # ks) tr w =
     bind_res (run_handlers env (before k) w) (\<lambda>w1.
     bind_res (if isNextRequestDue (clock k) tr then query_main env lib EV_COMPLETED k tr w1 else Inr (True, tr, w1))
       (\<lambda>(ok, tr2, w2). seed_loop env lib ks tr2 w2))"

text \<open>\<open>seed\<close>: whether it has returned, the tracker and the world.\<close>

definition seed :: "env \<Rightarrow> bencoding \<Rightarrow> exchange \<Rightarrow> tick list \<Rightarrow> u16 \<Rightarrow> tracker option \<Rightarrow> world \<Rightarrow>
    (bool \<times> tracker option \<times> world) res" where
  "seed env lib first ks p mainTracker w =
     bind_res (find_tracker env lib p first w) (\<lambda>(found, w1).
       case found of
         None \<Rightarrow> Inr (True, mainTracker, w1)
       | Some tr \<Rightarrow>
           bind_res (acceptor_isStarted (tor w1)) (\<lambda>started.
           bind_res (if started then Inr w1
                     else bind_res (initiateAsyncAcceptLoop (tor w1)) (\<lambda>t. Inr (upd_tor (\<lambda>_. t) w1))) (\<lambda>w2.
           bind_res (seed_loop env lib ks tr w2) (\<lambda>(tr2, w3). Inr (False, Some tr2, w3)))))"

section \<open>The program\<close>

text \<open>What the option parser makes of the command line; \<open>None\<close> for an option that is not given.\<close>

record options =
  argc :: nat
  well_formed :: bool
  help_opt :: bool
  version_opt :: bool
  log_opens :: bool
  torrent_opt :: "string option"
  dir_opt :: "string option"
  seed_opt :: bool
  port_opt :: "u16 option"

definition startport :: "options \<Rightarrow> u16" where
  "startport opts = (case port_opt opts of None \<Rightarrow> 63333 | Some p \<Rightarrow> p)"

datatype exit = Exit int | Downloading | Seeding

text \<open>
  The end of the program: \<open>Connection::stop()\<close>, the join and \<open>delete t\<close>.  \<open>fst late\<close> are the handlers that
  are ready before the event loop is stopped, \<open>snd late\<close> those that are ready only afterwards.
\<close>

definition shut_down :: "env \<Rightarrow> event list \<times> event list \<Rightarrow> world \<Rightarrow> world res" where
  "shut_down env late w =
     bind_res (Connection_start env g_io_context (fst late) w) (\<lambda>w1.
     bind_res (Connection_start env (Connection_stop g_io_context) (snd late) w1) (\<lambda>w2.
     bind_res (destroy_torrent (tor w2)) (\<lambda>t. Inr (upd_tor (\<lambda>_. t) w2))))"

text \<open>\<open>main\<close> from the end of the download on: \<open>p\<close> is the port the download was given.\<close>

definition after_download :: "env \<Rightarrow> bencoding \<Rightarrow> exchange \<Rightarrow> tick list \<Rightarrow> event list \<times> event list \<Rightarrow> bool \<Rightarrow> u16 \<Rightarrow>
    DownloadError option \<times> tracker option \<times> world \<Rightarrow> (exit \<times> (tracker option \<times> world) option) res" where
  "after_download env lib first' ks' late seeds p = (\<lambda>(error, mt, w).
     case error of
       None \<Rightarrow> Inr (Downloading, Some (mt, w))
     | Some e \<Rightarrow>
         if e \<noteq> COMPLETED then bind_res (shut_down env late w) (\<lambda>w1. Inr (Exit 1, Some (mt, w1)))
         else if \<not> seeds then bind_res (shut_down env late w) (\<lambda>w1. Inr (Exit 0, Some (mt, w1)))
         else
           bind_res (seed env lib first' ks' (p + 1) mt w) (\<lambda>(returned, mt', w').
             if returned then bind_res (shut_down env late w') (\<lambda>w1. Inr (Exit 0, Some (mt', w1)))
             else Inr (Seeding, Some (mt', w'))))"

text \<open>
  \<open>main\<close>: \<open>files\<close> is what is found at the path of a torrent file, \<open>first\<close>, \<open>ks\<close>, \<open>final\<close> belong to the
  download, \<open>first'\<close>, \<open>ks'\<close> to the seeding, \<open>late\<close> to the end.  The result has the tracker and the world, if there is one.
\<close>

definition main :: "env \<Rightarrow> bencoding \<Rightarrow> (string \<Rightarrow> file_system) \<Rightarrow> (u16 \<Rightarrow> bool) \<Rightarrow> exchange \<Rightarrow> tick list \<Rightarrow> exchange \<Rightarrow>
    exchange \<Rightarrow> tick list \<Rightarrow> event list \<times> event list \<Rightarrow> options \<Rightarrow> (exit \<times> (tracker option \<times> world) option) res" where
  "main env lib files bound first ks final first' ks' late opts =
     (let dir = (case dir_opt opts of None \<Rightarrow> ''Torrents'' | Some d \<Rightarrow> d)
      in if argc opts = 1 then Inr (Exit 1, None)
         else if \<not> well_formed opts then Inr (Exit 1, None)
         else if help_opt opts then Inr (Exit 0, None)
         else if version_opt opts then Inr (Exit 0, None)
         else
           case torrent_opt opts of
             None \<Rightarrow> Inr (Exit 1, None)
           | Some filePath \<Rightarrow>
               if \<not> log_opens opts then Inr (Exit 1, None)
               else
                 bind_res (parseFile env lib (files filePath) dir Torrent) (\<lambda>(result, t, d).
                   if result \<noteq> SUCCESS then Inr (Exit 1, None)
                   else
                     bind_res (download env lib bound first ks final (startport opts) (seed_opt opts) None (start_world t d))
                       (after_download env lib first' ks' late (seed_opt opts) (startport opts))))"

section \<open>The main thread as steps of the client\<close>

text \<open>What the main thread and the handlers do to the world is a run of the transition system.\<close>

definition reaches :: "env \<Rightarrow> world \<Rightarrow> world \<Rightarrow> bool" where
  "reaches env w w' \<longleftrightarrow> (\<exists>es. run (swarm_step env) w es w')"

lemma reaches_refl [intro, simp]: "reaches env w w"
  unfolding reaches_def by (rule exI) (rule run_nil)

lemma reaches_trans [trans]: "reaches env w v \<Longrightarrow> reaches env v u \<Longrightarrow> reaches env w u"
  unfolding reaches_def by (metis run_append)

lemma reaches_step: "enabled e w \<Longrightarrow> client_step env e w = Inr w' \<Longrightarrow> reaches env w w'"
  unfolding reaches_def by (metis run_one swarm_step.intros)

lemma run_handlers_reaches: "run_handlers env es w = Inr w' \<Longrightarrow> reaches env w w'"
proof (induction es arbitrary: w)
  case (Cons e es)
  show ?case
  proof (cases "handler_event e \<and> enabled e w")
    case True
    then obtain v where "client_step env e w = Inr v" "run_handlers env es v = Inr w'"
      using Cons.prems by auto
    with True Cons.IH show ?thesis
      using reaches_step reaches_trans by blast
  next
    case False
    with Cons show ?thesis by auto
  qed
qed simp

text \<open>The acceptor is left to the main thread.\<close>

lemma handler_event_acceptor: "handler_event e \<Longrightarrow> e \<noteq> StartAccepting p bound \<and> e \<noteq> DownloadDone"
  by (cases e) simp_all

lemma run_handlers_acceptor: "run_handlers env es w = Inr w' \<Longrightarrow> acceptor (tor w') = acceptor (tor w)"
proof (induction es arbitrary: w)
  case (Cons e es)
  show ?case
  proof (cases "handler_event e \<and> enabled e w")
    case True
    then obtain v where v: "client_step env e w = Inr v" "run_handlers env es v = Inr w'"
      using Cons.prems by auto
    then show ?thesis
      using Cons.IH [OF v(2)] client_step_acceptor [OF v(1)] handler_event_acceptor [of e] True by metis
  next
    case False
    with Cons show ?thesis by auto
  qed
qed simp

text \<open>A query hands the list of peers to \<open>connectToPeers\<close>, or does nothing to the world; the tracker keeps its port.\<close>

lemma tracker_query_effect:
  assumes "tracker_query lib net now q tr w = Inr (ok, tr', w')"
  shows "reaches env w w'" "myPort tr' = myPort tr" "acceptor (tor w') = acceptor (tor w)"
proof -
  have "reaches env w w' \<and> acceptor (tor w') = acceptor (tor w)"
    if "connectToPeers (to_bytes p @ [0]) (length p) w = Inr w'" for p
    using reaches_step [of "TrackerPeers (to_bytes p)" w env w'] client_step_acceptor [of env "TrackerPeers (to_bytes p)" w w'] that
    by (simp add: to_bytes_def)
  then show "reaches env w w'" "myPort tr' = myPort tr" "acceptor (tor w') = acceptor (tor w)"
    using assms
    by (auto simp: tracker_query_def httpRequest_def handle_body_def setNextRequestTime_def Let_def split: option.splits if_splits)
qed

lemma query_main_effect:
  assumes "query_main env lib ev x tr w = Inr (ok, tr', w')"
  shows "reaches env w w'" "myPort tr' = myPort tr" "acceptor (tor w') = acceptor (tor w)"
proof -
  obtain q w1 where w1: "run_handlers env (meanwhile x) w = Inr w1"
      "tracker_query lib (network x) (answered x) q tr w1 = Inr (ok, tr', w')"
    using assms by (auto simp: query_main_def)
  show "acceptor (tor w') = acceptor (tor w)"
    using run_handlers_acceptor [OF w1(1)] tracker_query_effect(3) [OF w1(2)] by simp
  show "reaches env w w'"
    by (rule reaches_trans [OF run_handlers_reaches [OF w1(1)] tracker_query_effect(1) [OF w1(2)]])
  show "myPort tr' = myPort tr"
    by (rule tracker_query_effect(2) [OF w1(2)])
qed

lemma find_tracker_effect:
  assumes "find_tracker env lib p x w = Inr (found, w')"
  shows "reaches env w w'" "found = Some tr \<Longrightarrow> myPort tr = p" "acceptor (tor w') = acceptor (tor w)"
proof -
  obtain q w1 where w1: "run_handlers env (meanwhile x) w = Inr w1"
      "validateTracker lib (network x) (answered x) (mainTrackerUrl (tor w)) q p w1 = Inr (found, w')"
    using assms by (auto simp: find_tracker_def)
  have "reaches env w w' \<and> (\<forall>tr. found = Some tr \<longrightarrow> myPort tr = p) \<and> acceptor (tor w') = acceptor (tor w)"
  proof (cases "host (parseTrackerUrl (mainTrackerUrl (tor w))) = []")
    case True
    with w1 show ?thesis
      using run_handlers_reaches [OF w1(1)] run_handlers_acceptor [OF w1(1)] by (simp add: validateTracker_def)
  next
    case False
    then obtain ok tr2 where t: "tracker_query lib (network x) (answered x) q
        (new_tracker p (parseTrackerUrl (mainTrackerUrl (tor w)))) w1 = Inr (ok, tr2, w')"
        "found = (if ok then Some tr2 else None)"
      using w1(2) by (auto simp: validateTracker_def Let_def)
    note e = tracker_query_effect [OF t(1)]
    have "reaches env w w'"
      by (rule reaches_trans [OF run_handlers_reaches [OF w1(1)] e(1)])
    moreover have "myPort tr2 = p"
      using e(2) by (simp add: new_tracker_def)
    ultimately show ?thesis
      using t(2) e(3) run_handlers_acceptor [OF w1(1)] by simp
  qed
  then show "reaches env w w'" "found = Some tr \<Longrightarrow> myPort tr = p" "acceptor (tor w') = acceptor (tor w)"
    by simp_all
qed

lemma start_accepting_reaches: "start_accepting p bound w = Inr w' \<Longrightarrow> reaches env w w'"
  using reaches_step [of "StartAccepting p bound"] by simp

lemma disconnectPeers_reaches: "reaches env w (disconnectPeers w)"
  using reaches_step [of DownloadDone] by simp

lemma download_loop_effect:
  "download_loop env lib n ks tr w = Inr (left, tr', w') \<Longrightarrow>
   reaches env w w' \<and> myPort tr' = myPort tr \<and> acceptor (tor w') = acceptor (tor w) \<and> (left \<longrightarrow> completedPieces (tor w') = n)"
proof (induction ks arbitrary: tr w)
  case (Cons k ks)
  obtain w1 where w1: "run_handlers env (before k) w = Inr w1"
    using Cons.prems by auto
  show ?case
  proof (cases "completedPieces (tor w1) = n")
    case True
    with w1 Cons.prems show ?thesis
      using run_handlers_reaches run_handlers_acceptor by auto
  next
    case False
    then obtain ok tr2 w2 where "(if isNextRequestDue (clock k) tr then query_main env lib EV_NONE k tr w1
        else Inr (True, tr, w1)) = Inr (ok, tr2, w2)" and l: "download_loop env lib n ks tr2 w2 = Inr (left, tr', w')"
      using Cons.prems w1 by auto
    then have "reaches env w1 w2" "myPort tr2 = myPort tr" "acceptor (tor w2) = acceptor (tor w1)"
      using query_main_effect by (auto split: if_splits)
    then show ?thesis
      using run_handlers_reaches [OF w1] run_handlers_acceptor [OF w1] Cons.IH [OF l] reaches_trans by metis
  qed
qed auto

lemma seed_loop_effect:
  "seed_loop env lib ks tr w = Inr (tr', w') \<Longrightarrow>
   reaches env w w' \<and> myPort tr' = myPort tr \<and> acceptor (tor w') = acceptor (tor w)"
proof (induction ks arbitrary: tr w)
  case (Cons k ks)
  obtain w1 ok tr2 w2 where w1: "run_handlers env (before k) w = Inr w1"
    and q: "(if isNextRequestDue (clock k) tr then query_main env lib EV_COMPLETED k tr w1
        else Inr (True, tr, w1)) = Inr (ok, tr2, w2)" and l: "seed_loop env lib ks tr2 w2 = Inr (tr', w')"
    using Cons.prems by auto
  have "reaches env w1 w2" "myPort tr2 = myPort tr" "acceptor (tor w2) = acceptor (tor w1)"
    using q query_main_effect by (auto split: if_splits)
  then show ?case
    using run_handlers_reaches [OF w1] run_handlers_acceptor [OF w1] Cons.IH [OF l] reaches_trans by metis
qed auto

section \<open>What the main thread achieves\<close>

lemma client_run_reaches:
  "client_run env lib fs dir md es w \<Longrightarrow> reaches env w w' \<Longrightarrow> \<exists>es'. client_run env lib fs dir md es' w'"
  unfolding client_run_def reaches_def by (metis run_append)

text \<open>What is complete stays complete.\<close>

lemma complete_stays:
  assumes "swarm_inv env w" "isFullyDownloaded (tor w)" "reaches env w w'"
  shows "isFullyDownloaded (tor w')"
proof -
  obtain es where r: "run (swarm_step env) w es w'"
    using assms(3) by (auto simp: reaches_def)
  have p: "progressed (tor w) (tor w')"
    by (rule prog.run_keeps [OF r progressed_refl])
  then have l: "length (pieces (tor w')) = length (pieces (tor w))"
    unfolding progressed_def by (metis length_map)
  have inv: "marks_ok (tor w)" "marks_ok (tor w')"
    using client_invD(4) [OF swarm_invD(1)] assms(1) sw.run_keeps [OF r assms(1)] by blast+
  have "\<forall>i < length (pieces (tor w)). finished (pieces (tor w) ! i)"
    using isFullyDownloaded_iff [OF inv(1)] assms(2) by blast
  then show ?thesis
    using p l by (simp add: isFullyDownloaded_iff [OF inv(2)] progressed_def)
qed

lemma completed_disconnect [simp]: "completedPieces (tor (disconnectPeers w)) = completedPieces (tor w)"
  by (simp add: disconnectPeers_def Let_def fold_disconnect acceptor_stop_def)

lemma disconnect_core:
  "contents (disk (disconnectPeers w)) = contents (disk w)" "full_length (disconnectPeers w) = full_length w"
proof -
  have "core (if acceptor (tor w) = None then w else upd_tor acceptor_stop w) = core w"
    by (rule core_eqI) (simp_all add: acceptor_stop_def)
  then have "core (disconnectPeers w) = core w"
    by (simp add: disconnectPeers_def Let_def core_simps)
  then show "contents (disk (disconnectPeers w)) = contents (disk w)" "full_length (disconnectPeers w) = full_length w"
    by (simp_all add: core_def full_length_def piece_len_def piece_end_def piece_begin_def)
qed

text \<open>
  The ways through \<open>download\<close>: the tracker fails, the loop is still running, or it was left, with all
  pieces counted, and the closing query has been made.
\<close>

lemma download_cases:
  assumes "download env lib bound first ks final p seedAfter mt w = Inr (r, mt', w')"
  obtains (failed) "r = Some TRACKER_QUERY_FAILURE" "find_tracker env lib p first w = Inr (None, w')" "mt' = mt"
  | (running) tr w1 w2 tr2 where "r = None" "find_tracker env lib p first w = Inr (Some tr, w1)"
      "start_accepting p (bound p) w1 = Inr w2" "mt' = Some tr2"
      "download_loop env lib (length (pieces (tor w))) ks tr w2 = Inr (False, tr2, w')"
  | (finished) tr w1 w2 tr2 w3 ok tr3 where "r = Some COMPLETED" "find_tracker env lib p first w = Inr (Some tr, w1)"
      "start_accepting p (bound p) w1 = Inr w2" "mt' = Some tr3"
      "download_loop env lib (length (pieces (tor w))) ks tr w2 = Inr (True, tr2, w3)"
      "query_main env lib EV_COMPLETED final tr2 (if seedAfter then w3 else disconnectPeers w3) = Inr (ok, tr3, w')"
proof -
  obtain found w1 where f: "find_tracker env lib p first w = Inr (found, w1)"
    using assms by (auto simp: download_def Let_def)
  show ?thesis
  proof (cases found)
    case None
    with f assms show ?thesis
      by (intro failed) (auto simp: download_def Let_def)
  next
    case (Some tr)
    with f assms obtain w2 left tr2 w3 where l: "start_accepting p (bound p) w1 = Inr w2"
        "download_loop env lib (length (pieces (tor w))) ks tr w2 = Inr (left, tr2, w3)"
      by (auto simp: download_def Let_def split: if_splits)
    show ?thesis
    proof (cases left)
      case False
      with f Some l assms show ?thesis
        by (intro running) (auto simp: download_def Let_def split: if_splits)
    next
      case True
      then have c: "completedPieces (tor w3) = length (pieces (tor w))"
        using download_loop_effect [OF l(2)] by simp
      let ?w4 = "if seedAfter then w3 else disconnectPeers w3"
      obtain ok tr3 where "query_main env lib EV_COMPLETED final tr2 ?w4 = Inr (ok, tr3, w')" "mt' = Some tr3"
          "r = Some COMPLETED"
        using f Some l True c assms by (cases seedAfter) (auto simp: download_def Let_def split: if_splits)
      with f Some l True show ?thesis
        by (intro finished) simp_all
    qed
  qed
qed

lemma start_accepting_effect:
  "start_accepting p bound w = Inr w' \<Longrightarrow> w' = upd_tor (listen p) w"
  by (auto simp: start_accepting_run split: if_splits)

lemma acceptor_disconnectPeers: "acceptor (tor (disconnectPeers w)) = map_option (\<lambda>a. a\<lparr>started := False\<rparr>) (acceptor (tor w))"
  by (simp add: disconnectPeers_def Let_def fold_disconnect acceptor_stop_def)

lemma download_effect:
  assumes "download env lib bound first ks final p seedAfter mt w = Inr (r, mt', w')"
  shows "reaches env w w'" "r \<noteq> Some NETWORK_ERROR"
    and "r \<noteq> Some TRACKER_QUERY_FAILURE \<Longrightarrow> \<exists>tr. mt' = Some tr \<and> myPort tr = p"
    and "swarm_inv env w \<Longrightarrow> r = Some COMPLETED \<Longrightarrow> isFullyDownloaded (tor w')"
    and "r \<noteq> Some TRACKER_QUERY_FAILURE \<Longrightarrow> acceptor (tor w') =
      Some \<lparr>local_port = (case acceptor (tor w) of None \<Rightarrow> p | Some a \<Rightarrow> local_port a), started = (r = None \<or> seedAfter)\<rparr>"
    and "r = Some TRACKER_QUERY_FAILURE \<Longrightarrow> mt' = mt \<and> acceptor (tor w') = acceptor (tor w)"
    and "r = Some TRACKER_QUERY_FAILURE \<longleftrightarrow> (\<exists>w1. find_tracker env lib p first w = Inr (None, w1))"
proof -
  let ?a = "\<lambda>s. Some \<lparr>local_port = (case acceptor (tor w) of None \<Rightarrow> p | Some a \<Rightarrow> local_port a), started = s\<rparr>"
  have "reaches env w w' \<and> r \<noteq> Some NETWORK_ERROR
    \<and> (r \<noteq> Some TRACKER_QUERY_FAILURE \<longrightarrow> (\<exists>tr. mt' = Some tr \<and> myPort tr = p) \<and> acceptor (tor w') = ?a (r = None \<or> seedAfter))
    \<and> (swarm_inv env w \<and> r = Some COMPLETED \<longrightarrow> isFullyDownloaded (tor w'))
    \<and> (r = Some TRACKER_QUERY_FAILURE \<longrightarrow> mt' = mt \<and> acceptor (tor w') = acceptor (tor w))
    \<and> (r = Some TRACKER_QUERY_FAILURE \<longleftrightarrow> (\<exists>w1. find_tracker env lib p first w = Inr (None, w1)))"
    using assms
  proof (cases rule: download_cases)
    case failed
    then show ?thesis
      using find_tracker_effect(1, 3) by auto
  next
    case (running tr w1 w2 tr2)
    have "reaches env w w2"
      using find_tracker_effect(1) [OF running(2)] start_accepting_reaches [OF running(3)] by (rule reaches_trans)
    then have "reaches env w w'"
      using download_loop_effect [OF running(5)] reaches_trans by blast
    moreover have "acceptor (tor w') = ?a True"
      using find_tracker_effect(3) [OF running(2)] start_accepting_effect [OF running(3)] download_loop_effect [OF running(5)]
      by simp
    ultimately show ?thesis
      using running find_tracker_effect(2) [OF running(2)] download_loop_effect [OF running(5)] by simp
  next
    case (finished tr w1 w2 tr2 w3 ok tr3)
    let ?w4 = "if seedAfter then w3 else disconnectPeers w3"
    have "reaches env w w2"
      using find_tracker_effect(1) [OF finished(2)] start_accepting_reaches [OF finished(3)] by (rule reaches_trans)
    then have r3: "reaches env w w3"
      using download_loop_effect [OF finished(5)] reaches_trans by blast
    have "reaches env w3 ?w4"
      by (simp add: disconnectPeers_reaches)
    then have r4: "reaches env w3 w'"
      using query_main_effect(1) [OF finished(6)] by (rule reaches_trans)
    have "acceptor (tor w3) = ?a True"
      using find_tracker_effect(3) [OF finished(2)] start_accepting_effect [OF finished(3)] download_loop_effect [OF finished(5)]
      by simp
    then have "acceptor (tor w') = ?a seedAfter"
      using query_main_effect(3) [OF finished(6)] by (cases seedAfter) (simp_all add: acceptor_disconnectPeers)
    moreover have "isFullyDownloaded (tor w')" if inv: "swarm_inv env w"
    proof -
      obtain es where es: "run (swarm_step env) w es w3"
        using r3 by (auto simp: reaches_def)
      have "length (pieces (tor w3)) = length (pieces (tor w))"
        using prog.run_keeps [OF es progressed_refl] unfolding progressed_def by (metis length_map)
      then have "isFullyDownloaded (tor w3)"
        using download_loop_effect [OF finished(5)] by (simp add: isFullyDownloaded_def)
      then show ?thesis
        using complete_stays [OF sw.run_keeps [OF es inv] _ r4] by blast
    qed
    ultimately show ?thesis
      using finished find_tracker_effect(2) [OF finished(2)] download_loop_effect [OF finished(5)]
        query_main_effect(2) [OF finished(6)] reaches_trans [OF r3 r4] by simp
  qed
  then show "reaches env w w'" "r \<noteq> Some NETWORK_ERROR"
    and "r \<noteq> Some TRACKER_QUERY_FAILURE \<Longrightarrow> \<exists>tr. mt' = Some tr \<and> myPort tr = p"
    and "swarm_inv env w \<Longrightarrow> r = Some COMPLETED \<Longrightarrow> isFullyDownloaded (tor w')"
    and "r \<noteq> Some TRACKER_QUERY_FAILURE \<Longrightarrow> acceptor (tor w') = ?a (r = None \<or> seedAfter)"
    and "r = Some TRACKER_QUERY_FAILURE \<Longrightarrow> mt' = mt \<and> acceptor (tor w') = acceptor (tor w)"
    and "r = Some TRACKER_QUERY_FAILURE \<longleftrightarrow> (\<exists>w1. find_tracker env lib p first w = Inr (None, w1))"
    by blast+
qed

lemma seed_effect:
  assumes "seed env lib first ks p mt w = Inr (returned, mt', w')"
  shows "reaches env w w'" "\<not> returned \<Longrightarrow> \<exists>tr. mt' = Some tr \<and> myPort tr = p"
    "acceptor (tor w) = Some a \<Longrightarrow> started a \<Longrightarrow> acceptor (tor w') = Some a"
proof -
  obtain found w1 where f: "find_tracker env lib p first w = Inr (found, w1)"
    using assms by (auto simp: seed_def)
  have "reaches env w w' \<and> (\<not> returned \<longrightarrow> (\<exists>tr. mt' = Some tr \<and> myPort tr = p)) \<and>
    (acceptor (tor w) = Some a \<and> started a \<longrightarrow> acceptor (tor w') = Some a)"
  proof (cases found)
    case None
    with f assms show ?thesis
      using find_tracker_effect(1, 3) [OF f] by (auto simp: seed_def)
  next
    case (Some tr)
    with f assms obtain started w2 tr2 where s: "acceptor_isStarted (tor w1) = Inr started"
        "(if started then Inr w1 else bind_res (initiateAsyncAcceptLoop (tor w1)) (\<lambda>t. Inr (upd_tor (\<lambda>_. t) w1))) = Inr w2"
        "seed_loop env lib ks tr w2 = Inr (tr2, w')" "mt' = Some tr2"
      by (auto simp: seed_def)
    have "start_accepting p True w1 = Inr w2" if "\<not> started"
      using s(1, 2) that by (auto simp: start_accepting_def acceptor_isStarted_def split: option.splits)
    then have "reaches env w1 w2"
      using s(2) start_accepting_reaches by (cases started) auto
    moreover have "w2 = w1" if "acceptor (tor w1) = Some a" "acceptor_rec.started a"
      using s(1, 2) that by (simp add: acceptor_isStarted_def)
    ultimately show ?thesis
      using find_tracker_effect [OF f] Some seed_loop_effect [OF s(3)] s(4) reaches_trans by metis
  qed
  then show "reaches env w w'" "\<not> returned \<Longrightarrow> \<exists>tr. mt' = Some tr \<and> myPort tr = p"
    "acceptor (tor w) = Some a \<Longrightarrow> started a \<Longrightarrow> acceptor (tor w') = Some a"
    by simp_all
qed


text \<open>A download from a given peer that returns has all pieces on the disk.\<close>

lemma wait_loop_effect:
  "wait_loop env n ess w = Inr (left, w') \<Longrightarrow> reaches env w w' \<and> (left \<longrightarrow> completedPieces (tor w') = n)"
proof (induction ess arbitrary: w)
  case (Cons es ess)
  obtain w1 where w1: "run_handlers env es w = Inr w1"
    using Cons.prems by auto
  with Cons show ?case
    using run_handlers_reaches [OF w1] reaches_trans by (auto split: if_splits)
qed auto

lemma customDownload_complete:
  assumes "swarm_inv env w" "customDownload env ess ip prt w = Inr (True, w')" "full_length w'"
  shows "isFullyDownloaded (tor w')"
    "\<exists>ds. take (unat (totalSize (tor w))) (contents (disk w')) = concat ds \<and> map (digest_bytes env) ds = map hash (pieces (tor w))"
proof -
  let ?pid = "nextPeer w"
  define w1 where "w1 = make_peer new_connection w"
  define w2 where "w2 = peer_connect ip prt ?pid (upd_tor (blacklist (getRawIp w1 ?pid)) w1)"
  have "swarm_inv env (upd_tor (blacklist (getRawIp w1 ?pid)) w1)"
    unfolding w1_def by (intro blacklist_inv make_peer_inv [OF assms(1)] new_connection_inv)
  then have inv2: "swarm_inv env w2"
    unfolding w2_def by (rule peer_connect_inv) (simp add: w1_def make_peer_def new_peer_def)
  have t2: "pieces (tor w2) = pieces (tor w)" "totalSize (tor w2) = totalSize (tor w)"
    by (simp_all add: w2_def w1_def make_peer_def blacklist_def peer_connect_def)
  obtain w3 where w3: "wait_loop env (length (pieces (tor w))) ess w2 = Inr (True, w3)"
    and w': "w' = peer_disconnect ?pid (if fp (tfile (tor w3)) then upd_tor (\<lambda>t. t\<lparr>tfile := (tfile t)\<lparr>fp := False\<rparr>\<rparr>) w3 else w3)"
    using assms(2) by (auto simp: customDownload_def Let_def w2_def w1_def split: if_splits)
  obtain es where es: "run (swarm_step env) w2 es w3"
    using wait_loop_effect [OF w3] by (auto simp: reaches_def)
  have inv3: "swarm_inv env w3"
    by (rule sw.run_keeps [OF es inv2])
  have "progressed (tor w2) (tor w3)"
    by (rule prog.run_keeps [OF es progressed_refl])
  then have t3: "map hash (pieces (tor w3)) = map hash (pieces (tor w))" "totalSize (tor w3) = totalSize (tor w)"
    by (simp_all add: progressed_def fixed_def t2)
  have full: "isFullyDownloaded (tor w3)"
    using wait_loop_effect [OF w3] arg_cong [OF t3(1), of length] by (simp add: isFullyDownloaded_def)
  have same: "contents (disk w') = contents (disk w3)" "full_length w' = full_length w3" "isFullyDownloaded (tor w') = isFullyDownloaded (tor w3)"
    by (simp_all add: w' full_length_def isFullyDownloaded_def piece_len_def piece_end_def piece_begin_def)
  then show "isFullyDownloaded (tor w')"
    using full by simp
  have "full_length w3"
    using assms(3) same(2) by simp
  from full_file(1, 2) [OF client_invD(1) [OF swarm_invD(1) [OF inv3]] this full]
  show "\<exists>ds. take (unat (totalSize (tor w))) (contents (disk w')) = concat ds \<and> map (digest_bytes env) ds = map hash (pieces (tor w))"
    using t3 same(1) by auto
qed

section \<open>A download that succeeds\<close>

lemma run_split: "run stp s (xs @ ys) s' \<Longrightarrow> \<exists>v. run stp s xs v \<and> run stp v ys s'"
proof (induction ys arbitrary: s' rule: rev_induct)
  case Nil
  then show ?case
    by (auto intro: run_nil)
next
  case (snoc y ys)
  then obtain u where u: "run stp s (xs @ ys) u" "stp u y s'"
    by (auto elim: run.cases)
  then show ?case
    using snoc.IH [OF u(1)] run_snoc by metis
qed

lemma run_handlers_append: "run_handlers env (xs @ ys) w = bind_res (run_handlers env xs w) (run_handlers env ys)"
proof (induction xs arbitrary: w)
  case (Cons x xs)
  then have "run_handlers env (xs @ ys) = (\<lambda>v. bind_res (run_handlers env xs v) (run_handlers env ys))"
    by (intro ext)
  then show ?case
    by (simp add: bind_res_assoc)
qed simp

lemma run_run_handlers:
  "run stp s es s' \<Longrightarrow> stp = swarm_step env \<Longrightarrow> \<forall>e \<in> set es. handler_event e \<Longrightarrow> run_handlers env es s = Inr s'"
  by (induction rule: run.induct) (auto simp: run_handlers_append swarm_step_iff)

lemma dialled_events_handlers: "\<forall>e \<in> set (dialled_events pid t file ord a reserved i). handler_event e"
  by (auto simp: dialled_events_def sharing_events_def message_events_def file_events_def block_events_def)

text \<open>
  A tracker that can be reached and answers every request, with no handler running meanwhile, with the
  peers \<open>es\<close> and an interval of \<open>n\<close> milliseconds, which the clock can hold.
\<close>

definition tracker_up :: "bencoding \<Rightarrow> UrlMeta \<Rightarrow> (u32 \<times> u16) list \<Rightarrow> int \<Rightarrow> 'a exchange_scheme \<Rightarrow> bool" where
  "tracker_up lib um es n x \<longleftrightarrow>
     (\<exists>e eps. resolve (network x) (host um) (port um) = Some (e # eps) \<and> connects (network x) e) \<and> write_ok (network x) \<and>
     (\<forall>rq. \<exists>body m p i. answers (answer (network x) rq) body \<and> decode lib body = Some (BDictionary m) \<and>
        map_of m ''peers'' = Some (BString p) \<and> to_bytes p = compact es \<and> map_of m ''interval'' = Some (BInteger i) \<and>
        sint i = n) \<and>
     fits_int64 (n * 1000000) \<and> fits_int64 (answered x + n * 1000000) \<and> meanwhile x = []"

lemma tracker_up_query:
  assumes "tracker_up lib (urlMeta tr) es n x" "peers_known w"
  shows "tracker_query lib (network x) (answered x) q tr w = Inr (True, tr\<lparr>timeToNextRequest := answered x + n * 1000000\<rparr>,
    if event q = EV_NONE \<or> event q = EV_STARTED then fold dial (fresh_addresses (known_ips w) es) w else w)"
proof -
  obtain e eps body m p i where t: "resolve (network x) (host (urlMeta tr)) (port (urlMeta tr)) = Some (e # eps)"
      "connects (network x) e" "write_ok (network x)"
      "answers (answer (network x) (request_text q tr (tor w))) body" "decode lib body = Some (BDictionary m)"
      "map_of m ''peers'' = Some (BString p)" "to_bytes p = compact es" "map_of m ''interval'' = Some (BInteger i)" "sint i = n"
      "fits_int64 (n * 1000000)" "fits_int64 (answered x + n * 1000000)"
    using assms(1) unfolding tracker_up_def by meson
  have "length p = 6 * length es"
    using arg_cong [OF t(7), of length] by (simp add: to_bytes_def)
  then have "connectToPeers (to_bytes p @ [0]) (length p) w = Inr (fold dial (fresh_addresses (known_ips w) es) w)"
    using connect_compact [OF assms(2), of es] t(7) by simp
  then show ?thesis
    using t(1-3, 9-11) answers_response [OF t(4)] handle_body_run [OF t(5, 6, 8), of "answered x" q tr w]
    by (auto simp: tracker_query_def httpRequest_def Let_def add_milliseconds_def)
qed

lemma buildTrackerQuery_total: "wf_sizes t \<Longrightarrow> \<exists>q. buildTrackerQuery ev t = Inr q"
  using query_loop_sum [of t 0 "pieces t"] by (simp add: buildTrackerQuery_def finished_bytes_def)

lemma buildTrackerQuery_event: "buildTrackerQuery ev t = Inr q \<Longrightarrow> event q = ev"
  by (auto simp: buildTrackerQuery_def)

text \<open>The closing query, whose answer is not used, and the first one.\<close>

lemma closing_query_up:
  assumes "tracker_up lib (urlMeta tr) es n x" "peers_known w" "\<exists>q. buildTrackerQuery EV_COMPLETED (tor w) = Inr q"
  shows "query_main env lib EV_COMPLETED x tr w = Inr (True, tr\<lparr>timeToNextRequest := answered x + n * 1000000\<rparr>, w)"
proof -
  obtain q where q: "buildTrackerQuery EV_COMPLETED (tor w) = Inr q"
    using assms(3) by blast
  have "run_handlers env (meanwhile x) w = Inr w"
    using assms(1) by (simp add: tracker_up_def)
  then show ?thesis
    using q buildTrackerQuery_event [OF q] tracker_up_query [OF assms(1, 2), of q] by (simp add: query_main_def)
qed

lemma find_tracker_up:
  assumes "tracker_up lib um es n x" "um = parseTrackerUrl (mainTrackerUrl (tor w))" "host um \<noteq> []" "peers_known w"
    and "\<exists>q. buildTrackerQuery EV_STARTED (tor w) = Inr q"
  shows "find_tracker env lib p x w = Inr (Some ((new_tracker p um)\<lparr>timeToNextRequest := answered x + n * 1000000\<rparr>),
    fold dial (fresh_addresses (known_ips w) es) w)"
proof -
  have "run_handlers env (meanwhile x) w = Inr w"
    using assms(1) by (simp add: tracker_up_def)
  moreover obtain q where q: "buildTrackerQuery EV_STARTED (tor w) = Inr q"
    using assms(5) by blast
  moreover have "tracker_query lib (network x) (answered x) q (new_tracker p um) w =
      Inr (True, (new_tracker p um)\<lparr>timeToNextRequest := answered x + n * 1000000\<rparr>,
        fold dial (fresh_addresses (known_ips w) es) w)"
    using tracker_up_query [of lib "new_tracker p um" es n x w q] assms(1, 4) buildTrackerQuery_event [OF q]
    by (auto simp: new_tracker_def)
  ultimately show ?thesis
    using assms(2, 3) by (simp add: find_tracker_def validateTracker_def Let_def)
qed

lemma client_run_append:
  "client_run env lib fs dir md es v \<Longrightarrow> run (swarm_step env) v ys w \<Longrightarrow> client_run env lib fs dir md (es @ ys) w"
  unfolding client_run_def by (blast intro: run_append)

text \<open>A file that is complete is not touched any more.\<close>

lemma complete_file_stays:
  assumes v: "client_run env lib fs dir md es v" "isFullyDownloaded (tor v)" and r: "run (swarm_step env) v ys w" "full_length w"
  shows "full_length v" "contents (disk v) = contents (disk w)"
proof -
  let ?n = "length (pieces (tor v))"
  have w: "client_run env lib fs dir md (es @ ys) w"
    by (rule client_run_append [OF v(1) r(1)])
  have s: "same_sizes (tor w) (tor v)"
    using client_run_fixed [OF v(1)] client_run_fixed [OF w] by (simp add: same_sizes_def)
  note sv = client_invD(1) [OF swarm_invD(1) [OF client_run_inv [OF v(1)]]]
    and sw = client_invD(1) [OF swarm_invD(1) [OF client_run_inv [OF w]]]
  have "\<forall>i < ?n. finished (pieces (tor v) ! i)"
    using v(2) isFullyDownloaded_iff [OF store_invD(2) [OF sv]] by blast
  then have all: "fst ` set (accepted v) = {..<?n}"
    using store_invD(3) [OF sv] by (auto simp: accepted_ok_def finished_set_def)
  obtain zs where z: "accepted w = accepted v @ zs"
    using grow_run.run_keeps [OF r(1), of "accepted v"] by (auto simp: grown_def)
  have "distinct (map fst (accepted w))" "fst ` set (accepted w) = finished_set (pieces (tor w))"
    using store_invD(3) [OF sw] by (simp_all add: accepted_ok_def)
  then have "fst ` set zs \<subseteq> {..<?n}" "fst ` set zs \<inter> {..<?n} = {}"
    using z all same_sizesD(1) [OF s] by (auto simp: finished_set_def)
  then have "fst ` set zs = {}"
    by (metis Int_absorb2)
  then have a: "accepted w = accepted v"
    using z by simp
  then show full: "full_length v"
    using r(2) same_sizesD [OF s] by (simp add: full_length_def)
  have "part (tor v) (contents (disk v)) i = part (tor v) (contents (disk w)) i" if "i < ?n" for i
  proof -
    have "i \<in> fst ` set (accepted v)"
      using that unfolding all by simp
    then obtain d where d: "(i, d) \<in> set (accepted v)"
      by auto
    then have "on_disk (tor v) (contents (disk v)) i d" "on_disk (tor w) (contents (disk w)) i d"
      using store_invD(4) [OF sv full] store_invD(4) [OF sw r(2)] a by (auto simp: data_ok_def)
    then show ?thesis
      using part_same [OF s] by (simp add: on_disk_def part_def)
  qed
  then have "map (part (tor v) (contents (disk v))) [0..<?n] = map (part (tor v) (contents (disk w))) [0..<?n]"
    by simp
  then have "take (unat (m_total md)) (contents (disk v)) = take (unat (m_total md)) (contents (disk w))"
    using concat_all_parts [OF geometryD(1) [OF store_invD(1) [OF sv]]] client_run_fixed(3) [OF v(1)] by metis
  then show "contents (disk v) = contents (disk w)"
    using client_run_tail [OF v(1) full] client_run_tail [OF w r(2)] by (metis append_take_drop_id)
qed

text \<open>
  The loop while nothing else happens: the events \<open>concat (map before ks)\<close>, which complete the download, are
  spread over the ticks in any way, and no request falls due.  The loop is left after some of them.
\<close>

lemma download_loop_leaves:
  assumes "run (swarm_step env) w (concat (map before ks)) w'" "\<forall>e \<in> set (concat (map before ks)). handler_event e"
    and "completedPieces (tor w') = n" "ks \<noteq> []" "\<forall>k \<in> set ks. \<not> isNextRequestDue (clock k) tr"
  shows "\<exists>v xs ys. run (swarm_step env) w xs v \<and> run (swarm_step env) v ys w' \<and> completedPieces (tor v) = n \<and>
    download_loop env lib n (ks @ ks') tr w = Inr (True, tr, v)"
  using assms
proof (induction ks arbitrary: w)
  case (Cons k ks)
  obtain v where v: "run (swarm_step env) w (before k) v" "run (swarm_step env) v (concat (map before ks)) w'"
    using run_split [of "swarm_step env" w "before k" "concat (map before ks)" w'] Cons.prems(1) by auto
  have h: "run_handlers env (before k) w = Inr v"
    using run_run_handlers [OF v(1) refl] Cons.prems(2) by simp
  show ?case
  proof (cases "completedPieces (tor v) = n")
    case True
    with h v show ?thesis
      by (intro exI [of _ v] exI [of _ "before k"] exI [of _ "concat (map before ks)"]) simp
  next
    case False
    have "ks \<noteq> []"
    proof
      assume "ks = []"
      then have "w' = v"
        using v(2) by (auto elim: run.cases)
      with False Cons.prems(3) show False
        by simp
    qed
    then obtain u xs ys where u: "run (swarm_step env) v xs u" "run (swarm_step env) u ys w'" "completedPieces (tor u) = n"
        "download_loop env lib n (ks @ ks') tr v = Inr (True, tr, u)"
      using Cons.IH [OF v(2)] Cons.prems(2, 3, 5) by auto
    from run_append [OF v(1) u(1)] u(2-4) h False Cons.prems(5) show ?thesis
      by (intro exI [of _ u] exI [of _ "before k @ xs"] exI [of _ ys]) simp
  qed
qed simp

lemma download_succeeds:
  assumes d: "describes lib fs md" "sizes_consistent md" "parseFile env lib fs dir Torrent = Inr (SUCCESS, t, d)"
    and f: "file_of env t file" "block_orders t ord" "\<And>s d. length d \<le> fwrite_count env s d"
    and len: "length reserved = 8" "length i = 20" and pid: "pid < length (fresh_addresses {} es)"
    and um: "um = parseTrackerUrl (m_url md)" "host um \<noteq> []" "tracker_up lib um es n first" "tracker_up lib um es' n' final"
    and "bound p" and ks: "concat (map before ks) = dialled_events pid t file ord a reserved i"
      "\<forall>k \<in> set ks. clock k < answered first + n * 1000000"
  shows "\<exists>tr w es. download env lib bound first (ks @ ks') final p seedAfter mt (start_world t d) = Inr (Some COMPLETED, Some tr, w)
    \<and> contents (disk w) = file @ drop (length file) (contents d) \<and> full_length w \<and> client_run env lib fs dir md es w"
proof -
  let ?s = "start_world t d" and ?v = "dialled_world p t d es"
  let ?u = "fold dial (fresh_addresses {} es) ?s" and ?N = "length (pieces (tor ?s))"
  let ?tr = "(new_tracker p um)\<lparr>timeToNextRequest := answered first + n * 1000000\<rparr>"
  note start = parsed_start [OF d]
  obtain es1 w where w: "run (swarm_step env) ?v (dialled_events pid t file ord a reserved i) w" "client_run env lib fs dir md es1 w"
      "isFullyDownloaded (tor w)" "contents (disk w) = file @ drop (length file) (contents d)" "full_length w"
    using dialled_download [OF d f len pid] by blast
  have inv: "swarm_inv env x" if "client_run env lib fs dir md es x" for es x
    by (rule client_run_inv [OF that])
  have query: "\<exists>q. buildTrackerQuery ev (tor x) = Inr q" if "client_run env lib fs dir md es x" for es x ev
    by (rule buildTrackerQuery_total [OF geometryD(1) [OF client_invD(3) [OF swarm_invD(1) [OF inv [OF that]]]]])
  have "mainTrackerUrl (tor ?s) = m_url md"
    using start(4) by (simp add: start_world_def)
  with find_tracker_up [OF um(3), of ?s env p] um(1, 2) query [OF start(5)] swarm_invD(3) [OF start(1)]
    known_ips_start [OF start(6, 7), of d] have tr: "find_tracker env lib p first ?s = Inr (Some ?tr, ?u)"
    by simp
  have v: "start_accepting p (bound p) ?u = Inr ?v" "client_run env lib fs dir md [TrackerPeers (compact es), StartAccepting p True] ?v"
    using d assms(14) dialled_run [OF start(6, 7)] by (auto simp: start_accepting_run dialled_world_def client_run_def)
  have len: "length (pieces (tor x)) = ?N" if "client_run env lib fs dir md es x" for es x
    using client_run_fixed(4) [OF that] client_run_fixed(4) [OF start(5)] by simp
  have "ks \<noteq> []"
    using ks(1) by (auto simp: dialled_events_def)
  moreover have "completedPieces (tor w) = ?N"
    using w(3) len [OF w(2)] by (simp add: isFullyDownloaded_def)
  moreover have "\<forall>k \<in> set ks. \<not> isNextRequestDue (clock k) ?tr"
    using ks(2) by (auto simp: isNextRequestDue_def)
  ultimately obtain x xs ys where x: "run (swarm_step env) ?v xs x" "run (swarm_step env) x ys w" "completedPieces (tor x) = ?N"
      "download_loop env lib ?N (ks @ ks') ?tr ?v = Inr (True, ?tr, x)"
    using download_loop_leaves [where ks = ks, OF _ _ _ _ , of env ?v w] w(1) dialled_events_handlers unfolding ks(1) by metis
  have cx: "client_run env lib fs dir md ([TrackerPeers (compact es), StartAccepting p True] @ xs) x"
    by (rule client_run_append [OF v(2) x(1)])
  note stays = complete_file_stays [OF cx _ x(2) w(5)]
  have fx: "isFullyDownloaded (tor x)"
    using x(3) len [OF cx] by (simp add: isFullyDownloaded_def)
  let ?w4 = "if seedAfter then x else disconnectPeers x"
  have "reaches env x ?w4"
    by (simp add: disconnectPeers_reaches)
  then obtain es2 where es2: "client_run env lib fs dir md es2 ?w4"
    using client_run_reaches [OF cx] by blast
  have q: "query_main env lib EV_COMPLETED final ?tr ?w4 = Inr (True, ?tr\<lparr>timeToNextRequest := answered final + n' * 1000000\<rparr>, ?w4)"
    using closing_query_up [of lib ?tr es' n' final ?w4 env] um(4) query [OF es2] swarm_invD(3) [OF inv [OF es2]]
    by (simp add: new_tracker_def)
  have dd: "contents (disk ?w4) = contents (disk x)" "full_length ?w4 = full_length x" "completedPieces (tor ?w4) = ?N"
    using disconnect_core x(3) by simp_all
  have "download env lib bound first (ks @ ks') final p seedAfter mt ?s =
      Inr (Some COMPLETED, Some (?tr\<lparr>timeToNextRequest := answered final + n' * 1000000\<rparr>), ?w4)"
    using tr v(1) x(4) dd(3) q by (simp add: download_def Let_def)
  with es2 w(4) stays [OF fx] dd(1, 2) show ?thesis
    by auto
qed

section \<open>The program\<close>

text \<open>What the program leaves behind of a world: itself, or the world without the torrent.\<close>

definition left_of :: "world \<Rightarrow> world \<Rightarrow> bool" where
  "left_of v w \<longleftrightarrow> w = v \<or> (\<exists>t. destroy_torrent (tor v) = Inr t \<and> w = upd_tor (\<lambda>_. t) v)"

lemma left_ofD:
  assumes "left_of v w"
  shows "disk w = disk v" "isFullyDownloaded (tor w) = isFullyDownloaded (tor v)" "full_length w = full_length v"
proof -
  obtain t where t: "destroy_torrent (tor v) = Inr t" "pieces t = pieces (tor v)" "completedPieces t = completedPieces (tor v)"
      "pieceLength t = pieceLength (tor v)" "totalSize t = totalSize (tor v)"
    using destroy_torrent_run [of "tor v"] by auto
  from t(2, 4, 5) have "piece_len t = piece_len (tor v)"
    by (intro same_sizesD) (simp add: same_sizes_def)
  with t assms show "disk w = disk v" "isFullyDownloaded (tor w) = isFullyDownloaded (tor v)" "full_length w = full_length v"
    by (auto simp: left_of_def isFullyDownloaded_def full_length_def)
qed

lemma shut_down_run:
  assumes "shut_down env late w = Inr w'"
  shows "\<exists>v. reaches env w v \<and> left_of v w'" "\<not> fp (tfile (tor w'))" "acceptor (tor w') = None"
proof -
  obtain v where v: "run_handlers env (fst late) w = Inr v"
    using assms by (auto simp: shut_down_def)
  then show "\<exists>v. reaches env w v \<and> left_of v w'" "\<not> fp (tfile (tor w'))" "acceptor (tor w') = None"
    using assms destroy_torrent_run [of "tor v"] run_handlers_reaches [OF v] by (auto simp: shut_down_def left_of_def)
qed

lemma shut_down_now: "\<exists>w'. shut_down env ([], gone) w = Inr w' \<and> left_of w w'"
  using destroy_torrent_run [of "tor w"] by (auto simp: shut_down_def left_of_def)

lemma after_download_effect:
  assumes "after_download env lib first' ks' late seeds p (r, mt1, w1) = Inr (ex, Some (mt, w))"
  shows "\<exists>v. reaches env w1 v \<and> left_of v w" "ex = Exit 0 \<or> ex = Seeding \<Longrightarrow> r = Some COMPLETED"
    and "ex = Downloading \<Longrightarrow> r = None \<and> mt = mt1 \<and> w = w1"
    and "ex = Seeding \<Longrightarrow> seeds \<and> (\<exists>tr. mt = Some tr \<and> myPort tr = p + 1) \<and>
      (\<forall>a. acceptor (tor w1) = Some a \<and> started a \<longrightarrow> acceptor (tor w) = Some a)"
    and "ex = Exit 0 \<Longrightarrow> \<not> fp (tfile (tor w)) \<and> acceptor (tor w) = None"
proof -
  have self: "\<exists>v. reaches env u v \<and> left_of v u" for u
    using reaches_refl by (auto simp: left_of_def)
  have "(\<exists>v. reaches env w1 v \<and> left_of v w) \<and> (ex = Exit 0 \<or> ex = Seeding \<longrightarrow> r = Some COMPLETED) \<and>
    (ex = Downloading \<longrightarrow> r = None \<and> mt = mt1 \<and> w = w1) \<and>
    (ex = Seeding \<longrightarrow> seeds \<and> (\<exists>tr. mt = Some tr \<and> myPort tr = p + 1) \<and>
      (\<forall>a. acceptor (tor w1) = Some a \<and> started a \<longrightarrow> acceptor (tor w) = Some a)) \<and>
    (ex = Exit 0 \<longrightarrow> \<not> fp (tfile (tor w)) \<and> acceptor (tor w) = None)"
  proof (cases "r = Some COMPLETED \<and> seeds")
    case True
    then obtain returned mt' w' where s: "seed env lib first' ks' (p + 1) mt1 w1 = Inr (returned, mt', w')"
        "if returned then shut_down env late w' = Inr w \<and> ex = Exit 0 \<and> mt = mt' else w = w' \<and> ex = Seeding \<and> mt = mt'"
      using assms by (auto simp: after_download_def split: if_splits)
    note sd = seed_effect [OF s(1)]
    show ?thesis
    proof (cases returned)
      case False
      with s(2) sd True show ?thesis
        by (auto simp: left_of_def)
    next
      case ret: True
      then have e: "shut_down env late w' = Inr w" "ex = Exit 0" "mt = mt'"
        using s(2) by simp_all
      from shut_down_run [OF e(1)] sd(1) e True show ?thesis
        by (auto intro: reaches_trans)
    qed
  next
    case False
    show ?thesis
    proof (cases r)
      case None
      then show ?thesis
        using assms self [of w1] by (simp add: after_download_def)
    next
      case (Some e)
      with False assms have "shut_down env late w1 = Inr w" "ex = (if e = COMPLETED then Exit 0 else Exit 1)"
        by (auto simp: after_download_def split: if_splits)
      with shut_down_run Some show ?thesis
        by auto
    qed
  qed
  then show "\<exists>v. reaches env w1 v \<and> left_of v w" "ex = Exit 0 \<or> ex = Seeding \<Longrightarrow> r = Some COMPLETED"
    and "ex = Downloading \<Longrightarrow> r = None \<and> mt = mt1 \<and> w = w1"
    and "ex = Seeding \<Longrightarrow> seeds \<and> (\<exists>tr. mt = Some tr \<and> myPort tr = p + 1) \<and>
      (\<forall>a. acceptor (tor w1) = Some a \<and> started a \<longrightarrow> acceptor (tor w) = Some a)"
    and "ex = Exit 0 \<Longrightarrow> \<not> fp (tfile (tor w)) \<and> acceptor (tor w) = None"
    by simp_all
qed

lemma main_run:
  assumes "main env lib files bound first ks final first' ks' late opts = Inr (ex, Some (mt, w))" "torrent_opt opts = Some fn"
  obtains dir t d r mt1 w1 where "parseFile env lib (files fn) dir Torrent = Inr (SUCCESS, t, d)"
    "download env lib bound first ks final (startport opts) (seed_opt opts) None (start_world t d) = Inr (r, mt1, w1)"
    "after_download env lib first' ks' late (seed_opt opts) (startport opts) (r, mt1, w1) = Inr (ex, Some (mt, w))"
proof -
  let ?dir = "case dir_opt opts of None \<Rightarrow> ''Torrents'' | Some d \<Rightarrow> d"
  note main = assms(1) [unfolded main_def Let_def assms(2) option.case]
  then obtain t d where t: "parseFile env lib (files fn) ?dir Torrent = Inr (SUCCESS, t, d)"
    by (auto split: if_splits)
  then obtain r mt1 w1 where
    "download env lib bound first ks final (startport opts) (seed_opt opts) None (start_world t d) = Inr (r, mt1, w1)"
    "after_download env lib first' ks' late (seed_opt opts) (startport opts) (r, mt1, w1) = Inr (ex, Some (mt, w))"
    using main by (auto split: if_splits)
  with t show ?thesis
    by (rule that)
qed

text \<open>Whatever the program has come to, the world is what is left of one a client of the torrent file can reach.\<close>

lemma main_client_run:
  assumes "main env lib files bound first ks final first' ks' late opts = Inr (ex, Some (mt, w))" "torrent_opt opts = Some fn"
    and "describes lib (files fn) md" "sizes_consistent md"
  shows "\<exists>dir es v. client_run env lib (files fn) dir md es v \<and> left_of v w \<and> (ex = Exit 0 \<or> ex = Seeding \<longrightarrow> isFullyDownloaded (tor v))"
    and "ex = Exit 0 \<Longrightarrow> \<not> fp (tfile (tor w)) \<and> acceptor (tor w) = None"
proof -
  obtain dir t d r mt1 w1 where t: "parseFile env lib (files fn) dir Torrent = Inr (SUCCESS, t, d)"
    and l: "download env lib bound first ks final (startport opts) (seed_opt opts) None (start_world t d) = Inr (r, mt1, w1)"
    and e: "after_download env lib first' ks' late (seed_opt opts) (startport opts) (r, mt1, w1) = Inr (ex, Some (mt, w))"
    using assms(1, 2) by (rule main_run)
  have start: "client_run env lib (files fn) dir md [] (start_world t d)"
    using assms(3, 4) t by (auto simp: client_run_def intro: run_nil)
  obtain es where w1: "client_run env lib (files fn) dir md es w1"
    using client_run_reaches [OF start download_effect(1) [OF l]] by blast
  note after = after_download_effect [OF e]
  obtain v where v: "reaches env w1 v" "left_of v w"
    using after(1) by blast
  moreover obtain es' where "client_run env lib (files fn) dir md es' v"
    using client_run_reaches [OF w1 v(1)] by blast
  moreover have "isFullyDownloaded (tor v)" if "ex = Exit 0 \<or> ex = Seeding"
  proof -
    have "isFullyDownloaded (tor w1)"
      using download_effect(4) [OF l client_run_inv [OF start]] after(2) [OF that] by blast
    then show ?thesis
      using complete_stays [OF client_run_inv [OF w1] _ v(1)] by blast
  qed
  ultimately show "\<exists>dir es v. client_run env lib (files fn) dir md es v \<and> left_of v w \<and>
      (ex = Exit 0 \<or> ex = Seeding \<longrightarrow> isFullyDownloaded (tor v))"
    by blast
  show "ex = Exit 0 \<Longrightarrow> \<not> fp (tfile (tor w)) \<and> acceptor (tor w) = None"
    by (rule after(5))
qed

text \<open>Where a query can fail: nothing catches what \<open>httpRequest\<close> throws outside the two reads.\<close>

lemma try_connect_Inl: "try_connect ok eps = Inl f \<longleftrightarrow> eps = [] \<and> f = NullDeref"
  by (induction ok eps rule: try_connect.induct) auto

lemma connectToPeers_fault:
  assumes "swarm_inv env w" "connectToPeers (to_bytes p @ [0]) (length p) w = Inl f"
  shows "\<not> 6 dvd length p \<and> f = OutOfBounds"
  using connectToPeers_inv [OF assms(1), of "to_bytes p"] assms(2) by (auto simp: to_bytes_def split: if_splits)

lemma bind_res_total_Inl: "bind_res r (\<lambda>x. Inr (g x)) = Inl f \<longleftrightarrow> r = Inl f"
  by (cases r) simp_all

lemma handle_body_fault:
  assumes "swarm_inv env w" "handle_body lib now r body tr w = Inl f"
  shows "decode lib body = None \<and> f = Uncaught ''bencoding::DecodingError''
    \<or> decode lib body \<noteq> None \<and> f = NullDeref \<and>
      \<not> (\<exists>m p i. decode lib body = Some (BDictionary m) \<and> map_of m ''peers'' = Some (BString p) \<and>
           map_of m ''interval'' = Some (BInteger i))
    \<or> (\<exists>m p i. decode lib body = Some (BDictionary m) \<and> map_of m ''peers'' = Some (BString p) \<and>
         map_of m ''interval'' = Some (BInteger i) \<and>
         (\<not> (fits_int64 (sint i * 1000000) \<and> fits_int64 (now + sint i * 1000000)) \<and> f = SignedOverflow
          \<or> (event r = EV_NONE \<or> event r = EV_STARTED) \<and> \<not> 6 dvd length p \<and> f = OutOfBounds))"
proof (cases "\<exists>m p i. decode lib body = Some (BDictionary m) \<and> map_of m ''peers'' = Some (BString p) \<and>
    map_of m ''interval'' = Some (BInteger i)")
  case True
  then obtain m p i where b: "decode lib body = Some (BDictionary m)" "map_of m ''peers'' = Some (BString p)"
      "map_of m ''interval'' = Some (BInteger i)"
    by blast
  have "\<not> (fits_int64 (sint i * 1000000) \<and> fits_int64 (now + sint i * 1000000)) \<and> f = SignedOverflow
      \<or> (event r = EV_NONE \<or> event r = EV_STARTED) \<and> \<not> 6 dvd length p \<and> f = OutOfBounds"
    using assms(2) connectToPeers_fault [OF assms(1)] unfolding handle_body_run [OF b]
    by (auto simp: add_milliseconds_def Let_def bind_res_total_Inl split: if_splits)
  with b show ?thesis
    by blast
next
  case False
  then have "decode lib body = None \<and> f = Uncaught ''bencoding::DecodingError'' \<or> decode lib body \<noteq> None \<and> f = NullDeref"
    using assms(2)
    by (auto simp: handle_body_def decode_item_def as_dictionary_def as_string_def as_integer_def dict_at_def Let_def
        split: option.splits bitem.splits)
  with False show ?thesis
    by blast
qed

text \<open>The port in the text of a request, as a web server reads it.\<close>

definition announced_port :: "TrackerQuery \<Rightarrow> tracker \<Rightarrow> torrent \<Rightarrow> string option" where
  "announced_port r tr t = map_of (parse_query (query_text r tr t)) ''port''"

lemma announced_port: "announced_port r tr t = Some (to_string (unat (myPort tr)))"
  unfolding announced_port_def query_text_params by (simp add: event_params_def split: TrackerEvent.splits)

lemma parseFile_acceptor: "parseFile env lib fs dir t = Inr (r, t', d) \<Longrightarrow> acceptor t' = acceptor t"
  by (auto simp: parseFile_def open_download_run Let_def split: option.splits if_splits)

section \<open>Properties\<close>


text \<open>
  C4: a download returns.  The disk takes every write, the port can be bound, the tracker answers and names peers
  \<open>es\<close>, one of which, the one that is dialled as number \<open>pid\<close>, has the file and sends it, the blocks of a piece in
  any order.  The handlers of that peer, and no others, run during the ticks \<open>ks\<close> of the loop, spread over them in
  any way, and no regular request falls due meanwhile.  Then \<open>download\<close> leaves its loop in one of these ticks and
  returns success, and the download file is that file, followed by what a longer file that was there before had
  beyond this length.
\<close>

theorem honest_download_returns:
  assumes "describes lib fs md" "sizes_consistent md" "parseFile env lib fs dir Torrent = Inr (SUCCESS, t, d)"
    and "file_of env t file" "block_orders t ord" "\<And>s d. length d \<le> fwrite_count env s d"
    and "length reserved = 8" "length i = 20" "pid < length (fresh_addresses {} es)"
    and "um = parseTrackerUrl (m_url md)" "host um \<noteq> []" "tracker_up lib um es n first" "tracker_up lib um es' n' final"
    and "bound p" "concat (map before ks) = dialled_events pid t file ord a reserved i"
    and "\<forall>k \<in> set ks. clock k < answered first + n * 1000000"
  shows "\<exists>tr w. download env lib bound first (ks @ ks') final p seedAfter None (start_world t d) =
      Inr (Some COMPLETED, Some tr, w)
    \<and> contents (disk w) = file @ drop (length file) (contents d)"
  using download_succeeds [where bound = bound and p = p and ks' = ks' and seedAfter = seedAfter and mt = None, OF assms] by blast

text \<open>
  C5: the exit code.  When \<open>main\<close> returns zero after a download, or has got as far as seeding, the
  download file is the concatenation of pieces with the digests of the torrent file, of the length the
  torrent file says, followed only by what a longer file that was there before had beyond this length; the
  exception is a client that has accepted data of a wrong length with the right digest.  When \<open>main\<close> returns
  zero, the file is closed and nothing listens.
\<close>

theorem main_success_means_file:
  assumes "main env lib files bound first ks final first' ks' late opts = Inr (ex, Some (mt, w))" "ex = Exit 0 \<or> ex = Seeding"
    and "torrent_opt opts = Some fn" "describes lib (files fn) md" "sizes_consistent md"
    and "full_length w"
  shows "(\<exists>ds. contents (disk w) = concat ds @ drop (unat (m_total md)) (contents (opened (files fn)))
    \<and> map (digest_bytes env) ds = m_hashes md \<and> length (concat ds) = unat (m_total md))
    \<and> (ex = Exit 0 \<longrightarrow> \<not> fp (tfile (tor w)) \<and> acceptor (tor w) = None)"
proof -
  note main = main_client_run [OF assms(1, 3-5)]
  obtain dir es v where v: "client_run env lib (files fn) dir md es v" "left_of v w" "isFullyDownloaded (tor v)"
    using main(1) assms(2) by blast
  have "full_length v"
    using assms(6) left_ofD(3) [OF v(2)] by simp
  from client_run_file [OF v(1) this v(3)] main(2) show ?thesis
    unfolding left_ofD(1) [OF v(2)] by blast
qed

text \<open>
  C37: the port.  With \<open>p\<close> the port of the command line, or 63333: while \<open>main\<close> downloads, the client listens on
  \<open>p\<close> and every request to the tracker announces \<open>p\<close>; when it seeds, it still listens on \<open>p\<close>, but the port it
  announces is the next one.
\<close>

theorem main_seeds_on_other_port:
  assumes "main env lib files bound first ks final first' ks' late opts = Inr (ex, Some (mt, w))" "torrent_opt opts = Some fn"
    and p_def: "p = (case port_opt opts of None \<Rightarrow> 63333 | Some p \<Rightarrow> p)"
  shows "(ex = Downloading \<longrightarrow> acceptor (tor w) = Some \<lparr>local_port = p, started = True\<rparr> \<and>
      (\<exists>tr. mt = Some tr \<and> (\<forall>r t. announced_port r tr t = Some (to_string (unat p))))) \<and>
    (ex = Seeding \<longrightarrow> acceptor (tor w) = Some \<lparr>local_port = p, started = True\<rparr> \<and>
      (\<exists>tr. mt = Some tr \<and> (\<forall>r t. announced_port r tr t = Some (to_string (unat (p + 1))))))"
proof -
  have p: "startport opts = p"
    by (simp add: startport_def p_def)
  obtain dir t d r mt1 w1 where t: "parseFile env lib (files fn) dir Torrent = Inr (SUCCESS, t, d)"
    and l: "download env lib bound first ks final p (seed_opt opts) None (start_world t d) = Inr (r, mt1, w1)"
    and e: "after_download env lib first' ks' late (seed_opt opts) p (r, mt1, w1) = Inr (ex, Some (mt, w))"
    using assms(1, 2) unfolding p [symmetric] by (rule main_run)
  have "acceptor (tor (start_world t d)) = None"
    using parseFile_acceptor [OF t] by (simp add: start_world_def Torrent_def)
  then have "acceptor (tor w1) = Some \<lparr>local_port = p, started = (r = None \<or> seed_opt opts)\<rparr>" if "r \<noteq> Some TRACKER_QUERY_FAILURE"
    using download_effect(5) [OF l that] by simp
  with after_download_effect(2-4) [OF e] download_effect(3) [OF l] show ?thesis
    unfolding announced_port by auto
qed

text \<open>
  C12: what a tracker, or the way to it, can do to a client: a query ends in a fault only when the resolver gives an
  empty list, the request cannot be written, the body is not bencoded, it is not a dictionary with a string of
  peers and an integer interval, the time of the next request overflows the clock, or the peers of an answer that is
  used are not made of entries of six bytes.  All other failures are reported as such.
\<close>

theorem query_fails_only_here:
  assumes "client_run env lib0 fs dir md es w" "tracker_query lib net now r tr w = Inl f"
  shows "\<exists>eps. resolve net (host (urlMeta tr)) (port (urlMeta tr)) = Some eps \<and>
    (eps = [] \<and> f = NullDeref
     \<or> try_connect (connects net) eps = Inr True \<and> \<not> write_ok net \<and> f = Uncaught ''boost::system::system_error''
     \<or> try_connect (connects net) eps = Inr True \<and>
       (\<exists>body. read_response (uninit_int net) (answer net (request_text r tr (tor w))) = Some body \<and>
         (decode lib body = None \<and> f = Uncaught ''bencoding::DecodingError''
          \<or> decode lib body \<noteq> None \<and> f = NullDeref \<and>
            \<not> (\<exists>m p i. decode lib body = Some (BDictionary m) \<and> map_of m ''peers'' = Some (BString p) \<and>
                 map_of m ''interval'' = Some (BInteger i))
          \<or> (\<exists>m p i. decode lib body = Some (BDictionary m) \<and> map_of m ''peers'' = Some (BString p) \<and>
               map_of m ''interval'' = Some (BInteger i) \<and>
               (\<not> (fits_int64 (sint i * 1000000) \<and> fits_int64 (now + sint i * 1000000)) \<and> f = SignedOverflow
                \<or> (event r = EV_NONE \<or> event r = EV_STARTED) \<and> \<not> 6 dvd length p \<and> f = OutOfBounds)))))"
proof -
  obtain eps where e: "resolve net (host (urlMeta tr)) (port (urlMeta tr)) = Some eps"
    using assms(2) by (auto simp: tracker_query_def httpRequest_def split: option.splits)
  show ?thesis
  proof (cases "try_connect (connects net) eps")
    case (Inl g)
    then show ?thesis
      using e assms(2) try_connect_Inl by (auto simp: tracker_query_def httpRequest_def)
  next
    case (Inr ok)
    with e assms(2) consider "ok" "\<not> write_ok net" "f = Uncaught ''boost::system::system_error''"
      | body where "ok" "read_response (uninit_int net) (answer net (request_text r tr (tor w))) = Some body"
          "handle_body lib now r body tr w = Inl f"
      by (auto simp: tracker_query_def httpRequest_def split: if_splits option.splits)
    then show ?thesis
    proof cases
      case 2
      from handle_body_fault [OF client_run_inv [OF assms(1)] 2(3)] 2 e Inr show ?thesis
        by simp
    qed (use e Inr in simp)
  qed
qed

end
