(* ===== verification/Statistics.thy ===== *)
theory Statistics
  imports Complex_Main Torrent_Geometry Net_Connection
begin

text \<open>
  What the client displays: the speed and the remaining time of a download and the counters in a
  readable form (\<open>calculateETA\<close>, \<open>getDownloadSpeed\<close>, the two \<open>display\<close> functions and the getters of
  \<open>src/torrent/torrent.cpp\<close> and \<open>torrent.hpp\<close>, \<open>bytesToHumanReadable\<close> of \<open>src/utils/utils.cpp\<close>).
  A \<open>double\<close> is a real number, and what an operation yields is the rounded exact result; neither the
  rounding nor the accuracy of \<open>std::log\<close> is fixed by the language, so both are parameters.
\<close>

section \<open>Floating point\<close>

text \<open>\<open>rnd\<close> rounds a real number to a \<open>double\<close>, \<open>logd\<close> is \<open>std::log\<close> of an integer.\<close>

record fpu =
  rnd :: "real \<Rightarrow> real"
  logd :: "nat \<Rightarrow> real"

text \<open>
  \<open>static_cast<size_t>\<close> of a non-negative value drops the fraction; a value that is too large has no
  result.
\<close>

definition to_size_t :: "real \<Rightarrow> u64 res" where
  "to_size_t x = (if 0 \<le> x \<and> x < 18446744073709551616 then Inr (of_int \<lfloor>x\<rfloor>) else Inl BadConversion)"

text \<open>A stream set to \<open>std::fixed\<close> and \<open>std::setprecision(2)\<close> writes hundredths, rounded to nearest even.\<close>

definition round_even :: "real \<Rightarrow> int" where
  "round_even y =
     (let d = y - of_int \<lfloor>y\<rfloor>
      in if d > 1 / 2 \<or> d = 1 / 2 \<and> odd \<lfloor>y\<rfloor> then \<lfloor>y\<rfloor> + 1 else \<lfloor>y\<rfloor>)"

definition fixed2 :: "real \<Rightarrow> string" where
  "fixed2 x = (let h = nat (round_even (100 * x)) in to_string (h div 100) @ ''.'' @ pad2 (h mod 100))"

section \<open>bytesToHumanReadable\<close>

text \<open>The units end with the zero byte of the literal; \<open>exp - 1\<close> wraps around when \<open>exp\<close> is zero.\<close>

definition bytesToHumanReadable :: "fpu \<Rightarrow> u32 \<Rightarrow> bool \<Rightarrow> string res" where
  "bytesToHumanReadable f bytes si =
     (let u = (if si then 1000 else 1024) :: u32
      in if bytes < u then Inr (to_string (unat bytes) @ '' B'')
         else bind_res (to_size_t (rnd f (logd f (unat bytes) / logd f (unat u)))) (\<lambda>e.
           let units = (if si then ''kMGTPE'' else ''KMGTPE'') @ [CHR 0x00];
               number = fixed2 (rnd f (real (unat bytes) / rnd f (real (unat u) ^ unat e)))
           in bind_res (of_peek (peek units (unat (e - 1)))) (\<lambda>c.
                Inr (number @ '' '' @ [c] @ (if si then '''' else ''i'') @ ''B''))))"

section \<open>Speed and remaining time\<close>

text \<open>\<open>elapsedSec\<close> is the number of whole seconds since the download was started.\<close>

definition getDownloadSpeed :: "fpu \<Rightarrow> u64 \<Rightarrow> torrent \<Rightarrow> real" where
  "getDownloadSpeed f elapsedSec t =
     (if elapsedSec = 0 then 0
      else let speed = rnd f (real (unat (downloadedBytes t div elapsedSec))) in rnd f (speed / 1000000))"

text \<open>Division by zero gives an infinity or no number; neither can be converted.\<close>

definition calculateETA :: "fpu \<Rightarrow> u64 \<Rightarrow> torrent \<Rightarrow> u64 res" where
  "calculateETA f elapsedSec t =
     (let remaining_size = totalSize t - downloadedBytes t;
          divisor = rnd f (getDownloadSpeed f elapsedSec t * 1000000)
      in if divisor = 0 then Inl BadConversion
         else let eta_sec = rnd f (rnd f (real (unat remaining_size)) / divisor)
              in to_size_t (rnd f (eta_sec + 1 / 2)))"

section \<open>The progress lines\<close>

definition displayDownloadProgress :: "fpu \<Rightarrow> u64 \<Rightarrow> torrent \<Rightarrow> string res" where
  "displayDownloadProgress f elapsedSec t =
     bind_res (bytesToHumanReadable f (ucast (downloadedBytes t)) True) (\<lambda>downloaded.
     bind_res (bytesToHumanReadable f (ucast (uploadedBytes t)) True) (\<lambda>uploaded.
     bind_res (bytesToHumanReadable f (ucast (wastedBytes t)) True) (\<lambda>wasted.
     bind_res (calculateETA f elapsedSec t) (\<lambda>eta.
       Inr ([CHR 0x0D] @ name t @ '': Completed '' @ to_string (completedPieces t) @ ''/'' @ to_string (length (pieces t)) @ '' pieces '' @
            ''(Downloaded: '' @ downloaded @ '', Uploaded: '' @ uploaded @ '', Wasted: '' @ wasted @
            '', Hash misses: '' @ to_string (pieceHashMisses t) @ '')'' @
            '' Download speed: '' @ fixed2 (getDownloadSpeed f elapsedSec t) @ '' MB/s'' @
            '', ETA: '' @ formatTime (unat eta) @ ''       '')))))"

definition displaySeedProgress :: "fpu \<Rightarrow> torrent \<Rightarrow> string res" where
  "displaySeedProgress f t =
     bind_res (bytesToHumanReadable f (ucast (uploadedBytes t)) True) (\<lambda>uploaded.
     bind_res (bytesToHumanReadable f (ucast (wastedBytes t)) True) (\<lambda>wasted.
       Inr ([CHR 0x0D] @ name t @ '': '' @ ''(Uploaded: '' @ uploaded @ '', Wasted: '' @ wasted @
            '', Hash misses: '' @ to_string (pieceHashMisses t) @ '')'' @ ''       '')))"

section \<open>The getters\<close>

definition getActivePeers :: "torrent \<Rightarrow> nat" where
  "getActivePeers t = length (activePeers t)"

definition getTotalSize :: "torrent \<Rightarrow> u64" where
  "getTotalSize t = totalSize t"

definition getDownloadedBytes :: "torrent \<Rightarrow> u64" where
  "getDownloadedBytes t = downloadedBytes t"

definition getUploadedBytes :: "torrent \<Rightarrow> u32" where
  "getUploadedBytes t = ucast (uploadedBytes t)"

definition getName :: "torrent \<Rightarrow> string" where
  "getName t = name t"

text \<open>The lines \<open>main\<close> prints before and after a download.\<close>

definition size_line :: "fpu \<Rightarrow> torrent \<Rightarrow> string res" where
  "size_line f t =
     bind_res (bytesToHumanReadable f (ucast (getTotalSize t)) True) (\<lambda>s. Inr (getName t @ '': Total size: '' @ s))"

definition transfer_lines :: "fpu \<Rightarrow> torrent \<Rightarrow> (string \<times> string) res" where
  "transfer_lines f t =
     bind_res (bytesToHumanReadable f (ucast (getDownloadedBytes t)) True) (\<lambda>d.
     bind_res (bytesToHumanReadable f (getUploadedBytes t) True) (\<lambda>u.
       Inr (getName t @ '': Downloaded: '' @ d, getName t @ '': Uploaded:   '' @ u)))"

section \<open>Messages to the user and the log\<close>

definition getStrIp :: "peer \<Rightarrow> string" where
  "getStrIp p = getIPString (conn p)"

definition handleTrackerError :: "string \<Rightarrow> torrent \<Rightarrow> string" where
  "handleTrackerError error t = name t @ '': tracker request failed: '' @ error"

definition handlePeerDebug :: "peer \<Rightarrow> string \<Rightarrow> torrent \<Rightarrow> string" where
  "handlePeerDebug p msg t = name t @ '': '' @ getStrIp p @ '' '' @ msg"

definition print_help :: "string \<Rightarrow> string list" where
  "print_help p =
     (let t = [CHR 0x09, CHR 0x09]
      in [''Usage: '' @ p @ ''-t <torrent> {options}'',
          t @ ''--help (-h)          Print this help message.'',
          t @ ''--version (-v)       Print version.'',
          t @ ''--log (-l)           Specify log filename (defaults to log.txt).'',
          t @ ''--torrent (-t)       Specify torrent file.'',
          t @ ''--dir (-d)           Specify downloads directory.'',
          t @ ''--seed (-s)          Seed after download has finished.'',
          t @ ''--port (-p)          Specify port for seeding.'',
          ''Example: '' @ p @ '' -t a.torrent -d Torrents -s''])"

section \<open>Rounding errors\<close>

text \<open>
  What the standard for floating point promises of an operation without overflow: the result differs
  from the exact one by at most one part in \<open>2 ^ 53\<close>.
\<close>

definition precise :: "fpu \<Rightarrow> bool" where
  "precise f \<longleftrightarrow> (\<forall>x \<ge> 0. \<bar>rnd f x - x\<bar> \<le> x / 2 ^ 53)"

text \<open>\<open>y\<close> is \<open>x\<close> up to \<open>k\<close> such errors.\<close>

definition eps1 :: real where
  "eps1 = 1 - 1 / 2 ^ 53"

definition near :: "nat \<Rightarrow> real \<Rightarrow> real \<Rightarrow> bool" where
  "near k x y \<longleftrightarrow> eps1 ^ k * x \<le> y \<and> eps1 ^ k * y \<le> x"

lemma eps1_bounds: "0 < eps1" "eps1 < 1"
  by (simp_all add: eps1_def)

lemma near_nonneg: "near k x y \<Longrightarrow> 0 \<le> x \<Longrightarrow> 0 \<le> y"
  using eps1_bounds(1) by (simp add: near_def) (meson order.trans zero_le_mult_iff zero_le_power less_imp_le)

lemma near_pos: "near k x y \<Longrightarrow> 0 < x \<Longrightarrow> 0 < y"
  using eps1_bounds(1) by (simp add: near_def) (meson order.strict_trans2 zero_less_mult_iff zero_less_power)

lemma near_trans: "near j x y \<Longrightarrow> near k y z \<Longrightarrow> near (j + k) x z"
proof -
  assume a: "near j x y" and b: "near k y z"
  have p: "0 \<le> eps1 ^ n" for n
    using eps1_bounds(1) by simp
  have "eps1 ^ (j + k) * x \<le> eps1 ^ k * y"
    using mult_left_mono [OF _ p, of "eps1 ^ j * x" y k] a by (simp add: near_def power_add mult.commute mult.left_commute)
  moreover have "eps1 ^ (j + k) * z \<le> eps1 ^ j * y"
    using mult_left_mono [OF _ p, of "eps1 ^ k * z" y j] b by (simp add: near_def power_add mult.commute mult.left_commute)
  ultimately show ?thesis
    using a b by (simp add: near_def)
qed

lemma near_rnd:
  assumes "precise f" "0 \<le> x"
  shows "near 1 x (rnd f x)"
proof -
  have "\<bar>rnd f x - x\<bar> \<le> x / 2 ^ 53"
    using assms by (simp add: precise_def)
  then have l: "x - x / 2 ^ 53 \<le> rnd f x" and u: "rnd f x \<le> x + x / 2 ^ 53"
    by linarith+
  have "eps1 * rnd f x \<le> eps1 * (x + x / 2 ^ 53)"
    using mult_left_mono [OF u less_imp_le [OF eps1_bounds(1)]] .
  also have "\<dots> \<le> x"
    using assms(2) by (simp add: eps1_def algebra_simps)
  finally show ?thesis
    using l by (simp add: near_def eps1_def algebra_simps)
qed

lemma near_scale: "near k x y \<Longrightarrow> 0 < c \<Longrightarrow> near k (x * c) (y * c)"
  by (simp add: near_def mult.assoc [symmetric])

lemma near_divide:
  assumes "near j a a'" "near k b b'" "0 \<le> a" "0 < b"
  shows "near (j + k) (a / b) (a' / b')"
proof -
  have b': "0 < b'"
    using near_pos [OF assms(2, 4)] .
  have a': "0 \<le> a'"
    using near_nonneg [OF assms(1, 3)] .
  have "(eps1 ^ j * a) * (eps1 ^ k * b') \<le> a' * b" "(eps1 ^ j * a') * (eps1 ^ k * b) \<le> a * b'"
    using assms b' a' eps1_bounds(1) by (intro mult_mono; simp add: near_def)+
  then show ?thesis
    using assms(4) b' by (simp add: near_def power_add field_simps)
qed

lemma near_round:
  assumes "precise f" "near j x y" "0 \<le> x"
  shows "near (Suc j) x (rnd f y)"
  using near_trans [OF assms(2) near_rnd [OF assms(1) near_nonneg [OF assms(2, 3)]]] by simp

section \<open>The remaining time\<close>

lemma divisor_near:
  assumes "precise f" "elapsedSec \<noteq> 0"
  shows "near 3 (real (unat (downloadedBytes t div elapsedSec))) (rnd f (getDownloadSpeed f elapsedSec t * 1000000))"
proof -
  define n where "n = real (unat (downloadedBytes t div elapsedSec))"
  have n: "0 \<le> n"
    unfolding n_def by (rule of_nat_0_le_iff)
  have "near 1 (n * (1 / 1000000)) (rnd f n * (1 / 1000000))"
    by (rule near_scale [OF near_rnd [OF assms(1) n]]) simp
  then have "near 2 (n / 1000000) (rnd f (rnd f n / 1000000))"
    using near_round [OF assms(1), of 1 "n / 1000000" "rnd f n / 1000000"] n by (simp add: numeral_2_eq_2)
  moreover have "getDownloadSpeed f elapsedSec t = rnd f (rnd f n / 1000000)"
    unfolding n_def getDownloadSpeed_def Let_def using assms(2) by simp
  ultimately have "near 2 n (getDownloadSpeed f elapsedSec t * 1000000)"
    using near_scale [of 2 "n / 1000000" "rnd f (rnd f n / 1000000)" 1000000] by simp
  from near_round [OF assms(1) this n] show ?thesis
    unfolding n_def by (simp only: eval_nat_numeral BitM.simps)
qed

lemma eps1_power_6: "3 / 4 \<le> eps1 ^ 6"
proof -
  have "1 - real 6 * (1 / 2 ^ 53) \<le> eps1 ^ 6"
    using Bernoulli_inequality [of "- (1 / 2 ^ 53)" 6] by (simp add: eps1_def)
  then show ?thesis
    by simp
qed

lemma to_size_t_run:
  assumes "0 \<le> x" "x < 18446744073709551616"
  shows "\<exists>e. to_size_t x = Inr e \<and> real (unat e) \<le> x \<and> x < real (unat e) + 1"
proof -
  have f: "0 \<le> \<lfloor>x\<rfloor>" "\<lfloor>x\<rfloor> < 18446744073709551616"
    using assms by (simp_all add: floor_less_iff)
  then have "unat (of_int \<lfloor>x\<rfloor> :: u64) = nat \<lfloor>x\<rfloor>"
    by (simp add: unat_eq_nat_uint uint_word_of_int_eq take_bit_int_eq_self)
  then have "real (unat (of_int \<lfloor>x\<rfloor> :: u64)) = of_int \<lfloor>x\<rfloor>"
    using f(1) by simp
  then show ?thesis
    using assms by (simp add: to_size_t_def)
qed

lemma calculateETA_run:
  assumes f: "precise f" and n: "elapsedSec \<noteq> 0" "downloadedBytes t div elapsedSec \<noteq> 0"
    and small: "unat (totalSize t - downloadedBytes t) < 2 ^ 63"
  defines "x \<equiv> real (unat (totalSize t - downloadedBytes t)) / real (unat (downloadedBytes t div elapsedSec))"
  shows "\<exists>e. calculateETA f elapsedSec t = Inr e \<and> eps1 ^ 6 * real (unat e) \<le> x + 1 / 2 \<and> eps1 ^ 6 * (x + 1 / 2) < real (unat e) + 1"
proof -
  define r where "r = real (unat (totalSize t - downloadedBytes t))"
  define n where "n = real (unat (downloadedBytes t div elapsedSec))"
  define d where "d = rnd f (getDownloadSpeed f elapsedSec t * 1000000)"
  define q where "q = rnd f (rnd f r / d)"
  define y where "y = rnd f (q + 1 / 2)"
  have x: "x = r / n"
    by (simp add: x_def r_def n_def)
  have "Suc 0 \<le> unat (downloadedBytes t div elapsedSec)"
    using n(2) by (simp add: Suc_le_eq unat_gt_0)
  then have n0: "1 \<le> n"
    unfolding n_def by (metis One_nat_def of_nat_1 of_nat_le_iff)
  have "near 3 n d"
    using divisor_near [OF f n(1)] by (simp add: d_def n_def)
  then have d: "near 3 n d" "0 < d"
    using near_pos n0 by (simp, fastforce)
  have r: "0 \<le> r" "r \<le> 2 ^ 63"
  proof -
    show "0 \<le> r"
      unfolding r_def by (rule of_nat_0_le_iff)
    have "real (unat (totalSize t - downloadedBytes t)) \<le> real (2 ^ 63)"
      unfolding of_nat_le_iff using small by simp
    then show "r \<le> 2 ^ 63"
      unfolding r_def by simp
  qed
  have "r \<le> 2 ^ 63 * n"
    using r(2) n0 by (simp add: order.trans)
  then have x0: "0 \<le> x" "x \<le> 2 ^ 63"
    using r(1) n0 by (simp_all add: x divide_le_eq)
  have "near 4 x (rnd f r / d)"
    using near_divide [OF near_rnd [OF f r(1)] d(1) r(1)] n0 by (simp add: x)
  from near_round [OF f this x0(1)] have q: "near 5 x q"
    by (simp add: q_def)
  have y: "near 1 (q + 1 / 2) y"
    unfolding y_def by (rule near_rnd [OF f]) (use near_nonneg [OF q x0(1)] in simp)
  have le: "eps1 ^ 6 * y \<le> x + 1 / 2"
  proof -
    have "eps1 ^ 6 * y = eps1 ^ 5 * (eps1 ^ 1 * y)"
      by (simp add: eval_nat_numeral)
    also have "\<dots> \<le> eps1 ^ 5 * (q + 1 / 2)"
      using y eps1_bounds(1) by (intro mult_left_mono) (simp_all add: near_def)
    also have "\<dots> \<le> x + eps1 ^ 5 * (1 / 2)"
      using q by (simp add: near_def distrib_left)
    also have "eps1 ^ 5 \<le> 1"
      using eps1_bounds by (intro power_le_one) simp_all
    finally show ?thesis
      by simp
  qed
  have ge: "eps1 ^ 6 * (x + 1 / 2) \<le> y"
  proof -
    have p: "eps1 ^ 5 \<le> 1"
      using eps1_bounds by (intro power_le_one) simp_all
    have "eps1 ^ 6 * (x + 1 / 2) = eps1 ^ 1 * (eps1 ^ 5 * x + eps1 ^ 5 * (1 / 2))"
      by (simp add: eval_nat_numeral algebra_simps)
    also have "\<dots> \<le> eps1 ^ 1 * (q + 1 / 2)"
      using q p eps1_bounds(1) by (intro mult_left_mono add_mono) (simp_all add: near_def)
    also have "\<dots> \<le> y"
      using y by (simp add: near_def)
    finally show ?thesis .
  qed
  have y0: "0 \<le> y"
    using near_nonneg [OF y] near_nonneg [OF q x0(1)] by simp
  have "3 / 4 * y \<le> eps1 ^ 6 * y"
    using eps1_power_6 y0 by (rule mult_right_mono)
  then have "y < 18446744073709551616"
    using le x0(2) by simp
  from to_size_t_run [OF y0 this] obtain e where e: "to_size_t y = Inr e" "real (unat e) \<le> y" "y < real (unat e) + 1"
    by blast
  have "calculateETA f elapsedSec t = Inr e"
    using e(1) d(2) by (simp add: calculateETA_def Let_def d_def q_def y_def r_def)
  moreover have "eps1 ^ 6 * real (unat e) \<le> eps1 ^ 6 * y"
    using e(2) eps1_bounds(1) by (intro mult_left_mono) simp_all
  ultimately show ?thesis
    using le ge e(3) by auto
qed

lemma eps1_power_6_tight: "1 - 6 / 2 ^ 53 \<le> eps1 ^ 6"
  using Bernoulli_inequality [of "- (1 / 2 ^ 53)" 6] by (simp add: eps1_def)

text \<open>Six rounding errors move a number by less than one part in \<open>2 ^ 50\<close>.\<close>

lemma eps1_nearest:
  assumes "eps1 ^ 6 * e \<le> x + 1 / 2" "eps1 ^ 6 * (x + 1 / 2) < e + 1" "0 \<le> x" "0 \<le> e"
  shows "\<bar>e - x\<bar> \<le> 1 / 2 + (x + 1) / 2 ^ 50"
proof -
  have "(1 - 6 / 2 ^ 53) * e \<le> x + 1 / 2" "(1 - 6 / 2 ^ 53) * (x + 1 / 2) < e + 1"
    using mult_right_mono [OF eps1_power_6_tight assms(4)] mult_right_mono [OF eps1_power_6_tight, of "x + 1 / 2"] assms
    by simp_all
  then have "e \<le> x + (1 / 2 + (x + 1) / 2 ^ 50)" "x \<le> e + (1 / 2 + (x + 1) / 2 ^ 50)"
    using assms(3) by (simp_all add: field_simps)
  then show ?thesis
    by linarith
qed

lemma no_speed_no_ETA:
  assumes "precise f" "elapsedSec = 0 \<or> downloadedBytes t div elapsedSec = 0"
  shows "calculateETA f elapsedSec t = Inl BadConversion"
proof -
  have z: "rnd f 0 = 0"
    using assms(1) by (auto simp: precise_def dest: spec [of _ 0])
  then have "getDownloadSpeed f elapsedSec t = 0"
    using assms(2) by (auto simp: getDownloadSpeed_def)
  then show ?thesis
    by (simp add: calculateETA_def Let_def z)
qed

lemma no_ETA_no_progress:
  assumes "calculateETA f elapsedSec t = Inl BadConversion"
  shows "\<exists>e. displayDownloadProgress f elapsedSec t = Inl e"
  using assms by (auto simp: displayDownloadProgress_def bind_res_def split: sum.splits)

text \<open>
  C39: The remaining time. While no second has passed, or on average less than one byte a second has
  arrived, \<open>calculateETA\<close> divides by zero and converts the infinity (or the undefined quotient) to an
  integer, which has no result, and \<open>displayDownloadProgress\<close> with it. Otherwise it answers the
  remaining bytes divided by the whole bytes a second, rounded to the nearest second, up to a relative
  error of \<open>2 ^ -50\<close>, however the floating point rounds.
\<close>

theorem calculateETA_result:
  assumes "precise f" "unat (totalSize t - downloadedBytes t) < 2 ^ 63"
  shows "if elapsedSec = 0 \<or> downloadedBytes t div elapsedSec = 0
         then calculateETA f elapsedSec t = Inl BadConversion \<and> (\<exists>e. displayDownloadProgress f elapsedSec t = Inl e)
         else \<exists>e. calculateETA f elapsedSec t = Inr e \<and>
                (let x = real (unat (totalSize t - downloadedBytes t)) / real (unat (downloadedBytes t div elapsedSec))
                 in \<bar>real (unat e) - x\<bar> \<le> 1 / 2 + (x + 1) / 2 ^ 50)"
proof (cases "elapsedSec = 0 \<or> downloadedBytes t div elapsedSec = 0")
  case True
  then show ?thesis
    using no_speed_no_ETA [OF assms(1) True] no_ETA_no_progress by simp
next
  case False
  define x where "x = real (unat (totalSize t - downloadedBytes t)) / real (unat (downloadedBytes t div elapsedSec))"
  have x0: "0 \<le> x"
    unfolding x_def by (intro divide_nonneg_nonneg of_nat_0_le_iff)
  obtain e where e: "calculateETA f elapsedSec t = Inr e"
    "eps1 ^ 6 * real (unat e) \<le> x + 1 / 2" "eps1 ^ 6 * (x + 1 / 2) < real (unat e) + 1"
    using calculateETA_run [OF assms(1) _ _ assms(2)] False unfolding x_def by blast
  show ?thesis
    unfolding Let_def x_def [symmetric] if_not_P [OF False]
    using e(1) eps1_nearest [OF e(2, 3) x0 of_nat_0_le_iff] by blast
qed

section \<open>Sizes in a readable form\<close>

text \<open>The text for a number of bytes that is shown in the unit \<open>e\<close>: kilo, mega, giga and so on.\<close>

definition in_unit :: "fpu \<Rightarrow> u32 \<Rightarrow> bool \<Rightarrow> nat \<Rightarrow> string" where
  "in_unit f bytes si e =
     fixed2 (rnd f (real (unat bytes) / rnd f (real (if si then 1000 else 1024) ^ e))) @ '' '' @
     [(if si then ''kMGTPE'' else ''KMGTPE'') ! (e - 1)] @ (if si then '''' else ''i'') @ ''B''"

lemma bytesToHumanReadable_unit:
  assumes "\<not> bytes < (if si then 1000 else 1024)"
    and "1 \<le> x" "x \<le> 4" "x = rnd f (logd f (unat bytes) / logd f (if si then 1000 else 1024))"
  shows "\<exists>e \<in> {1..4}. real e \<le> x \<and> x < real e + 1 \<and> bytesToHumanReadable f bytes si = Inr (in_unit f bytes si e)"
proof -
  obtain i where i: "to_size_t x = Inr i" "real (unat i) \<le> x" "x < real (unat i) + 1"
    using to_size_t_run [of x] assms(2, 3) by auto
  then have e: "1 \<le> unat i" "unat i \<le> 4"
    using assms(2, 3) by linarith+
  have "i \<noteq> 0"
    using e(1) by auto
  then have p: "unat (i - 1) = unat i - 1"
    by (simp add: unat_minus_one)
  have "peek ((if si then ''kMGTPE'' else ''KMGTPE'') @ [CHR 0x00]) (unat i - 1) =
      Some ((if si then ''kMGTPE'' else ''KMGTPE'') ! (unat i - 1))"
    using e by (simp add: peek_def nth_append)
  then have "bytesToHumanReadable f bytes si = Inr (in_unit f bytes si (unat i))"
    using i(1) assms(1, 4) p by (cases si) (simp_all add: bytesToHumanReadable_def Let_def in_unit_def)
  with e i show ?thesis
    by (intro bexI [of _ "unat i"]) auto
qed

text \<open>
  What the manual of the GNU C library promises of \<open>std::log\<close> is an error of about a unit in the
  last place; here it may be two, which is one part in \<open>2 ^ 51\<close>.  The number one is a \<open>double\<close>, and
  rounding leaves it alone.
\<close>

definition accurate :: "fpu \<Rightarrow> bool" where
  "accurate f \<longleftrightarrow> precise f \<and> rnd f 1 = 1 \<and> (\<forall>n \<ge> 1. \<bar>logd f n - ln (real n)\<bar> \<le> ln (real n) / 2 ^ 51)"

lemma accurate_near: "accurate f \<Longrightarrow> 1 \<le> n \<Longrightarrow> near 5 (ln (real n)) (logd f n)"
proof -
  assume a: "accurate f" "1 \<le> n"
  define l where "l = ln (real n)"
  have l: "0 \<le> l" "\<bar>logd f n - l\<bar> \<le> l / 2 ^ 51"
    using a by (simp_all add: l_def accurate_def)
  have up: "logd f n \<le> (1 + 1 / 2 ^ 51) * l" and down: "(1 - 1 / 2 ^ 51) * l \<le> logd f n"
    using abs_le_D1 [OF l(2)] abs_le_D2 [OF l(2)] by (simp_all add: algebra_simps)
  have e: "eps1 ^ 5 \<le> 1 - 1 / 2 ^ 51" "0 \<le> eps1 ^ 5" "eps1 ^ 5 * (1 + 1 / 2 ^ 51) \<le> 1"
    by (simp_all add: eps1_def power_divide)
  have "eps1 ^ 5 * l \<le> (1 - 1 / 2 ^ 51) * l"
    using e(1) l(1) by (rule mult_right_mono)
  moreover have "eps1 ^ 5 * logd f n \<le> eps1 ^ 5 * ((1 + 1 / 2 ^ 51) * l)"
    using up e(2) by (rule mult_left_mono)
  moreover have "eps1 ^ 5 * (1 + 1 / 2 ^ 51) * l \<le> 1 * l"
    using e(3) l(1) by (rule mult_right_mono)
  ultimately show ?thesis
    using down unfolding l_def [symmetric] near_def mult.assoc mult_1 by linarith
qed

lemma eps1_power_11: "1 - 1 / 2 ^ 49 \<le> eps1 ^ 11"
  by (simp add: eps1_def power_divide)

text \<open>The logarithms of two different numbers are apart by the inverse of the greater one.\<close>

lemma ln_gap:
  assumes "0 < m" "m < n"
  shows "ln (real m) + 1 / real n \<le> ln (real n)"
proof -
  have "ln (real m / real n) \<le> real m / real n - 1"
    using assms by (intro ln_le_minus_one) simp
  moreover have "real m / real n - 1 \<le> - (1 / real n)"
  proof -
    have "real m + 1 \<le> real n"
      using assms(2) by linarith
    then have "(real m + 1) / real n \<le> 1"
      using assms by (simp add: divide_le_eq)
    then show ?thesis
      by (simp add: add_divide_distrib)
  qed
  ultimately show ?thesis
    using assms by (simp add: ln_div)
qed

lemma ln_unit: "0 < ln (real (if si then 1000 else 1024))" "ln (real (if si then 1000 else 1024)) \<le> 10"
proof -
  have "ln ((2 :: real) ^ 10) = 10 * ln 2"
    by (subst ln_realpow) simp_all
  then have "ln (1024 :: real) \<le> 10"
    using ln_le_minus_one [of "2 :: real"] by simp
  moreover have "ln (1000 :: real) \<le> ln 1024"
    by (subst ln_le_cancel_iff) simp_all
  ultimately show "ln (real (if si then 1000 else 1024)) \<le> 10"
    by (cases si) (simp_all only: if_True if_False of_nat_numeral)
qed simp

text \<open>Strictly between two powers of the unit these errors do not reach the next whole number.\<close>

lemma quotient_between:
  assumes q: "near 11 (ln (real n) / ln (real u)) q" and u: "0 < ln (real u)" "ln (real u) \<le> 10" "1 < u"
    and n: "u ^ k < n" "n < u ^ Suc k" "n < 2 ^ 32" and k: "k \<le> 3" "u ^ Suc k \<le> 2 ^ 40"
  shows "real k \<le> q" "q < real k + 1"
proof -
  define l where "l = ln (real u)"
  define e where "e = eps1 ^ 11"
  have e: "1 - 1 / 2 ^ 49 \<le> e" "0 < e"
    using eps1_power_11 eps1_bounds(1) by (simp_all add: e_def)
  have l: "0 < l" "l \<le> 10"
    using u by (simp_all add: l_def)
  have p: "ln (real (u ^ j)) = real j * l" for j
    using u(3) by (simp add: l_def ln_realpow)
  have kl: "real k * l \<le> 3 * 10" "(real k + 1) * l \<le> 4 * 10"
    using k(1) l by (intro mult_mono; simp)+
  have "1 / 2 ^ 32 \<le> 1 / real n"
    using n by (intro divide_left_mono) (simp_all add: less_imp_le)
  then have lo: "real k * l + 1 / 2 ^ 32 \<le> ln (real n)"
    using ln_gap [OF _ n(1)] u(3) p [of k] by simp
  have "real (u ^ Suc k) \<le> real (2 ^ 40 :: nat)"
    using k(2) by (simp only: of_nat_le_iff)
  then have "1 / 2 ^ 40 \<le> 1 / real (u ^ Suc k)"
    using u(3) by (intro divide_left_mono) simp_all
  then have hi: "ln (real n) + 1 / 2 ^ 40 \<le> (real k + 1) * l"
    using ln_gap [OF _ n(2)] n(1) p [of "Suc k"] by (simp add: algebra_simps)
  have q: "e * ln (real n) \<le> q * l" "e * (q * l) \<le> ln (real n)"
    using q l(1) by (simp_all add: near_def e_def l_def field_simps)
  have "(1 - 1 / 2 ^ 49) * (real k * l + 1 / 2 ^ 32) \<le> e * ln (real n)"
    using e lo l by (intro mult_mono) simp_all
  then have "real k * l \<le> q * l"
    using q(1) kl(1) by (simp add: algebra_simps)
  then show "real k \<le> q"
    using l(1) by simp
  show "q < real k + 1"
  proof (rule ccontr)
    assume "\<not> q < real k + 1"
    then have "(1 - 1 / 2 ^ 49) * ((real k + 1) * l) \<le> e * (q * l)"
      using e l by (intro mult_mono mult_right_mono mult_nonneg_nonneg) simp_all
    then show False
      using q(2) hi kl(2) by (simp add: algebra_simps)
  qed
qed

lemma exponent_in_range:
  assumes f: "accurate f" and u: "u = (if si then 1000 else 1024)" and n: "u \<le> n" "n < 2 ^ 32"
  defines "q \<equiv> rnd f (logd f n / logd f u)"
  shows "\<exists>k \<in> {1..3}. u ^ k \<le> n \<and> n < u ^ (k + 1) \<and>
    (if n = u ^ k \<and> k \<noteq> 1 then real k - 1 \<le> q \<and> q < real k + 1 else real k \<le> q \<and> q < real k + 1)"
proof -
  have u1: "1 < u" "u ^ 3 < 2 ^ 32" "2 ^ 32 \<le> u ^ 4" "u ^ 4 \<le> 2 ^ 40"
    by (simp_all add: u)
  have l: "0 < ln (real u)" "ln (real u) \<le> 10"
    unfolding u by (rule ln_unit)+
  have near: "near 11 (ln (real n) / ln (real u)) q"
  proof -
    have "near (5 + 5) (ln (real n) / ln (real u)) (logd f n / logd f u)"
      using n(1) u1(1) l(1) by (intro near_divide accurate_near [OF f]) simp_all
    then show ?thesis
      using near_round [of f 10 "ln (real n) / ln (real u)" "logd f n / logd f u"] f n(1) u1(1) l(1)
      by (simp add: q_def accurate_def)
  qed
  obtain k where k: "k \<in> {1..3}" "u ^ k \<le> n" "n < u ^ (k + 1)"
  proof -
    consider "n < u ^ 2" | "u ^ 2 \<le> n" "n < u ^ 3" | "u ^ 3 \<le> n" "n < u ^ 4"
      using n(2) u1(3) by linarith
    then show ?thesis
      using n(1) by cases (auto intro: that [of 1] that [of 2] that [of 3] simp: numeral_eq_Suc)
  qed
  have top: "u ^ Suc k \<le> 2 ^ 40"
    using order.trans [OF power_increasing u1(4), of "Suc k"] k(1) u1(1) by simp
  consider "n = u" "k = 1" | "n = u ^ k" "k \<noteq> 1" | "u ^ k < n"
    using k(2) by (cases "k = 1") force+
  then show ?thesis
  proof cases
    case 1
    have "0 < logd f u"
      using near_pos [OF accurate_near [OF f] l(1)] u1(1) by simp
    then have "q = 1"
      using f 1 by (simp add: q_def accurate_def)
    with 1 k show ?thesis
      by (intro bexI [of _ 1]) simp_all
  next
    case 2
    have "ln (real n) / ln (real u) = real k"
      using 2 l(1) u1(1) by (simp add: ln_realpow)
    then have e: "eps1 ^ 11 * real k \<le> q" "eps1 ^ 11 * q \<le> real k"
      using near by (simp_all add: near_def)
    have "real k \<le> 3"
      using k(1) by simp
    have "(1 - 1 / 2 ^ 49) * real k \<le> q"
      using mult_right_mono [OF eps1_power_11, of "real k"] e(1) by linarith
    then have q: "real k - 1 \<le> q" "0 \<le> q"
      using \<open>real k \<le> 3\<close> k(1) by (simp_all add: algebra_simps)
    have "(1 - 1 / 2 ^ 49) * q \<le> real k"
      using mult_right_mono [OF eps1_power_11 q(2)] e(2) by linarith
    then have "q < real k + 1"
      using \<open>real k \<le> 3\<close> by (simp add: algebra_simps)
    with q(1) k 2 show ?thesis
      by (intro bexI [of _ k]) simp_all
  next
    case 3
    from quotient_between [OF near l u1(1) 3 _ n(2) _ top] k show ?thesis
      by (intro bexI [of _ k]) simp_all
  qed
qed

text \<open>
  C40: For every 32-bit size \<open>bytesToHumanReadable\<close> stays within its array of units.  Let every rounding
  of a non-negative number be off by at most one part in \<open>2 ^ 53\<close>, and leave the number one alone, and
  let \<open>std::log\<close> of a whole number be off by at most one part in \<open>2 ^ 51\<close>, which is what its
  documentation promises, and nothing else be known of them.  Then a size below the base \<open>u\<close> is printed
  in bytes, and for any other the conversion to an index is defined, the index does not wrap around
  below zero, and one of the first three units is read, the one the size asks for:
  \<open>u ^ e \<le> n \<le> u ^ (e + 1)\<close>, with equality on the right only if the size is exactly the power
  of the base, where the rounding may choose the unit below.
\<close>

theorem bytesToHumanReadable_in_range:
  assumes "accurate f"
  shows "if bytes < (if si then 1000 else 1024) then bytesToHumanReadable f bytes si = Inr (to_string (unat bytes) @ '' B'')
    else \<exists>e \<in> {1..3}. bytesToHumanReadable f bytes si = Inr (in_unit f bytes si e) \<and>
      (if si then 1000 else 1024) ^ e \<le> unat bytes \<and> unat bytes \<le> (if si then 1000 else 1024) ^ (e + 1)"
proof (cases "bytes < (if si then 1000 else 1024)")
  case True
  then show ?thesis
    by (simp add: bytesToHumanReadable_def)
next
  case False
  define u :: nat where "u = (if si then 1000 else 1024)"
  define q where "q = rnd f (logd f (unat bytes) / logd f u)"
  have n: "u \<le> unat bytes" "unat bytes < 2 ^ 32"
    using False unsigned_less [where 'a = nat, of bytes]
    by (simp_all add: u_def word_less_nat_alt split: if_splits)
  obtain k where k: "k \<in> {1..3}" "u ^ k \<le> unat bytes" "unat bytes < u ^ (k + 1)"
    and q: "if unat bytes = u ^ k \<and> k \<noteq> 1 then real k - 1 \<le> q \<and> q < real k + 1 else real k \<le> q \<and> q < real k + 1"
    using exponent_in_range [OF assms u_def n] unfolding q_def by blast
  have b: "1 \<le> q" "q \<le> 4"
    using q k(1) by (auto split: if_splits)
  obtain e where e: "real e \<le> q" "q < real e + 1" "bytesToHumanReadable f bytes si = Inr (in_unit f bytes si e)"
    using bytesToHumanReadable_unit [OF False b] unfolding q_def u_def by auto
  have "e = k \<or> (unat bytes = u ^ k \<and> k \<noteq> 1 \<and> e = k - 1)"
    using q e(1, 2) k(1) by (auto split: if_splits)
  then have bounds: "e \<in> {1..3} \<and> u ^ e \<le> unat bytes \<and> unat bytes \<le> u ^ (e + 1)"
  proof (elim disjE conjE)
    assume "unat bytes = u ^ k" "k \<noteq> 1" "e = k - 1"
    then have "e + 1 = k"
      using k(1) by simp
    then have "u ^ e \<le> u ^ k"
      by (intro power_increasing) (simp_all add: u_def)
    then show "e \<in> {1..3} \<and> u ^ e \<le> unat bytes \<and> unat bytes \<le> u ^ (e + 1)"
      using k(1) \<open>unat bytes = u ^ k\<close> \<open>k \<noteq> 1\<close> \<open>e + 1 = k\<close> by auto
  qed (use k in simp_all)
  then show ?thesis
    using e(3) False unfolding u_def by auto
qed

text \<open>The counters are 64 bits wide, the parameter of \<open>bytesToHumanReadable\<close> 32: the rest is lost.\<close>

lemma size_line_truncates:
  "totalSize t' = totalSize t + 4294967296 * k \<Longrightarrow> name t' = name t \<Longrightarrow> size_line f t' = size_line f t"
proof -
  assume a: "totalSize t' = totalSize t + 4294967296 * k" "name t' = name t"
  have m: "(x + n * y mod m) mod m mod n = x mod n" if "n dvd m" for x y n m :: nat
    using that by (metis mod_add_right_eq mod_mod_cancel mod_mult_self2)
  have "unat (totalSize t + 4294967296 * k) = (unat (totalSize t) + 2 ^ 32 * unat k mod 2 ^ 64) mod 2 ^ 64"
    by (simp add: unat_word_ariths)
  then have "unat (totalSize t + 4294967296 * k) mod 2 ^ 32 = unat (totalSize t) mod 2 ^ 32"
    by (simp only: m [OF le_imp_power_dvd] numeral_le_iff semiring_norm)
  then have "ucast (totalSize t + 4294967296 * k) = (ucast (totalSize t) :: u32)"
    by (simp add: word_unat_eq_iff unsigned_ucast_eq take_bit_eq_mod)
  then show ?thesis
    using a by (simp add: size_line_def getTotalSize_def getName_def)
qed

end
