(* ===== verification/Link.thy ===== *)
theory Link
  imports Dialled_Seed
begin

text \<open>
  Two clients and the connection between them: each has its own world, what one writes arrives at the
  other in order, and Asio runs the read handler of either as soon as the bytes it waits for are there.
  The order in which the two take their turns is not determined; the first section shows that it does
  not matter.
\<close>

section \<open>Turns that commute\<close>

text \<open>\<open>takes f g s n t\<close>: \<open>n\<close> turns, each of them \<open>f\<close> or \<open>g\<close>, lead from \<open>s\<close> to \<open>t\<close>.\<close>

inductive takes :: "('s \<Rightarrow> 's option) \<Rightarrow> ('s \<Rightarrow> 's option) \<Rightarrow> 's \<Rightarrow> nat \<Rightarrow> 's \<Rightarrow> bool" for f g where
  stay: "takes f g s 0 s"
| turn: "f s = Some s' \<or> g s = Some s' \<Longrightarrow> takes f g s' n t \<Longrightarrow> takes f g s (Suc n) t"

inductive_cases takes_SucE: "takes f g s (Suc n) t"

lemma takes_0 [simp]: "takes f g s 0 t \<longleftrightarrow> t = s"
  by (auto elim: takes.cases intro: takes.stay)

lemma takes_Suc: "takes f g s (Suc n) t \<longleftrightarrow> (\<exists>s'. (f s = Some s' \<or> g s = Some s') \<and> takes f g s' n t)"
  by (auto elim: takes_SucE intro: takes.turn)

lemma takes_add: "takes f g s m u \<Longrightarrow> takes f g u n t \<Longrightarrow> takes f g s (m + n) t"
  by (induction rule: takes.induct) (auto intro: takes.turn)

lemma takes_invariant:
  assumes "takes f g s n t" "P s" "\<And>x y. P x \<Longrightarrow> f x = Some y \<or> g x = Some y \<Longrightarrow> P y"
  shows "P t"
  using assms by induction blast+

text \<open>A state in which neither has a turn.\<close>

definition at_rest :: "('s \<Rightarrow> 's option) \<Rightarrow> ('s \<Rightarrow> 's option) \<Rightarrow> 's \<Rightarrow> bool" where
  "at_rest f g s \<longleftrightarrow> f s = None \<and> g s = None"

text \<open>
  What the two parties promise: a turn of one neither prevents nor changes a turn of the other.  Then
  all the ways to take turns have the same end, if they have one, and take the same number of turns.
\<close>

locale commuting =
  fixes f g :: "'s \<Rightarrow> 's option"
  assumes commute: "f s = Some s1 \<Longrightarrow> g s = Some s2 \<Longrightarrow> \<exists>s3. g s1 = Some s3 \<and> f s2 = Some s3"
begin

lemma strip:
  assumes "takes f g s n t" "at_rest f g t" "f s = Some u \<or> g s = Some u"
  shows "\<exists>m. n = Suc m \<and> takes f g u m t"
  using assms
proof (induction arbitrary: u rule: takes.induct)
  case (stay s)
  then show ?case by (auto simp: at_rest_def)
next
  case (turn s s' n t)
  show ?case
  proof (cases "u = s'")
    case True
    with turn.hyps(2) show ?thesis by blast
  next
    case False
    then obtain v where v: "f u = Some v \<or> g u = Some v" "f s' = Some v \<or> g s' = Some v"
      using turn.hyps(1) turn.prems(2) commute [of s] by (metis option.inject)
    then obtain m where "n = Suc m" "takes f g v m t"
      using turn.IH [OF turn.prems(1)] by blast
    with v(1) show ?thesis
      by (auto intro: takes.turn)
  qed
qed

lemma every_schedule:
  assumes "takes f g s m u" "takes f g s n t" "at_rest f g t"
  shows "m \<le> n \<and> takes f g u (n - m) t"
  using assms
proof (induction arbitrary: n rule: takes.induct)
  case (turn s s' m u)
  obtain k where "n = Suc k" "takes f g s' k t"
    using strip [OF turn.prems turn.hyps(1)] by blast
  with turn.IH turn.prems(2) show ?case
    by auto
qed simp

lemma same_end:
  assumes "takes f g s m u" "at_rest f g u" "takes f g s n t" "at_rest f g t"
  shows "u = t \<and> m = n"
proof -
  have "m \<le> n" "takes f g u (n - m) t"
    using every_schedule [OF assms(1, 3, 4)] by simp_all
  moreover have "n \<le> m"
    using every_schedule [OF assms(3, 1, 2)] by simp
  ultimately show ?thesis
    by simp
qed

end

section \<open>Two clients and the bytes between them\<close>

text \<open>\<open>to_b\<close> holds the bytes client \<open>a\<close> has written and client \<open>b\<close> has not read, \<open>to_a\<close> those of the other direction.\<close>

record link =
  side_a :: world
  side_b :: world
  to_b :: buffer
  to_a :: buffer

text \<open>What a handler has added to the output of a connection.\<close>

definition written :: "nat \<Rightarrow> world \<Rightarrow> world \<Rightarrow> buffer" where
  "written p w w' = concat (drop (length (sent (conn_of w p))) (sent (conn_of w' p)))"

text \<open>
  The read handler of a connection runs when the bytes it asked for have arrived: it takes them, and
  leaves the rest and what it wrote itself.
\<close>

definition read_turn :: "env \<Rightarrow> nat \<Rightarrow> world \<Rightarrow> buffer \<Rightarrow> (world \<times> buffer \<times> buffer) option" where
  "read_turn env p w arrived =
     (case reading (conn_of w p) of
        None \<Rightarrow> None
      | Some n \<Rightarrow>
          if unat n \<le> length arrived
          then case on_read env p (take (unat n) arrived) w of
                 Inl _ \<Rightarrow> None
               | Inr w' \<Rightarrow> Some (w', drop (unat n) arrived, written p w w')
          else None)"

definition turn_a :: "env \<Rightarrow> nat \<Rightarrow> link \<Rightarrow> link option" where
  "turn_a env p l =
     map_option (\<lambda>(w, rest, out). l\<lparr>side_a := w, to_a := rest, to_b := to_b l @ out\<rparr>) (read_turn env p (side_a l) (to_a l))"

text \<open>The same link, seen from the other side.\<close>

definition flip :: "link \<Rightarrow> link" where
  "flip l = \<lparr>side_a = side_b l, side_b = side_a l, to_b = to_a l, to_a = to_b l\<rparr>"

definition turn_b :: "env \<Rightarrow> nat \<Rightarrow> link \<Rightarrow> link option" where
  "turn_b env p l = map_option flip (turn_a env p (flip l))"

lemma flip_simps [simp]:
  "side_a (flip l) = side_b l" "side_b (flip l) = side_a l" "to_b (flip l) = to_a l" "to_a (flip l) = to_b l"
  "flip (flip l) = l" "flip (l\<lparr>side_a := w\<rparr>) = flip l\<lparr>side_b := w\<rparr>" "flip (l\<lparr>side_b := w\<rparr>) = flip l\<lparr>side_a := w\<rparr>"
  "flip (l\<lparr>to_a := bs\<rparr>) = flip l\<lparr>to_b := bs\<rparr>" "flip (l\<lparr>to_b := bs\<rparr>) = flip l\<lparr>to_a := bs\<rparr>"
  by (simp_all add: flip_def)

lemma turn_b_alt:
  "turn_b env p l =
     map_option (\<lambda>(w, rest, out). l\<lparr>side_b := w, to_b := rest, to_a := to_a l @ out\<rparr>) (read_turn env p (side_b l) (to_b l))"
  by (cases "read_turn env p (side_b l) (to_b l)") (auto simp: turn_b_def turn_a_def)

lemma flip_turn: "turn_a env p (flip l) = map_option flip (turn_b env p l)" "turn_b env p (flip l) = map_option flip (turn_a env p l)"
  by (simp_all add: turn_b_def option.map_comp comp_def option.map_ident)

text \<open>Bytes that arrive later do not disturb a read that has all it asked for.\<close>

lemma read_turn_append:
  "read_turn env p w arrived = Some (w', rest, out) \<Longrightarrow> read_turn env p w (arrived @ later) = Some (w', rest @ later, out)"
  by (auto simp: read_turn_def split: option.splits sum.splits if_splits)

lemma turns_commute:
  assumes "turn_a env_a p l = Some l1" "turn_b env_b q l = Some l2"
  shows "\<exists>l3. turn_b env_b q l1 = Some l3 \<and> turn_a env_a p l2 = Some l3"
proof -
  obtain w rest out v rest' out' where a: "read_turn env_a p (side_a l) (to_a l) = Some (w, rest, out)"
      and b: "read_turn env_b q (side_b l) (to_b l) = Some (v, rest', out')"
      and l: "l1 = l\<lparr>side_a := w, to_a := rest, to_b := to_b l @ out\<rparr>" "l2 = l\<lparr>side_b := v, to_b := rest', to_a := to_a l @ out'\<rparr>"
    using assms by (auto simp: turn_a_def turn_b_alt)
  show ?thesis
    using read_turn_append [OF a, of out'] read_turn_append [OF b, of out] by (simp add: turn_a_def turn_b_alt l)
qed

interpretation tw: commuting "turn_a env_a p" "turn_b env_b q" for env_a p env_b q
  by unfold_locales (rule turns_commute)

section \<open>The clients of a link are clients\<close>

text \<open>The bytes a list of events hands to a client.\<close>

fun received :: "event list \<Rightarrow> buffer" where
  "received [] = []"
| "received (Received p bs # es) = bs @ received es"
| "received (_ # es) = received es"

lemma received_append [simp]: "received (es @ fs) = received es @ received fs"
  by (induction es rule: received.induct) simp_all

text \<open>A turn is a step of the client that takes it.\<close>

lemma read_turn_step:
  assumes "read_turn env p w arrived = Some (w', rest, out)" "p < nextPeer w"
  shows "\<exists>bs. arrived = bs @ rest \<and> swarm_step env w (Received p bs) w' \<and> isolated p w w' \<and> out = written p w w'"
proof -
  obtain n where n: "reading (conn_of w p) = Some n" "unat n \<le> length arrived" "on_read env p (take (unat n) arrived) w = Inr w'"
      "rest = drop (unat n) arrived" "out = written p w w'"
    using assms(1) by (auto simp: read_turn_def split: option.splits sum.splits if_splits)
  have "unat n < 2 ^ 64"
    using unsigned_less [of n] by simp
  with n assms(2) on_read_isolated [OF n(3)] show ?thesis
    by (intro exI [of _ "take (unat n) arrived"]) (simp add: swarm_step_iff min_absorb2)
qed

lemma written_trans:
  assumes "isolated p w v" "isolated p v x"
  shows "isolated p w x" "written p w x = written p w v @ written p v x"
proof -
  show "isolated p w x"
    using assms by (auto simp: isolated_def) (metis append_assoc)
  have grow: "\<exists>bs. sent (conn_of b p) = sent (conn_of a p) @ bs" if "isolated p a b" for a b
    using that by (simp add: isolated_def)
  from grow [OF assms(1)] grow [OF assms(2)] show "written p w x = written p w v @ written p v x"
    by (auto simp: written_def)
qed

lemma written_same [simp]: "written p w w = []"
  by (simp add: written_def)

text \<open>
  From \<open>l\<close> to \<open>u\<close> each client has made a run of its own, and each has received, in order, what the
  other one has written; the rest is still on its way.
\<close>

definition one_side :: "env \<Rightarrow> nat \<Rightarrow> world \<Rightarrow> world \<Rightarrow> event list \<Rightarrow> bool" where
  "one_side env p w w' es \<longleftrightarrow> run (swarm_step env) w es w' \<and> isolated p w w'"

lemma one_side_snoc:
  "one_side env p w v es \<Longrightarrow> swarm_step env v e x \<Longrightarrow> isolated p v x \<Longrightarrow> one_side env p w x (es @ [e])"
  using written_trans(1) run_append [OF _ run_one] by (auto simp: one_side_def)

lemma one_side_refl: "one_side env p w w []"
  by (simp add: one_side_def isolated_refl run_nil)

definition link_to :: "env \<Rightarrow> nat \<Rightarrow> env \<Rightarrow> nat \<Rightarrow> link \<Rightarrow> link \<Rightarrow> event list \<Rightarrow> event list \<Rightarrow> bool" where
  "link_to env_a p env_b q l u es fs \<longleftrightarrow>
     one_side env_a p (side_a l) (side_a u) es \<and> one_side env_b q (side_b l) (side_b u) fs \<and>
     to_a l @ written q (side_b l) (side_b u) = received es @ to_a u \<and>
     to_b l @ written p (side_a l) (side_a u) = received fs @ to_b u"

lemma link_to_flip: "link_to env_a p env_b q (flip l) (flip u) es fs = link_to env_b q env_a p l u fs es"
  by (auto simp: link_to_def)

lemma link_to_turn_a:
  assumes "link_to env_a p env_b q l u es fs" "turn_a env_a p u = Some u'" "p < nextPeer (side_a l)"
  shows "\<exists>es'. link_to env_a p env_b q l u' es' fs"
proof -
  obtain w rest out where t: "read_turn env_a p (side_a u) (to_a u) = Some (w, rest, out)"
      "u' = u\<lparr>side_a := w, to_a := rest, to_b := to_b u @ out\<rparr>"
    using assms(2) by (auto simp: turn_a_def)
  have iso: "isolated p (side_a l) (side_a u)"
    using assms(1) by (simp add: link_to_def one_side_def)
  then have "p < nextPeer (side_a u)"
    using assms(3) by (simp add: isolated_def)
  from read_turn_step [OF t(1) this] obtain bs where bs: "to_a u = bs @ rest"
      "swarm_step env_a (side_a u) (Received p bs) w" "isolated p (side_a u) w" "out = written p (side_a u) w"
    by blast
  then have "link_to env_a p env_b q l u' (es @ [Received p bs]) fs"
    using assms(1) one_side_snoc [OF _ bs(2, 3)] written_trans(2) [OF iso bs(3)] by (simp add: link_to_def t(2))
  then show ?thesis
    by blast
qed

lemma link_to_takes:
  assumes "takes (turn_a env_a p) (turn_b env_b q) l m u" "p < nextPeer (side_a l)" "q < nextPeer (side_b l)"
  shows "\<exists>es fs. link_to env_a p env_b q l u es fs"
proof -
  have "\<exists>es fs. link_to env_a p env_b q l y es fs"
    if x: "\<exists>es fs. link_to env_a p env_b q l x es fs" and t: "turn_a env_a p x = Some y \<or> turn_b env_b q x = Some y" for x y
  proof -
    obtain es fs where l: "link_to env_a p env_b q l x es fs"
      using x by blast
    show ?thesis
    proof (cases "turn_a env_a p x = Some y")
      case True
      then show ?thesis
        using link_to_turn_a [OF l _ assms(2)] by blast
    next
      case False
      then have "turn_a env_b q (flip x) = Some (flip y)"
        using t by (simp add: flip_turn)
      then show ?thesis
        using link_to_turn_a [of env_b q env_a p "flip l" "flip x" fs es "flip y"] l assms(3) by (simp add: link_to_flip) blast
    qed
  qed
  moreover have "link_to env_a p env_b q l l [] []"
    by (simp add: link_to_def one_side_refl)
  ultimately show ?thesis
    using takes_invariant [OF assms(1), of "\<lambda>x. \<exists>es fs. link_to env_a p env_b q l x es fs"] by blast
qed

section \<open>Messages over the link\<close>

lemma read_turn_I:
  assumes "reading (conn_of w p) = Some n" "unat n = length bs" "on_read env p bs w = Inr w'"
    and "sent (conn_of w' p) = sent (conn_of w p) @ out"
  shows "read_turn env p w (bs @ rest) = Some (w', rest, concat out)"
  using assms by (simp add: read_turn_def written_def)

lemma read_message:
  assumes "awaits_prefix (conn_of w p)" "length (payload m) < 4294967295" "deliver env p m w = Inr w'"
    and "sent (conn_of w' p) = sent (conn_of w p) @ out"
  shows "\<exists>v. read_turn env p w (encode_msg m @ rest) = Some (v, message_id m # payload m @ rest, []) \<and>
    read_turn env p v (message_id m # payload m @ rest) = Some (w', rest, concat out)"
proof -
  let ?n = "Suc (length (payload m))"
  let ?v = "upd_conn p (\<lambda>c. c\<lparr>readCB := Some Handle_body, reading := Some (of_nat ?n)\<rparr>) w"
  have v: "on_read env p (take 4 (encode_msg m)) w = Inr ?v"
    unfolding take_drop_encode using assms(2) by (intro on_read_prefix [OF assms(1)]) simp_all
  have "read_turn env p w (take 4 (encode_msg m) @ message_id m # payload m @ rest) =
      Some (?v, message_id m # payload m @ rest, concat [])"
  proof (rule read_turn_I [OF _ _ v])
    show "reading (conn_of w p) = Some 4"
      using assms(1) by (simp add: awaits_prefix_def)
    show "unat (4 :: u64) = length (take 4 (encode_msg m))"
      unfolding take_drop_encode by (simp add: be32.length_enc)
  qed simp
  moreover have "take 4 (encode_msg m) @ message_id m # payload m @ rest = encode_msg m @ rest"
    by (simp add: take_drop_encode(1) encode_msg_def be32.length_enc)
  moreover have "on_read env p (message_id m # payload m) ?v = Inr w'"
    using assms(3) v unfolding deliver_def take_drop_encode(2) by simp
  then have "read_turn env p ?v ((message_id m # payload m) @ rest) = Some (w', rest, concat out)"
  proof (rule read_turn_I [rotated 2])
    show "unat (of_nat ?n :: u64) = length (message_id m # payload m)"
      using assms(2) by (subst unat_of_nat_u64) simp_all
  qed (use assms(4) in simp_all)
  ultimately show ?thesis
    by auto
qed

definition stream_of :: "message list \<Rightarrow> buffer" where
  "stream_of ms = concat (map encode_msg ms)"

lemma stream_of_simps [simp]:
  "stream_of [] = []" "stream_of (m # ms) = encode_msg m @ stream_of ms" "stream_of (ms @ ns) = stream_of ms @ stream_of ns"
  by (simp_all add: stream_of_def)

lemma a_handles:
  assumes "handles env_a p w ms ns w'" "side_a l = w" "to_a l = stream_of ms @ rest"
  shows "takes (turn_a env_a p) (turn_b env_b q) l (2 * length ms)
    (l\<lparr>side_a := w', to_a := rest, to_b := to_b l @ stream_of ns\<rparr>)"
  using assms
proof (induction arbitrary: l rule: handles.induct)
  case (one w m v ns ms ns' w')
  let ?bs = "stream_of ms @ rest"
  obtain u where u: "read_turn env_a p w (encode_msg m @ ?bs) = Some (u, message_id m # payload m @ ?bs, [])"
      "read_turn env_a p u (message_id m # payload m @ ?bs) = Some (v, ?bs, stream_of ns)"
    using read_message [OF one.hyps(1,3-5)] unfolding stream_of_def by blast
  define l1 where "l1 = l\<lparr>side_a := u, to_a := message_id m # payload m @ ?bs\<rparr>"
  define l2 where "l2 = l1\<lparr>side_a := v, to_a := ?bs, to_b := to_b l @ stream_of ns\<rparr>"
  have "turn_a env_a p l = Some l1" "turn_a env_a p l1 = Some l2"
    using u one.prems by (simp_all add: turn_a_def l1_def l2_def)
  moreover have "takes (turn_a env_a p) (turn_b env_b q) l2 (2 * length ms)
      (l2\<lparr>side_a := w', to_a := rest, to_b := to_b l2 @ stream_of ns'\<rparr>)"
    by (rule one.IH) (simp_all add: l2_def)
  ultimately show ?case
    by (auto simp: takes_Suc l1_def l2_def)
qed simp

lemma takes_flip:
  "takes (turn_a env_a p) (turn_b env_b q) l n l' \<Longrightarrow> takes (turn_a env_b q) (turn_b env_a p) (flip l) n (flip l')"
  by (induction rule: takes.induct) (auto simp: flip_turn intro: takes.intros)

lemma b_handles:
  assumes "handles env_b q w ms ns w'" "side_b l = w" "to_b l = stream_of ms @ rest"
  shows "takes (turn_a env_a p) (turn_b env_b q) l (2 * length ms)
    (l\<lparr>side_b := w', to_b := rest, to_a := to_a l @ stream_of ns\<rparr>)"
  using takes_flip [OF a_handles [OF assms(1), of "flip l" rest env_a p]] assms(2, 3) by simp

section \<open>Properties\<close>

text \<open>
  The two clients of a link are clients: whatever turns they take, each of them makes a run of its
  own steps, in which it receives, in order and completely, what the other one writes, but for the
  bytes that are still on their way.  What holds of the runs of a client holds of each side.
\<close>

lemma link_sides_run:
  assumes "takes (turn_a env_a p) (turn_b env_b q) l m u" "p < nextPeer (side_a l)" "q < nextPeer (side_b l)"
  shows "\<exists>es fs. run (swarm_step env_a) (side_a l) es (side_a u) \<and> run (swarm_step env_b) (side_b l) fs (side_b u) \<and>
    to_a l @ written q (side_b l) (side_b u) = received es @ to_a u \<and>
    to_b l @ written p (side_a l) (side_a u) = received fs @ to_b u"
  using link_to_takes [OF assms] unfolding link_to_def one_side_def by blast

end
