(* ===== verification/Serving.thy ===== *)
theory Serving
  imports Link
begin

text \<open>
  The other end of a download: what a client that has the whole file answers, message by message, to a
  peer that says it is interested and asks for the blocks of the pieces.
\<close>

section \<open>A client that has the file\<close>

definition serving :: "env \<Rightarrow> torrent \<Rightarrow> buffer \<Rightarrow> nat \<Rightarrow> world \<Rightarrow> bool" where
  "serving env t file q w \<longleftrightarrow>
     client_inv env w \<and> awaits_prefix (conn_of w q) \<and> q < nextPeer w \<and> same_sizes (tor w) t \<and>
     (\<forall>i < length (pieces t). finished (pieces (tor w) ! i)) \<and>
     take (length file) (contents (disk w)) = file \<and> length file = unat (totalSize t)"

lemma servingD:
  assumes "serving env t file q w"
  shows "client_inv env w" "awaits_prefix (conn_of w q)" "same_sizes (tor w) t"
    "i < length (pieces t) \<Longrightarrow> finished (pieces (tor w) ! i)"
    "take (length file) (contents (disk w)) = file" "length file = unat (totalSize t)"
    "q < nextPeer w"
  using assms unfolding serving_def by blast+

text \<open>What a handled message has to leave as it is.\<close>

lemma serving_await:
  assumes s: "serving env t file q w" and d: "length (payload m) < 4294967295" "deliver env q m w = Inr (await_prefix q v)"
    and v: "isConnected q v" "same_sizes (tor v) (tor w)" "map finished (pieces (tor v)) = map finished (pieces (tor w))"
      "contents (disk v) = contents (disk w)" "nextPeer v = nextPeer w"
  shows "serving env t file q (await_prefix q v)"
proof -
  have n: "length (pieces (tor w)) = length (pieces t)" "length (pieces (tor v)) = length (pieces t)"
    using same_sizesD(1) [OF servingD(3) [OF s]] same_sizesD(1) [OF v(2)] by simp_all
  have "finished (pieces (tor v) ! i)" if "i < length (pieces t)" for i
    using arg_cong [OF v(3), of "\<lambda>xs. xs ! i"] that n servingD(4) [OF s] by simp
  moreover have "same_sizes (tor v) t"
    using v(2) servingD(3) [OF s] by (simp add: same_sizes_def)
  ultimately show ?thesis
    using deliver_inv [OF servingD(1, 2) [OF s] d] v(1, 4, 5) servingD(5-7) [OF s] by (simp add: serving_def)
qed

text \<open>The part of the file that is a piece, read from the disk.\<close>

lemma serving_part:
  assumes "serving env t file q w" "i < length (pieces t)"
  shows "part t (contents (disk w)) i = part t file i" "length (part t file i) = piece_len t i"
    "piece_end t i \<le> length (contents (disk w))"
proof -
  let ?c = "contents (disk w)" and ?n = "unat (totalSize t)"
  have f: "take ?n ?c = file" "length file = ?n"
    using servingD(5, 6) [OF assms(1)] by simp_all
  have e: "piece_end t i \<le> ?n"
    by (rule piece_end_le)
  have len: "?n \<le> length ?c"
    using arg_cong [OF f(1), of length] f(2) by simp
  show "length (part t file i) = piece_len t i"
    by (rule length_part [OF f(2)])
  show "piece_end t i \<le> length ?c"
    using e len by simp
  have "piece_begin t i \<le> piece_end t i"
    using piece_begin_le_end [of "tor w" i] geometryD(1) [OF client_invD(3) [OF servingD(1) [OF assms(1)]]] assms(2)
      same_sizesD [OF servingD(3) [OF assms(1)]] by simp
  then have "piece_begin t i + piece_len t i \<le> ?n"
    using e by (simp add: piece_len_def)
  then show "part t ?c i = part t file i"
    unfolding f(1) [symmetric] by (simp add: part_def slice_def drop_take min_def)
qed
section \<open>Answering\<close>

lemma serve_interested:
  assumes s: "serving env t file q w"
  shows "\<exists>w'. handles env q w [Interested] (if flag w q AM_CHOKING then [Unchoke] else []) w' \<and> serving env t file q w' \<and>
    flag w' q PEER_INTERESTED \<and> \<not> flag w' q AM_CHOKING"
proof -
  let ?w = "body_arrived q [2] w"
  let ?w1 = "upd_peer q (set_flag PEER_INTERESTED True) ?w"
  define v where "v = (if flag w q AM_CHOKING then upd_peer q (set_flag AM_CHOKING False) (conn_write [0, 0, 0, 1, 1] q ?w1) else ?w1)"
  note w = servingD(1, 2) [OF s]
  have c: "isConnected q ?w1" "inputStream (conn_of ?w1 q) = [2]"
    using w(2) by (simp_all add: body_arrived_def isConnected_def awaits_prefix_def)
  have unchoke: "encode_msg Unchoke = [0, 0, 0, 1, 1]"
    by (simp add: encode_msg_def writeAsBE32_def)
  have "message_case env q (message_id Interested) (incoming_of Interested) ?w = Inr (Break v)"
    by (simp add: message_case_def on_interested_def v_def)
  moreover have v: "isConnected q v" "inputStream (conn_of v q) = [2]" "tor v = tor w" "disk v = disk w"
      "flag v q PEER_INTERESTED" "\<not> flag v q AM_CHOKING" "nextPeer v = nextPeer w"
      "sent (conn_of v q) = sent (conn_of w q) @ map encode_msg (if flag w q AM_CHOKING then [Unchoke] else [])"
    using c by (simp_all add: v_def conn_write_open unchoke isConnected_def) (simp_all add: body_arrived_def)
  ultimately have d: "deliver env q Interested w = Inr (await_prefix q v)"
    using deliver_break [of w q Interested env v] w(2) by simp
  moreover have "serving env t file q (await_prefix q v)"
    using serving_await [OF s _ d] v by (simp add: same_sizes_def)
  moreover have "sent (conn_of (await_prefix q v) q) = sent (conn_of v q)"
    by (simp add: await_prefix_def)
  ultimately show ?thesis
    using handles_one [OF w(2) servingD(7) [OF s] _ d] v by (intro exI [of _ "await_prefix q v"]) simp
qed

lemma block_slice:
  assumes "length data = l" "b < block_count l"
  shows "slice (16384 * b) (min 16384 (l - 16384 * b)) data = block_at data b"
  using assms(1) by (simp add: slice_def block_at_def min_def)

lemma slice_slice: "a + n \<le> m \<Longrightarrow> slice a n (slice p m xs) = slice (p + a) n xs"
  by (simp add: slice_def drop_take min_def add.commute)

lemma serve_request:
  assumes s: "serving env t file q w" and f: "flag w q PEER_INTERESTED" "\<not> flag w q AM_CHOKING"
    and k: "k < length (pieces t)" and b: "b < block_count (piece_len t k)"
  shows "\<exists>w'. handles env q w [request_message t k b] [block_message k (part t file k) b] w' \<and>
    serving env t file q w' \<and> flag w' q PEER_INTERESTED \<and> \<not> flag w' q AM_CHOKING"
proof -
  let ?m = "request_message t k b" and ?t = "tor w" and ?d = "part t file k"
  let ?w = "body_arrived q (message_id ?m # payload ?m) w"
  let ?l = "min 16384 (piece_len t k - 16384 * b)"
  let ?blk = "block_at ?d b"
  note w = servingD(1, 2) [OF s]
  note same = same_sizesD [OF servingD(3) [OF s]]
  note geo = geometryD [OF client_invD(3) [OF w(1)]]
  note d = serving_part [OF s k]
  have u: "unat (of_nat k :: u32) = k"
    using unat_index [OF geo(3)] k same(1) by simp
  have len: "piece_len t k < 4294967296"
    using piece_len_32 [OF client_invD(3) [OF w(1)], of k] same(4) by simp
  note at = block_at_pos [OF d(2) b]
  have ub: "unat (of_nat (16384 * b) :: u32) = 16384 * b" and ul: "unat (of_nat ?l :: u32) = ?l"
    using at(3) len by (simp_all only: unat_of_nat_u32)
  have blk: "slice (16384 * b) ?l ?d = ?blk" "length ?blk = ?l"
    using block_slice [OF d(2) b] d(2) by (simp_all add: block_at_def)
  have fit: "16384 * b + ?l \<le> piece_len t k" "0 < ?l"
    using at(3) by auto
  define pos where "pos = piece_begin ?t k + 16384 * b"
  define v where "v = upd_tor (\<lambda>t. t\<lparr>uploadedBytes := uploadedBytes t + ucast (of_nat ?l :: u32)\<rparr>)
      (conn_write (encode_msg (block_message k ?d b)) q (?w\<lparr>disk := (disk ?w)\<lparr>fpos := pos + length ?blk\<rparr>\<rparr>))"
  have got: "slice pos ?l (contents (disk ?w)) = ?blk"
    using slice_slice [OF fit(1), of "piece_begin t k" "contents (disk w)"] d(1) blk(1) same(2)
    by (simp add: pos_def part_def)
  have sum: "unat (of_nat (16384 * b) + of_nat ?l :: u32) \<le> piece_len ?t k"
    unfolding of_nat_add [symmetric] using fit len same(4) by (subst unat_of_nat_u32) simp_all
  have "pos < 9223372036854775808"
    using at(3) piece_end_le [of ?t k] geo(2) same fit by (simp add: pos_def offsets_fit_def piece_len_def)
  then have run: "handleBlockRequest env q (of_nat k) (of_nat (16384 * b)) (of_nat ?l) ?w = Inr v"
    using handleBlockRequest_run [of ?w "of_nat k" "of_nat (16384 * b)" "of_nat ?l" pos ?blk env q]
      geo k same(1) sum got at(1) blk(2) unfolding u ub ul
    by (simp add: pos_def v_def block_message_def)
  have pay: "payload ?m = writeAsBE32 (of_nat k) @ writeAsBE32 (of_nat (16384 * b)) @ writeAsBE32 (of_nat ?l) @ []"
    by (simp add: request_message_def)
  have "length (payload ?m) = 12"
    by (simp add: pay be32.length_enc)
  moreover have "\<not> (16384 :: u32) < of_nat ?l"
    using ul by (simp add: word_less_nat_alt not_less)
  moreover have "pieceDone ?t k = Inr True"
    using k same(1) servingD(4) [OF s k] by (simp add: pieceDone_def peek_def)
  moreover have "flag ?w q PEER_INTERESTED" "\<not> flag ?w q AM_CHOKING"
    using f by simp_all
  moreover have "incoming_of ?m = IncomingMessage (payload ?m) (of_nat (length (payload ?m)))"
    by (rule incoming_of_def)
  ultimately have "message_case env q (message_id ?m) (incoming_of ?m) ?w = Inr (Break v)"
    using extract3_payload [OF pay, of 12] run u
    by (simp add: message_case_def on_request_def request_message_def getSize_def IncomingMessage_def del: payload.simps)
  note run = this
  have c: "isConnected q ?w"
    using w(2) by (simp add: body_arrived_def isConnected_def awaits_prefix_def)
  then have c': "isConnected q (?w\<lparr>disk := x\<rparr>)" for x
    by (simp add: isConnected_def)
  have v: "isConnected q v" "same_sizes (tor v) ?t" "map finished (pieces (tor v)) = map finished (pieces ?t)"
      "contents (disk v) = contents (disk w)" "nextPeer v = nextPeer w" "flag v q PEER_INTERESTED" "\<not> flag v q AM_CHOKING"
    using f c' by (simp_all add: v_def same_sizes_def)
  have io: "inputStream (conn_of v q) = message_id ?m # payload ?m"
      "sent (conn_of v q) = sent (conn_of w q) @ map encode_msg [block_message k ?d b]"
    unfolding v_def conn_write_open [OF c'] by (simp_all add: body_arrived_def)
  have len: "length (payload ?m) < 4294967295"
    by (simp add: pay be32.length_enc)
  have dl: "deliver env q ?m w = Inr (await_prefix q v)"
    using deliver_break [OF w(2) len run] v(1) io(1) by simp
  have "sent (conn_of (await_prefix q v) q) = sent (conn_of w q) @ map encode_msg [block_message k ?d b]"
    using io(2) by (simp add: await_prefix_def)
  from handles_one [OF w(2) servingD(7) [OF s] len dl this] serving_await [OF s len dl v(1-5)] v(6, 7) show ?thesis
    by (intro exI [of _ "await_prefix q v"]) simp
qed

lemma serve_requests:
  assumes "serving env t file q w" "flag w q PEER_INTERESTED" "\<not> flag w q AM_CHOKING"
    and "k < length (pieces t)" "set bs \<subseteq> {..<block_count (piece_len t k)}"
  shows "\<exists>w'. handles env q w (map (request_message t k) bs) (map (block_message k (part t file k)) bs) w' \<and>
    serving env t file q w' \<and> flag w' q PEER_INTERESTED \<and> \<not> flag w' q AM_CHOKING"
  using assms
proof (induction bs arbitrary: w)
  case Nil
  then show ?case by (auto intro: handles.none)
next
  case (Cons b bs)
  obtain v where v: "handles env q w [request_message t k b] [block_message k (part t file k) b] v"
      "serving env t file q v" "flag v q PEER_INTERESTED" "\<not> flag v q AM_CHOKING"
    using serve_request [OF Cons.prems(1-4), of b] Cons.prems(5) by auto
  with Cons.IH [of v] Cons.prems(4, 5) handles_append [OF v(1)] show ?case
    by fastforce
qed

end
