(* ===== verification/Two_Clients.thy ===== *)
theory Two_Clients
  imports Serving
begin

text \<open>
  Two instances of the client, one that has the file and one that wants it, connected to each other:
  whatever the order in which they run, a client that dials one that has the file gets it, and a client
  that is dialled by one that has the file gets nothing.
\<close>

section \<open>The connection is made\<close>

text \<open>
  Client \<open>a\<close> has been told the address of client \<open>b\<close> and has a peer \<open>p\<close> for it; the connection is
  accepted by \<open>b\<close>.
\<close>

definition link_up :: "nat \<Rightarrow> u32 \<Rightarrow> u32 \<Rightarrow> world \<Rightarrow> world \<Rightarrow> link" where
  "link_up p ip_a ip_b wa wb =
     (let wa' = on_connect_done (Some ip_b) p (on_resolved p wa)
      in \<lparr>side_a = wa', side_b = on_accepted (Some ip_a) wb, to_b = written p wa wa', to_a = []\<rparr>)"

lemma accepted_connection:
  assumes "w' = on_accepted (Some a) w"
  shows "isConnected (nextPeer w) w'" "readCB (conn_of w' (nextPeer w)) = Some Authenticate_handshake"
    "reading (conn_of w' (nextPeer w)) = Some 68" "inputStream (conn_of w' (nextPeer w)) = []"
    "pieceQueue (peers w' (nextPeer w)) = []" "hasPieceIndexes (peers w' (nextPeer w)) = []" "nextPeer w' = nextPeer w + 1"
    "accepted w' = accepted w" "sent (conn_of w' (nextPeer w)) = []"
    "pstate (peers w' (nextPeer w)) = (\<lambda>s. s = AM_CHOKING \<or> s = PEER_CHOKING)" "disk w' = disk w"
    "handshake (tor w') = handshake (tor w)" "pieces (tor w') = pieces (tor w)" "same_sizes (tor w') (tor w)"
    "bitfield (tor w') = bitfield (tor w)"
  by (simp_all add: assms on_accepted_def Let_def make_peer_def peer_authenticate_def
      setErrorCallback_def conn_read_def isConnected_def new_peer_def blacklist_def same_sizes_def new_connection_def)

lemma link_up_simps:
  assumes "connCB (conn_of wa p)" "inputStream (conn_of wa p) = []"
  shows "side_a (link_up p ip_a ip_b wa wb) = on_connect_done (Some ip_b) p (on_resolved p wa)"
    "side_b (link_up p ip_a ip_b wa wb) = on_accepted (Some ip_a) wb"
    "to_a (link_up p ip_a ip_b wa wb) = []" "to_b (link_up p ip_a ip_b wa wb) = handshake (tor wa)"
  using made_connection(5) [OF assms refl, of ip_b] by (simp_all add: link_up_def Let_def written_def)

text \<open>Both clients were started on the same torrent file.\<close>

lemma same_info_hash:
  assumes "sha1_digest env' = sha1_digest env"
  shows "\<not> handshake_mismatch (handshake (parsed env' lib dir' md)) (handshake (parsed env lib dir md)) 68"
    "length (handshake (parsed env lib dir md)) = 68"
proof -
  have d: "digest_bytes env' x = digest_bytes env x" for x
    by (simp add: digest_bytes_def assms)
  have len: "length (digest_bytes env x) = 20" for x
    by (simp add: digest_bytes_def upt_rec be32.length_enc)
  show "\<not> handshake_mismatch (handshake (parsed env' lib dir' md)) (handshake (parsed env lib dir md)) 68"
    by (simp add: handshake_mismatch_def parsed_def make_handshake_def d slice_def)
  show "length (handshake (parsed env lib dir md)) = 68"
    by (simp add: parsed_def make_handshake_def to_bytes_def peer_id_bytes_def len)
qed

lemma client_run_handshake:
  "client_run env lib fs dir md es w \<Longrightarrow> handshake (tor w) = handshake (parsed env lib dir md)"
  using prog.run_keeps [OF client_run_start(1), of env lib fs dir md es w "parsed env lib dir md"]
  by (simp add: start_world_def progressed_refl) (simp add: progressed_def fixed_def)

section \<open>A client that has the file is dialled\<close>

lemma getRawBitfield_all:
  assumes "marks_ok t'" "isFullyDownloaded t'" "length (pieces t') = length (pieces t)"
  shows "Bitfield (getRawBitfield t') = full_bitfield t"
proof -
  have "bitfield t' = replicate (length (pieces t)) True"
    using marksD(1, 4) [OF assms(1)] isFullyDownloaded_iff [OF assms(1)] assms(2, 3) by (intro nth_equalityI) simp_all
  then show ?thesis
    by (simp add: full_bitfield_def getRawBitfield_def)
qed

text \<open>Whoever accepts a connection answers the handshake with its own and with its bit field.\<close>

lemma accepts_turn:
  assumes "length hs = 68" "\<not> handshake_mismatch (handshake (tor w)) hs 68"
  shows "\<exists>w'. read_turn env (nextPeer w) (on_accepted (Some a) w) (hs @ rest) =
      Some (w', rest, handshake (tor w) @ encode_msg (Bitfield (getRawBitfield (tor w)))) \<and>
    agreed (nextPeer w) (on_accepted (Some a) w) w' \<and>
    sent (conn_of w' (nextPeer w)) = [handshake (tor w), encode_msg (Bitfield (getRawBitfield (tor w)))]"
proof -
  define w1 where "w1 = on_accepted (Some a) w"
  note c = accepted_connection [OF w1_def]
  have r: "getRawBitfield (tor w1) = getRawBitfield (tor w)"
    by (simp add: getRawBitfield_def c(15))
  obtain w' where w': "on_read env (nextPeer w) hs w1 = Inr w'" "agreed (nextPeer w) w1 w'"
      "sent (conn_of w' (nextPeer w)) = sent (conn_of w1 (nextPeer w)) @ [handshake (tor w), encode_msg (Bitfield (getRawBitfield (tor w)))]"
    using on_read_authenticate [OF c(1, 2, 4) assms(1), of env] assms(2) c(12) r by auto
  with read_turn_I [OF c(3) _ w'(1, 3)] assms(1) c(9) show ?thesis
    unfolding w1_def by simp
qed

lemma seed_accepts:
  assumes inv: "swarm_inv env w" and full: "isFullyDownloaded (tor w)" and sizes: "same_sizes (tor w) t"
    and f: "file = take (unat (totalSize t)) (contents (disk w))" "length file = unat (totalSize t)"
    and hs: "length hs = 68" "\<not> handshake_mismatch (handshake (tor w)) hs 68"
  shows "\<exists>w'. read_turn env (nextPeer w) (on_accepted (Some a) w) (hs @ rest) =
      Some (w', rest, handshake (tor w) @ encode_msg (full_bitfield t)) \<and>
    serving env t file (nextPeer w) w' \<and> flag w' (nextPeer w) AM_CHOKING"
proof -
  let ?q = "nextPeer w"
  define w1 where "w1 = on_accepted (Some a) w"
  note c = accepted_connection [OF w1_def]
  obtain w' where w': "read_turn env ?q w1 (hs @ rest) = Some (w', rest, handshake (tor w) @ encode_msg (Bitfield (getRawBitfield (tor w))))"
      "agreed ?q w1 w'"
    using accepts_turn [OF hs] unfolding w1_def by blast
  have inv1: "swarm_inv env w1"
    unfolding w1_def by (rule on_accepted_inv [OF inv])
  have core: "core w' = core w1"
    using w'(2) by (simp add: agreed_def)
  have marks: "marks_ok (tor w)"
    by (rule client_invD(4) [OF swarm_invD(1) [OF inv]])
  have "read_turn env ?q w1 (hs @ rest) = Some (w', rest, handshake (tor w) @ encode_msg (full_bitfield t))"
    using w'(1) getRawBitfield_all [OF marks full same_sizesD(1) [OF sizes]] by simp
  moreover have "serving env t file ?q w'"
  proof -
    have "same_sizes (tor w') t" "map finished (pieces (tor w')) = map finished (pieces (tor w))" "contents (disk w') = contents (disk w)"
      using core c(11, 13, 14) sizes by (simp_all add: core_def same_sizes_def)
    moreover have "finished (pieces (tor w') ! i)" if "i < length (pieces t)" for i
      using arg_cong [OF calculation(2), of "\<lambda>xs. xs ! i"] that isFullyDownloaded_iff [OF marks] full
        same_sizesD(1) [OF sizes] same_sizesD(1) [OF calculation(1)] by simp
    moreover have "client_inv env w'"
      using swarm_invD(1) [OF inv1] client_inv_core [OF core] by simp
    moreover have "take (length file) (contents (disk w)) = file"
      unfolding f(2) by (simp add: f(1))
    ultimately show ?thesis
      using w'(2) c(7) f(2) by (simp add: serving_def agreed_def)
  qed
  moreover have "flag w' ?q AM_CHOKING"
    using w'(2) c(10) by (simp add: agreed_def)
  ultimately show ?thesis
    unfolding w1_def by blast
qed
section \<open>The client that dials\<close>

definition newly_met :: "nat \<Rightarrow> world \<Rightarrow> bool" where
  "newly_met p w \<longleftrightarrow> pstate (peers w p) = (\<lambda>s. s = AM_CHOKING \<or> s = PEER_CHOKING)"

text \<open>Whoever dials sends nothing but its handshake.\<close>

lemma connects_turn:
  assumes "connCB (conn_of w p)" "inputStream (conn_of w p) = []"
    and hs: "length hs = 68" "\<not> handshake_mismatch (handshake (tor w)) hs 68"
    and w2: "w2 = on_connect_done (Some b) p (on_resolved p w)"
  shows "\<exists>w'. read_turn env p w2 (hs @ rest) = Some (w', rest, []) \<and> agreed p w2 w' \<and> core w' = core w"
proof -
  note c = made_connection [OF assms(1, 2) w2]
  obtain w' where w': "on_read env p hs w2 = Inr w'" "agreed p w2 w'" "sent (conn_of w' p) = sent (conn_of w2 p) @ []"
    using on_read_connected [OF c(1, 2, 4) hs(1), of env] hs(2) c(10) by auto
  have "read_turn env p w2 (hs @ rest) = Some (w', rest, concat [])"
    by (rule read_turn_I [OF c(3) _ w'(1, 3)]) (simp add: hs(1))
  with w'(2) c(12) show ?thesis
    by (auto simp: agreed_def)
qed

lemma leecher_connects:
  assumes inv: "swarm_inv env w" and p: "peers w p = dialling e" "p < nextPeer w"
    and w: "accepted w = []" "same_sizes (tor w) t" "pieces (tor w) = pieces t"
    and hs: "length hs = 68" "\<not> handshake_mismatch (handshake (tor w)) hs 68"
    and w2: "w2 = on_connect_done (Some b) p (on_resolved p w)"
  shows "\<exists>w'. read_turn env p w2 (hs @ rest) = Some (w', rest, []) \<and> greeted env t p w' \<and> newly_met p w'"
proof -
  note d = dialling_conn [OF p(1)]
  note c = made_connection [OF d(2, 3) w2]
  obtain w' where w': "read_turn env p w2 (hs @ rest) = Some (w', rest, [])" "agreed p w2 w'" "core w' = core w"
    using connects_turn [OF d(2, 3) hs w2] by blast
  have "client_inv env w'"
    using swarm_invD(1) [OF inv] client_inv_core [OF w'(3)] by blast
  moreover have "p < nextPeer w2" "accepted w2 = []" "same_sizes (tor w2) t" "pieces (tor w2) = pieces t"
      "pieceQueue (peers w2 p) = []" "hasPieceIndexes (peers w2 p) = []"
    using c p(2) w d(5, 6) by simp_all
  ultimately have "greeted env t p w'"
    using agreed_greeted [OF w'(2)] by blast
  with w' c(8) d(7) show ?thesis
    by (auto simp: newly_met_def agreed_def)
qed

text \<open>Between the messages of the two: the state of the one that fetches.\<close>

definition fetches :: "env \<Rightarrow> torrent \<Rightarrow> nat \<Rightarrow> buffer \<Rightarrow> nat \<Rightarrow> world \<Rightarrow> bool" where
  "fetches env t p file k w \<longleftrightarrow>
     seeding env p file k (next_queue (tor w) k) w \<and> same_sizes (tor w) t \<and> flag w p AM_CHOKING"

lemma fetches_start:
  assumes "greeted env t p w" "newly_met p w" "pieces t = map new_piece hs" "file_of env t file"
  shows "\<exists>w'. handles env p w [full_bitfield t] [Interested] w' \<and> fetches env t p file 0 w' \<and> flag w' p PEER_CHOKING"
proof -
  obtain w' where w': "deliver env p (full_bitfield t) w = Inr w'" "same_sizes (tor w') t"
      "wire_view p w' = (sent (conn_of w p) @ encode_msg Interested # (if flag w p PEER_CHOKING then [] else piece_requests (tor w) 0),
        (pstate (peers w p))(AM_INTERESTED := True))"
      "seeding env p file 0 (next_queue (tor w') 0) w'"
    using deliver_full_bitfield [OF assms(1, 3, 4)] by blast
  have g: "client_inv env w" "awaits_prefix (conn_of w p)" "p < nextPeer w" "same_sizes (tor w) t"
    using assms(1) by (simp_all add: greeted_def)
  have "length (pieces t) \<le> 2 ^ 32"
    using geometryD(3) [OF client_invD(3) [OF g(1)]] same_sizesD(1) [OF g(4)] by (simp add: pieces_fit_def)
  then have "length (payload (full_bitfield t)) < 4294967295"
    by (simp add: length_full_bitfield)
  moreover have "sent (conn_of w' p) = sent (conn_of w p) @ map encode_msg [Interested]" "flag w' p AM_CHOKING" "flag w' p PEER_CHOKING"
    using w'(3) assms(2) by (simp_all add: wire_view_def newly_met_def)
  ultimately show ?thesis
    using handles_one [OF g(2, 3) _ w'(1), of "[Interested]"] w'(2, 4) by (auto simp: fetches_def)
qed

lemma request_messages_same: "same_sizes t' t \<Longrightarrow> request_messages t' k = request_messages t k"
  by (simp add: request_messages_def request_message_def fun_eq_iff same_sizesD)

lemma fetches_unchoked:
  assumes "fetches env t p file 0 w"
  shows "\<exists>w'. handles env p w [Unchoke] (request_messages t 0) w' \<and> fetches env t p file 0 w' \<and> \<not> flag w' p PEER_CHOKING"
proof -
  have s: "seeding env p file 0 (next_queue (tor w) 0) w" "same_sizes (tor w) t" "flag w p AM_CHOKING"
    using assms by (simp_all add: fetches_def)
  obtain w' where w': "deliver env p Unchoke w = Inr w'" "tor w' = tor w"
      "wire_view p w' = (sent (conn_of w p) @ piece_requests (tor w) 0, (pstate (peers w p))(PEER_CHOKING := False))"
      "seeding env p file 0 (next_queue (tor w') 0) w'"
    using deliver_unchoke [OF s(1)] by blast
  moreover have "awaits_prefix (conn_of w p)" "p < nextPeer w"
    using s(1) by (simp_all add: seeding_def seed_state_def)
  ultimately show ?thesis
    using handles_one [of w p Unchoke env w' "request_messages t 0"] s(2, 3)
    by (auto simp: fetches_def wire_view_def piece_requests_messages request_messages_same)
qed

lemma fetches_piece:
  assumes f: "fetches env t p file k w" "\<not> flag w p PEER_CHOKING" "k < length (pieces t)"
    and fw: "\<And>s d. length d \<le> fwrite_count env s d"
  shows "\<exists>w'. handles env p w (map (block_message k (part t file k)) [0..<block_count (piece_len t k)]) (next_asked t (Suc k) False) w' \<and>
    fetches env t p file (Suc k) w' \<and> \<not> flag w' p PEER_CHOKING"
proof -
  have s: "seeding env p file k (next_queue (tor w) k) w" "same_sizes (tor w) t" "flag w p AM_CHOKING"
    using f(1) by (simp_all add: fetches_def)
  note same = same_sizesD [OF s(2)] part_same [OF s(2)]
  obtain w' ns where w': "handles env p w (map (block_message k (part t file k)) [0..<block_count (piece_len t k)]) ns w'"
      "same_sizes (tor w') (tor w)" "replied p (Suc k) w ns w'" "seeding env p file (Suc k) (next_queue (tor w') (Suc k)) w'"
    using seeding_piece [OF s(1) _ _ _ fw, of "[0..<block_count (piece_len t k)]"] f(3) same by (auto simp: lessThan_atLeast0)
  note r = repliedD [OF w'(3)]
  have "next_asked (tor w) (Suc k) b = next_asked t (Suc k) b" for b
    by (simp add: next_asked_def same(1) request_messages_same [OF s(2)])
  then have "ns = next_asked t (Suc k) False"
    using r(2) s(3) f(2) by simp
  with w' r(3, 4) s f(2) show ?thesis
    by (auto simp: fetches_def same_sizes_def)
qed

section \<open>A piece is asked for, sent and stored\<close>

definition sharing :: "env \<Rightarrow> env \<Rightarrow> torrent \<Rightarrow> nat \<Rightarrow> nat \<Rightarrow> buffer \<Rightarrow> nat \<Rightarrow> link \<Rightarrow> bool" where
  "sharing env_a env_b t p q file k l \<longleftrightarrow>
     fetches env_a t p file k (side_a l) \<and> \<not> flag (side_a l) p PEER_CHOKING \<and>
     serving env_b t file q (side_b l) \<and> flag (side_b l) q PEER_INTERESTED \<and> \<not> flag (side_b l) q AM_CHOKING \<and>
     to_a l = [] \<and> to_b l = stream_of (if k < length (pieces t) then request_messages t k else [])"

text \<open>Two turns for every message: a request and a block each, and that the next piece is wanted.\<close>

definition piece_turns :: "torrent \<Rightarrow> nat \<Rightarrow> nat" where
  "piece_turns t k = 4 * block_count (piece_len t k) + (if Suc k < length (pieces t) then 2 else 0)"

lemma b_hears:
  assumes "serving env_b t file q (side_b l)" "flag (side_b l) q PEER_INTERESTED" "\<not> flag (side_b l) q AM_CHOKING"
    and "to_b l = encode_msg Interested @ rest"
  shows "\<exists>l'. takes (turn_a env_a p) (turn_b env_b q) l 2 l' \<and> serving env_b t file q (side_b l') \<and>
    flag (side_b l') q PEER_INTERESTED \<and> \<not> flag (side_b l') q AM_CHOKING \<and>
    side_a l' = side_a l \<and> to_a l' = to_a l \<and> to_b l' = rest"
proof -
  obtain w where w: "handles env_b q (side_b l) [Interested] [] w" "serving env_b t file q w"
      "flag w q PEER_INTERESTED" "\<not> flag w q AM_CHOKING"
    using serve_interested [OF assms(1)] assms(3) by auto
  from b_handles [OF w(1) refl, of rest env_a p] assms(4) w(2-4) show ?thesis
    by auto
qed

lemma sharing_round:
  assumes s: "sharing env_a env_b t p q file k l" and k: "k < length (pieces t)"
    and fw: "\<And>s d. length d \<le> fwrite_count env_a s d"
  shows "\<exists>l'. takes (turn_a env_a p) (turn_b env_b q) l (piece_turns t k) l' \<and> sharing env_a env_b t p q file (Suc k) l'"
proof -
  let ?bs = "[0..<block_count (piece_len t k)]" and ?takes = "takes (turn_a env_a p) (turn_b env_b q)"
  have a: "fetches env_a t p file k (side_a l)" "\<not> flag (side_a l) p PEER_CHOKING"
    and b: "serving env_b t file q (side_b l)" "flag (side_b l) q PEER_INTERESTED" "\<not> flag (side_b l) q AM_CHOKING"
    and io: "to_a l = []" "to_b l = stream_of (map (request_message t k) ?bs) @ []"
    using s k by (simp_all add: sharing_def request_messages_def)
  have "set ?bs \<subseteq> {..<block_count (piece_len t k)}"
    by auto
  then obtain v where v: "handles env_b q (side_b l) (map (request_message t k) ?bs) (map (block_message k (part t file k)) ?bs) v"
      "serving env_b t file q v" "flag v q PEER_INTERESTED" "\<not> flag v q AM_CHOKING"
    using serve_requests [OF b k] by blast
  define l1 where "l1 = l\<lparr>side_b := v, to_b := [], to_a := stream_of (map (block_message k (part t file k)) ?bs)\<rparr>"
  have t1: "?takes l (2 * length ?bs) l1"
    using b_handles [OF v(1) refl io(2)] io(1) by (simp add: l1_def)
  obtain w where w: "handles env_a p (side_a l) (map (block_message k (part t file k)) ?bs) (next_asked t (Suc k) False) w"
      "fetches env_a t p file (Suc k) w" "\<not> flag w p PEER_CHOKING"
    using fetches_piece [OF a k fw] by blast
  define l2 where "l2 = l1\<lparr>side_a := w, to_a := [], to_b := stream_of (next_asked t (Suc k) False)\<rparr>"
  have t2: "?takes l1 (2 * length ?bs) l2"
    using a_handles [OF w(1), of l1 "[]"] by (simp add: l1_def l2_def)
  have l2: "side_a l2 = w" "side_b l2 = v" "to_a l2 = []" "to_b l2 = stream_of (next_asked t (Suc k) False)"
    by (simp_all add: l2_def l1_def)
  have t12: "?takes l (4 * block_count (piece_len t k)) l2"
    using takes_add [OF t1 t2] by simp
  show ?thesis
  proof (cases "Suc k < length (pieces t)")
    case False
    then show ?thesis
      using t12 l2 v w by (auto simp: sharing_def piece_turns_def next_asked_def)
  next
    case True
    then obtain l3 where l3: "?takes l2 2 l3" "serving env_b t file q (side_b l3)" "flag (side_b l3) q PEER_INTERESTED"
        "\<not> flag (side_b l3) q AM_CHOKING" "side_a l3 = w" "to_a l3 = []" "to_b l3 = stream_of (request_messages t (Suc k))"
      using b_hears [of env_b t "file" q l2 "stream_of (request_messages t (Suc k))" env_a p] v l2
      by (auto simp: next_asked_def)
    have "?takes l (piece_turns t k) l3"
      using takes_add [OF t12 l3(1)] True by (simp add: piece_turns_def)
    with l3(2-) w True show ?thesis
      by (auto simp: sharing_def)
  qed
qed

lemma sharing_rounds:
  assumes s: "sharing env_a env_b t p q file 0 l" and fw: "\<And>s d. length d \<le> fwrite_count env_a s d"
  shows "k \<le> length (pieces t) \<Longrightarrow> \<exists>l'. takes (turn_a env_a p) (turn_b env_b q) l (\<Sum>i<k. piece_turns t i) l' \<and>
    sharing env_a env_b t p q file k l'"
proof (induction k)
  case 0
  with s show ?case by auto
next
  case (Suc k)
  then obtain l1 where "takes (turn_a env_a p) (turn_b env_b q) l (\<Sum>i<k. piece_turns t i) l1" "sharing env_a env_b t p q file k l1"
    by auto
  with sharing_round [OF this(2) _ fw] Suc.prems takes_add show ?case
    by fastforce
qed

lemma rounds_turns: "0 < length (pieces t) \<Longrightarrow> (\<Sum>i<length (pieces t). piece_turns t i) =
    2 * (length (pieces t) - 1) + 4 * (\<Sum>i<length (pieces t). block_count (piece_len t i))"
proof -
  assume "0 < length (pieces t)"
  then obtain m where m: "length (pieces t) = Suc m"
    using gr0_implies_Suc by blast
  have "(\<Sum>i<m. if i < m then 2 else (0 :: nat)) = (\<Sum>i<m. 2)"
    by (rule sum.cong) simp_all
  then show ?thesis
    by (simp add: m piece_turns_def sum.distrib sum_distrib_left)
qed

text \<open>When there is nothing left to ask for, neither client has a turn.\<close>

lemma sharing_rest:
  assumes "sharing env_a env_b t p q file (length (pieces t)) l"
  shows "at_rest (turn_a env_a p) (turn_b env_b q) l" "isFullyDownloaded (tor (side_a l))"
    "take (length file) (contents (disk (side_a l))) = file"
proof -
  have s: "seeding env_a p file (length (pieces t)) (next_queue (tor (side_a l)) (length (pieces t))) (side_a l)"
      "same_sizes (tor (side_a l)) t" "awaits_prefix (conn_of (side_b l) q)" "to_a l = []" "to_b l = []"
    using assms by (simp_all add: sharing_def fetches_def serving_def)
  have n: "length (pieces (tor (side_a l))) = length (pieces t)"
    by (rule same_sizesD(1) [OF s(2)])
  then have d: "seeding env_a p file (length (pieces (tor (side_a l)))) [] (side_a l)"
    using s(1) by (simp add: next_queue_def)
  show "isFullyDownloaded (tor (side_a l))" "take (length file) (contents (disk (side_a l))) = file"
    using seeding_contents [OF d] by simp_all
  have "awaits_prefix (conn_of (side_a l) p)"
    using d by (simp add: seeding_def)
  then show "at_rest (turn_a env_a p) (turn_b env_b q) l"
    using s(3-5) by (simp add: at_rest_def turn_a_def turn_b_alt read_turn_def awaits_prefix_def)
qed

section \<open>From the connection to the last piece\<close>

lemma sharing_starts:
  assumes a: "greeted env_a t p (side_a l)" "newly_met p (side_a l)" "pieces t = map new_piece hs" "file_of env_a t file"
    and b: "serving env_b t file q (side_b l)" "flag (side_b l) q AM_CHOKING"
    and io: "to_a l = encode_msg (full_bitfield t)" "to_b l = []"
  shows "\<exists>l'. takes (turn_a env_a p) (turn_b env_b q) l 6 l' \<and> sharing env_a env_b t p q file 0 l'"
proof -
  let ?takes = "takes (turn_a env_a p) (turn_b env_b q)"
  have n: "0 < length (pieces t)"
    using geometryD(1) [OF client_invD(3) [OF servingD(1) [OF b(1)]]] same_sizesD(1) [OF servingD(3) [OF b(1)]]
    by (auto simp: wf_sizes_def)
  obtain w where w: "handles env_a p (side_a l) [full_bitfield t] [Interested] w" "fetches env_a t p file 0 w"
    using fetches_start [OF a] by blast
  define l1 where "l1 = l\<lparr>side_a := w, to_a := [], to_b := stream_of [Interested]\<rparr>"
  have t1: "?takes l (2 * 1) l1"
    using a_handles [OF w(1) refl, of "[]"] io by (simp add: l1_def)
  obtain v where v: "handles env_b q (side_b l) [Interested] [Unchoke] v" "serving env_b t file q v"
      "flag v q PEER_INTERESTED" "\<not> flag v q AM_CHOKING"
    using serve_interested [OF b(1)] b(2) by auto
  define l2 where "l2 = l1\<lparr>side_b := v, to_b := [], to_a := stream_of [Unchoke]\<rparr>"
  have t2: "?takes l1 (2 * 1) l2"
    using b_handles [OF v(1), of l1 "[]"] by (simp add: l1_def l2_def)
  obtain u where u: "handles env_a p w [Unchoke] (request_messages t 0) u" "fetches env_a t p file 0 u" "\<not> flag u p PEER_CHOKING"
    using fetches_unchoked [OF w(2)] by blast
  define l3 where "l3 = l2\<lparr>side_a := u, to_a := [], to_b := stream_of (request_messages t 0)\<rparr>"
  have "?takes l2 (2 * 1) l3"
    using a_handles [OF u(1), of l2 "[]"] by (simp add: l1_def l2_def l3_def)
  with takes_add [OF t1 takes_add [OF t2]] have "?takes l 6 l3"
    by fastforce
  moreover have "sharing env_a env_b t p q file 0 l3"
    using n u(2, 3) v(2-4) by (simp add: sharing_def l3_def l2_def l1_def)
  ultimately show ?thesis
    by blast
qed

text \<open>The number of turns a download takes, the two handshakes and the first messages included.\<close>

definition sharing_turns :: "torrent \<Rightarrow> nat" where
  "sharing_turns t =
     8 + 2 * (length (pieces t) - 1) + 4 * (\<Sum>i<length (pieces t). block_count (piece_len t i))"

lemma link_shares:
  assumes a: "swarm_inv env_a wa" "peers wa p = dialling e" "p < nextPeer wa" "accepted wa = []" "same_sizes (tor wa) t"
      "pieces (tor wa) = pieces t" "pieces t = map new_piece hs"
    and b: "swarm_inv env_b wb" "isFullyDownloaded (tor wb)" "same_sizes (tor wb) t"
    and f: "file_of env_a t file" "file = take (unat (totalSize t)) (contents (disk wb))"
    and h: "length (handshake (tor wa)) = 68" "\<not> handshake_mismatch (handshake (tor wb)) (handshake (tor wa)) 68"
      "length (handshake (tor wb)) = 68" "\<not> handshake_mismatch (handshake (tor wa)) (handshake (tor wb)) 68"
    and fw: "\<And>s d. length d \<le> fwrite_count env_a s d"
  shows "\<exists>l. takes (turn_a env_a p) (turn_b env_b (nextPeer wb)) (link_up p ip_a ip_b wa wb) (sharing_turns t) l \<and>
    sharing env_a env_b t p (nextPeer wb) file (length (pieces t)) l"
proof -
  let ?takes = "takes (turn_a env_a p) (turn_b env_b (nextPeer wb))"
  define l0 where "l0 = link_up p ip_a ip_b wa wb"
  have l0: "side_b l0 = on_accepted (Some ip_a) wb" "side_a l0 = on_connect_done (Some ip_b) p (on_resolved p wa)"
      "to_a l0 = []" "to_b l0 = handshake (tor wa)"
    using link_up_simps [OF dialling_conn(2, 3) [OF a(2)]] by (simp_all add: l0_def)
  have "length file = unat (totalSize t)"
    using f(1) by (simp add: file_of_def)
  then obtain v where v: "read_turn env_b (nextPeer wb) (on_accepted (Some ip_a) wb) (handshake (tor wa) @ []) =
        Some (v, [], handshake (tor wb) @ encode_msg (full_bitfield t))"
      "serving env_b t file (nextPeer wb) v" "flag v (nextPeer wb) AM_CHOKING"
    using seed_accepts [OF b f(2) _ h(1, 2)] by blast
  define l1 where "l1 = l0\<lparr>side_b := v, to_b := [], to_a := handshake (tor wb) @ encode_msg (full_bitfield t)\<rparr>"
  have t1: "turn_b env_b (nextPeer wb) l0 = Some l1"
    using v(1) l0 by (simp add: turn_b_alt l1_def)
  obtain u where u: "read_turn env_a p (side_a l0) (handshake (tor wb) @ encode_msg (full_bitfield t)) =
        Some (u, encode_msg (full_bitfield t), [])" "greeted env_a t p u" "newly_met p u"
    using leecher_connects [OF a(1-6) h(3, 4) l0(2)] by blast
  define l2 where "l2 = l1\<lparr>side_a := u, to_a := encode_msg (full_bitfield t)\<rparr>"
  have t2: "turn_a env_a p l1 = Some l2"
    using u(1) by (simp add: turn_a_def l1_def l2_def)
  obtain l3 where l3: "?takes l2 6 l3" "sharing env_a env_b t p (nextPeer wb) file 0 l3"
    using sharing_starts [of env_a t p l2 hs "file" env_b "nextPeer wb"] u(2, 3) v(2, 3) a(7) f(1) by (auto simp: l2_def l1_def)
  obtain l where l: "?takes l3 (\<Sum>i<length (pieces t). piece_turns t i) l" "sharing env_a env_b t p (nextPeer wb) file (length (pieces t)) l"
    using sharing_rounds [OF l3(2) fw, of "length (pieces t)"] by blast
  have "0 < length (pieces t)"
    using geometryD(1) [OF client_invD(3) [OF swarm_invD(1) [OF a(1)]]] a(6) by (simp add: wf_sizes_def)
  then have "sharing_turns t = 2 + (6 + (\<Sum>i<length (pieces t). piece_turns t i))"
    by (simp add: sharing_turns_def rounds_turns)
  moreover have "?takes l0 2 l2"
    using t1 t2 by (auto simp: numeral_2_eq_2 takes_Suc)
  ultimately show ?thesis
    using takes_add [OF _ takes_add [OF l3(1) l(1)]] l(2) unfolding l0_def by metis
qed

section \<open>A client that has the file dials\<close>

lemma seed_hears_bitfield:
  assumes "awaits_prefix (conn_of w p)" "p < nextPeer w" "isFullyDownloaded (tor w)"
    and "0 < length bs" "length bs < 4294967295"
  shows "\<exists>w'. handles env p w [Bitfield bs] [] w' \<and> awaits_prefix (conn_of w' p)"
proof -
  let ?m = "Bitfield bs" and ?w = "body_arrived p (5 # bs) w"
  define v where "v = upd_peer p (\<lambda>r. r\<lparr>hasPieceIndexes := hasPieceIndexes r @
    bitfield_scan (getTotalPieces (tor w)) 0 bs\<rparr>) ?w"
  have u: "unat (of_nat (length bs) :: u64) = length bs"
    using assms(5) by (intro unat_of_nat_u64) simp
  then have "\<not> (of_nat (length bs) :: u64) < 1"
    using assms(4) by (simp add: word_less_nat_alt)
  then have run: "message_case env p (message_id ?m) (incoming_of ?m) ?w = Inr (Break v)"
    using assms(3) u by (simp add: message_case_def on_bitfield_def Let_def v_def del: One_nat_def)
  have v: "isConnected p v" "inputStream (conn_of v p) = 5 # bs"
    using assms(1) by (simp_all add: v_def body_arrived_def awaits_prefix_def isConnected_def)
  have "deliver env p ?m w = Inr (await_prefix p v)"
    using deliver_break [OF assms(1) _ , of ?m env v] assms(5) run v by simp
  moreover have "sent (conn_of (await_prefix p v) p) = sent (conn_of w p)"
    by (simp add: await_prefix_def v_def body_arrived_def)
  ultimately show ?thesis
    using handles_one [OF assms(1, 2), of ?m env "await_prefix p v" "[]"] assms(5) v(1) by auto
qed

lemma link_idle:
  assumes a: "swarm_inv env_a wa" "stage (conn_of wa p) = Resolving" "connCB (conn_of wa p)" "p < nextPeer wa" "isFullyDownloaded (tor wa)"
    and b: "swarm_inv env_b wb"
    and h: "length (handshake (tor wa)) = 68" "\<not> handshake_mismatch (handshake (tor wb)) (handshake (tor wa)) 68"
      "length (handshake (tor wb)) = 68" "\<not> handshake_mismatch (handshake (tor wa)) (handshake (tor wb)) 68"
  shows "\<exists>l. takes (turn_a env_a p) (turn_b env_b (nextPeer wb)) (link_up p ip_a ip_b wa wb) 4 l \<and>
    at_rest (turn_a env_a p) (turn_b env_b (nextPeer wb)) l \<and>
    sent (conn_of (side_b l) (nextPeer wb)) = [handshake (tor wb), encode_msg (Bitfield (getRawBitfield (tor wb)))] \<and>
    pieceQueue (peers (side_b l) (nextPeer wb)) = [] \<and> hasPieceIndexes (peers (side_b l) (nextPeer wb)) = [] \<and>
    pieces (tor (side_b l)) = pieces (tor wb)"
proof -
  let ?q = "nextPeer wb" and ?takes = "takes (turn_a env_a p) (turn_b env_b (nextPeer wb))"
  let ?bf = "Bitfield (getRawBitfield (tor wb))"
  define l0 where "l0 = link_up p ip_a ip_b wa wb"
  have i: "inputStream (conn_of wa p) = []"
    using conn_invD(3) [OF conns_invD [OF swarm_invD(2) [OF a(1)]]] a(2) by blast
  note c = made_connection [OF a(3) i refl, of ip_b] and d = accepted_connection [where w = wb and a = ip_a, OF refl]
  have l0: "side_b l0 = on_accepted (Some ip_a) wb" "side_a l0 = on_connect_done (Some ip_b) p (on_resolved p wa)"
      "to_a l0 = []" "to_b l0 = handshake (tor wa)"
    using link_up_simps [OF a(3) i] by (simp_all add: l0_def)
  obtain v where v: "read_turn env_b ?q (on_accepted (Some ip_a) wb) (handshake (tor wa) @ []) =
        Some (v, [], handshake (tor wb) @ encode_msg ?bf)" "agreed ?q (on_accepted (Some ip_a) wb) v"
      "sent (conn_of v ?q) = [handshake (tor wb), encode_msg ?bf]"
    using accepts_turn [OF h(1, 2)] by blast
  define l1 where "l1 = l0\<lparr>side_b := v, to_b := [], to_a := handshake (tor wb) @ encode_msg ?bf\<rparr>"
  have t1: "turn_b env_b ?q l0 = Some l1"
    using v(1) l0 by (simp add: turn_b_alt l1_def)
  obtain u where u: "read_turn env_a p (side_a l0) (handshake (tor wb) @ encode_msg ?bf) = Some (u, encode_msg ?bf, [])"
      "agreed p (side_a l0) u" "core u = core wa"
    using connects_turn [OF a(3) i h(3, 4) l0(2)] by blast
  define l2 where "l2 = l1\<lparr>side_a := u, to_a := encode_msg ?bf\<rparr>"
  have t2: "turn_a env_a p l1 = Some l2"
    using u(1) by (simp add: turn_a_def l1_def l2_def)
  have g: "geometry_ok (tor wb)" and m: "length (bitfield (tor wb)) = length (pieces (tor wb))"
    using client_invD(3) marksD(1) client_invD(4) swarm_invD(1) [OF b] by blast+
  have "0 < length (pieces (tor wb))" "length (pieces (tor wb)) \<le> 2 ^ 32"
    using geometryD(1, 3) [OF g] by (simp_all add: wf_sizes_def pieces_fit_def)
  then have len: "0 < length (getRawBitfield (tor wb))" "length (getRawBitfield (tor wb)) < 4294967295"
    unfolding length_getRawBitfield m by (simp_all add: div_greater_zero_iff Suc_leI)
  have "awaits_prefix (conn_of u p)" "p < nextPeer u" "isFullyDownloaded (tor u)"
    using u(2, 3) a(4, 5) l0(2) c(9) by (simp_all add: agreed_def core_def isFullyDownloaded_def)
  from seed_hears_bitfield [OF this len] obtain x where x: "handles env_a p u [?bf] [] x" "awaits_prefix (conn_of x p)"
    by blast
  define l3 where "l3 = l2\<lparr>side_a := x, to_a := [], to_b := []\<rparr>"
  have "?takes l2 (2 * 1) l3"
    using a_handles [OF x(1), of l2 "[]" env_b ?q] by (simp add: l2_def l1_def l3_def)
  moreover have "?takes l0 2 l2"
    using t1 t2 by (auto simp: numeral_2_eq_2 takes_Suc)
  ultimately have "?takes l0 4 l3"
    using takes_add by fastforce
  moreover have "at_rest (turn_a env_a p) (turn_b env_b ?q) l3"
    using x(2) v(2) by (simp add: at_rest_def turn_a_def turn_b_alt read_turn_def awaits_prefix_def agreed_def l3_def l2_def l1_def)
  moreover have "side_b l3 = v"
    by (simp add: l3_def l2_def l1_def)
  moreover have "pieceQueue (peers v ?q) = []" "hasPieceIndexes (peers v ?q) = []" "pieces (tor v) = pieces (tor wb)"
    using v(2) d(5, 6, 13) by (simp_all add: agreed_def core_def fun_eq_iff)
  ultimately show ?thesis
    using v(3) unfolding l0_def by auto
qed

section \<open>Two clients of the same torrent file\<close>

lemma same_torrent:
  assumes "client_run env lib fs dir md es w" "client_run env' lib fs' dir' md es' w'" "sha1_digest env' = sha1_digest env"
  shows "length (handshake (tor w)) = 68" "\<not> handshake_mismatch (handshake (tor w')) (handshake (tor w)) 68"
  using same_info_hash(1) [OF assms(3), of lib dir' md dir] same_info_hash(2) [OF assms(3), of lib dir md]
  unfolding client_run_handshake [OF assms(1)] client_run_handshake [OF assms(2)] by simp_all

lemma seed_file:
  assumes r: "client_run env lib fs dir md es w" "isFullyDownloaded (tor w)" "full_length w"
    and t: "map hash (pieces t) = m_hashes md" "same_sizes (tor w) t" and d: "sha1_digest env' = sha1_digest env"
  shows "file_of env' t (take (unat (totalSize t)) (contents (disk w)))"
proof -
  let ?f = "take (unat (totalSize t)) (contents (disk w))"
  note full = full_file [OF client_invD(1) [OF swarm_invD(1) [OF client_run_inv [OF r(1)]]] r(3, 2)]
  have n: "length (pieces (tor w)) = length (pieces t)" "totalSize (tor w) = totalSize t"
    using t(2) by (simp_all add: same_sizes_def)
  have len: "length ?f = unat (totalSize t)"
    using full(3) n(2) by simp
  have "digest_bytes env' (part t ?f i) = hash (pieces t ! i)" if i: "i < length (pieces t)" for i
  proof -
    have "piece_begin t i + piece_len t i \<le> unat (totalSize t)"
      using piece_begin_le_end [of "tor w" i] geometryD(1) [OF client_invD(3) [OF swarm_invD(1) [OF client_run_inv [OF r(1)]]]]
        same_sizesD [OF t(2)] i piece_end_le [of t i] by (simp add: piece_len_def)
    then have "part t ?f i = piece_data w i"
      using part_same [OF t(2)] by (simp add: part_def slice_def drop_take min_def)
    moreover have "digest_bytes env (piece_data w i) = hash (pieces (tor w) ! i)"
      using arg_cong [OF full(2), of "\<lambda>xs. xs ! i"] i n(1) by simp
    moreover have "hash (pieces (tor w) ! i) = hash (pieces t ! i)"
      using arg_cong [OF trans [OF client_run_fixed(1) [OF r(1)] t(1) [symmetric]], of "\<lambda>xs. xs ! i"] i n(1) by simp
    ultimately show ?thesis
      by (simp add: digest_bytes_def d)
  qed
  with len show ?thesis
    by (simp add: file_of_def)
qed

lemma clients_share:
  assumes d: "describes lib fs_a md" "sizes_consistent md" "parseFile env_a lib fs_a dir_a Torrent = Inr (SUCCESS, t, d)"
    and p: "p < length (fresh_addresses {} es)"
    and b: "client_run env_b lib fs_b dir_b md evs wb" "isFullyDownloaded (tor wb)" "full_length wb"
    and e: "sha1_digest env_a = sha1_digest env_b" "\<And>s d. length d \<le> fwrite_count env_a s d"
  shows "\<exists>l. takes (turn_a env_a p) (turn_b env_b (nextPeer wb)) (link_up p ip_a ip_b (dialled_world lp t d es) wb) (sharing_turns t) l \<and>
    sharing env_a env_b t p (nextPeer wb) (take (unat (totalSize t)) (contents (disk wb))) (length (pieces t)) l"
proof -
  let ?w = "dialled_world lp t d es"
  note start = parsed_start [OF d]
  have a: "client_run env_a lib fs_a dir_a md [TrackerPeers (compact es), StartAccepting lp True] ?w"
    using d dialled_run [OF start(6, 7)] by (auto simp: client_run_def)
  have w: "peers ?w p = dialling (fresh_addresses {} es ! p)" "p < nextPeer ?w" "accepted ?w = []" "same_sizes (tor ?w) t"
      "pieces (tor ?w) = pieces t"
    using fold_dial(4) [of "fresh_addresses {} es" "start_world t d" p] p
    by (simp_all add: dialled_world_def same_sizes_def fold_dial fold_dial_fixed) (simp_all add: start_world_def)
  have h: "map hash (pieces t) = m_hashes md"
    using client_run_fixed(1) [OF a] w(5) by simp
  have "same_sizes (tor wb) t"
    using client_run_fixed [OF a] client_run_fixed [OF b(1)] w(4) by (simp add: same_sizes_def)
  moreover from seed_file [OF b h this e(1)] have "file_of env_a t (take (unat (totalSize t)) (contents (disk wb)))" .
  ultimately show ?thesis
    using link_shares [OF client_run_inv [OF a] w start(3) client_run_inv [OF b(1)] b(2) _ _ refl
        same_torrent [OF a b(1) e(1) [symmetric]] same_torrent [OF b(1) a e(1)] e(2)] by blast
qed

section \<open>Properties\<close>

text \<open>
  C3: two clients, the first started on a torrent file and told by the tracker of the second one, which
  has the whole file.  Once their connection is made, they exchange the file: after exactly
  \<open>sharing_turns\<close> turns neither has anything to do, the first client has all pieces, and its file is the
  file of the second.  This does not depend on the order in which the two run: whatever turns they have
  taken, at most so many, the missing ones lead to the same end.
\<close>

theorem two_clients_share:
  assumes "describes lib fs_a md" "sizes_consistent md" "parseFile env_a lib fs_a dir_a Torrent = Inr (SUCCESS, t, d)"
    and "p < length (fresh_addresses {} es)"
    and "client_run env_b lib fs_b dir_b md evs wb" "isFullyDownloaded (tor wb)" "full_length wb"
    and "sha1_digest env_a = sha1_digest env_b" "\<And>s d. length d \<le> fwrite_count env_a s d"
    and l0_def: "l0 = link_up p ip_a ip_b (dialled_world lp t d es) wb"
  shows "\<exists>l. at_rest (turn_a env_a p) (turn_b env_b (nextPeer wb)) l \<and> isFullyDownloaded (tor (side_a l)) \<and>
    take (unat (totalSize t)) (contents (disk (side_a l))) = take (unat (totalSize t)) (contents (disk wb)) \<and>
    takes (turn_a env_a p) (turn_b env_b (nextPeer wb)) l0 (sharing_turns t) l \<and>
    (\<forall>m u. takes (turn_a env_a p) (turn_b env_b (nextPeer wb)) l0 m u \<longrightarrow>
       m \<le> sharing_turns t \<and> takes (turn_a env_a p) (turn_b env_b (nextPeer wb)) u (sharing_turns t - m) l)"
proof -
  obtain l where l: "takes (turn_a env_a p) (turn_b env_b (nextPeer wb)) l0 (sharing_turns t) l"
      "sharing env_a env_b t p (nextPeer wb) (take (unat (totalSize t)) (contents (disk wb))) (length (pieces t)) l"
    using clients_share [OF assms(1-9)] unfolding l0_def by blast
  have "length (take (unat (totalSize t)) (contents (disk wb))) = unat (totalSize t)"
    using l(2) by (simp add: sharing_def serving_def)
  with l(1) sharing_rest [OF l(2)] tw.every_schedule [OF _ l(1)] show ?thesis
    by (intro exI [of _ l]) simp
qed

text \<open>
  C23: a client that has the file and dials sends no bit field, so nothing is ever asked of it.  Whatever
  the order in which the two clients run, after four turns neither has anything to do; the client that
  was dialled has sent its handshake and its bit field, no request, and has no piece it had not before.
\<close>

theorem dialling_seed_uploads_nothing:
  assumes "client_run env_a lib fs_a dir_a md es wa" "isFullyDownloaded (tor wa)"
    and "p < nextPeer wa" "stage (conn_of wa p) = Resolving" "connCB (conn_of wa p)"
    and "client_run env_b lib fs_b dir_b md evs wb" "sha1_digest env_a = sha1_digest env_b"
    and l0_def: "l0 = link_up p ip_a ip_b wa wb" and q_def: "q = nextPeer wb"
  shows "\<exists>l. at_rest (turn_a env_a p) (turn_b env_b q) l \<and>
    sent (conn_of (side_b l) q) = [handshake (tor wb), encode_msg (Bitfield (getRawBitfield (tor wb)))] \<and>
    pieceQueue (peers (side_b l) q) = [] \<and> hasPieceIndexes (peers (side_b l) q) = [] \<and>
    pieces (tor (side_b l)) = pieces (tor wb) \<and> takes (turn_a env_a p) (turn_b env_b q) l0 4 l \<and>
    (\<forall>m u. takes (turn_a env_a p) (turn_b env_b q) l0 m u \<longrightarrow> m \<le> 4 \<and> takes (turn_a env_a p) (turn_b env_b q) u (4 - m) l)"
proof -
  obtain l where "takes (turn_a env_a p) (turn_b env_b q) l0 4 l" "at_rest (turn_a env_a p) (turn_b env_b q) l"
      "sent (conn_of (side_b l) q) = [handshake (tor wb), encode_msg (Bitfield (getRawBitfield (tor wb)))]"
      "pieceQueue (peers (side_b l) q) = []" "hasPieceIndexes (peers (side_b l) q) = []" "pieces (tor (side_b l)) = pieces (tor wb)"
    using link_idle [OF client_run_inv [OF assms(1)] assms(4, 5, 3, 2) client_run_inv [OF assms(6)]
        same_torrent [OF assms(1, 6) assms(7) [symmetric]] same_torrent [OF assms(6, 1) assms(7)]]
    unfolding l0_def q_def by blast
  with tw.every_schedule show ?thesis
    by blast
qed

end
