(* ===== verification/Idle_Peer.thy ===== *)
theory Idle_Peer
  imports Honest_Seed
begin

text \<open>
  What becomes of a peer whose piece was finished by somebody else: pieces are chosen only when a bit
  field arrives and when a piece is completed, so a peer with nothing left to send stays unused.
\<close>

section \<open>Handlers that ask for nothing\<close>

text \<open>
  From \<open>w\<close> to \<open>w'\<close> the queue of the peer stays empty, and what it is sent are answers: unchokes and blocks,
  which the message identifier, the fifth byte, tells from requests.
\<close>

definition only_answers :: "nat \<Rightarrow> world \<Rightarrow> world \<Rightarrow> bool" where
  "only_answers pid w w' \<longleftrightarrow>
     (pieceQueue (peers w pid) = [] \<longrightarrow> pieceQueue (peers w' pid) = []) \<and>
     (\<exists>os. sent (conn_of w' pid) = sent (conn_of w pid) @ os \<and> (\<forall>b \<in> set os. b ! 4 \<in> {1, 7}))"

lemma only_answers_refl: "only_answers pid w w"
  by (simp add: only_answers_def)

lemma only_answers_trans: "only_answers pid w v \<Longrightarrow> only_answers pid v w' \<Longrightarrow> only_answers pid w w'"
  by (auto simp: only_answers_def)

lemma only_answers_quiet:
  assumes "only_answers pid w v" "pieceQueue (peers v' pid) = pieceQueue (peers v pid)" "sent (conn_of v' pid) = sent (conn_of v pid)"
  shows "only_answers pid w v'"
  using assms by (simp add: only_answers_def)

lemma only_answers_other [simp]:
  "only_answers pid w (upd_tor f v) = only_answers pid w v" "only_answers pid w (v\<lparr>disk := x\<rparr>) = only_answers pid w v"
  by (simp_all add: only_answers_def)

lemma only_answers_write:
  assumes "b ! 4 \<in> {1, 7}"
  shows "only_answers pid w (conn_write b pid w)"
  using assms by (auto simp: only_answers_def wr.out_put)

lemma answer_ids: "encode_msg m ! 4 = message_id m"
  by (simp add: encode_msg_def nth_append be32.length_enc)

lemma only_answers_sendPieceBlock:
  "holds UNIV (only_answers pid w) (sendPieceBlock i b blk len pid w)"
proof -
  have l: "length (writeAsBE32 x) = 4" for x
    by (rule be32.length_enc)
  show ?thesis
    by (auto simp: sendPieceBlock_def conn_write_out_def out_data_def out_defs l nth_append intro!: only_answers_write)
qed
lemma only_answers_blockRequest:
  "holds UNIV (only_answers pid w) (handleBlockRequest env pid i b len w)"
proof -
  have disc: "only_answers pid w (peer_disconnect pid w)"
    by (rule only_answers_quiet [OF only_answers_refl]) simp_all
  have send: "holds UNIV (only_answers pid w) (sendPieceBlock i b blk len pid v)"
    if "only_answers pid w v" for blk v
    by (rule holds_mono [OF only_answers_sendPieceBlock]) (erule only_answers_trans [OF that])
  show ?thesis
    by (auto simp: handleBlockRequest_def Let_def disc only_answers_refl send split: prod.splits intro!: holds_const)
qed

lemma only_answers_fail: "only_answers pid w (peer_handleError e pid w)"
  by (rule only_answers_quiet [OF only_answers_refl]) simp_all

lemma only_answers_upd:
  "(\<And>p. pieceQueue (f p) = pieceQueue p) \<Longrightarrow> (\<And>p. conn (f p) = conn p) \<Longrightarrow> only_answers pid w (upd_peer q f w)"
  by (rule only_answers_quiet [OF only_answers_refl]) simp_all

lemma only_answers_case:
  assumes "mid \<noteq> 5" "pieceQueue (peers w pid) = []"
  shows "holds UNIV (\<lambda>r. only_answers pid w (flow_world r)) (message_case env pid mid m w)"
proof -
  have unchoke: "only_answers pid w (upd_peer pid (set_flag s False) (conn_write [0, 0, 0, 1, 1] pid (upd_peer pid (set_flag s' True) w)))"
    for s s'
    by (rule only_answers_quiet [OF only_answers_trans [OF only_answers_upd only_answers_write]]) simp_all
  have req: "holds UNIV (\<lambda>r. only_answers pid w (flow_world r)) (on_request env pid m w)"
    by (simp add: on_request_def fail_with_def pieceDone_def only_answers_refl only_answers_fail only_answers_blockRequest
        holds_const split_beta)
  have blk: "holds UNIV (\<lambda>r. only_answers pid w (flow_world r)) (on_piece_block env pid m w)"
    by (simp add: on_piece_block_def fail_with_def Let_def assms(2) only_answers_fail holds_const split_beta)
  have hv: "holds UNIV (\<lambda>r. only_answers pid w (flow_world r)) (on_have pid m w)"
    by (simp add: on_have_def fail_with_def only_answers_fail only_answers_refl only_answers_upd holds_const split_beta)
  show ?thesis
    using req blk hv only_answers_fail only_answers_refl assms unchoke
    by (simp add: message_case_def on_choke_def on_unchoke_def on_interested_def on_not_interested_def on_cancel_def fail_with_def
        Let_def only_answers_upd holds_const)
qed

section \<open>Idle for the whole run\<close>

text \<open>
  A peer with an empty queue whose connection is past the handshake; beyond \<open>base\<close> it was only sent answers and
  announcements of pieces (4).
\<close>

definition settled :: "nat \<Rightarrow> world \<Rightarrow> bool" where
  "settled pid w \<longleftrightarrow> pid < nextPeer w \<and> stage (conn_of w pid) = NotConnecting \<and>
     readCB (conn_of w pid) \<noteq> Some Connect_handshake \<and> readCB (conn_of w pid) \<noteq> Some Authenticate_handshake"

definition idle :: "buffer list \<Rightarrow> nat \<Rightarrow> world \<Rightarrow> bool" where
  "idle base pid w \<longleftrightarrow> settled pid w \<and> pieceQueue (peers w pid) = [] \<and>
     (\<exists>os. sent (conn_of w pid) = base @ os \<and> (\<forall>b \<in> set os. b ! 4 \<in> {1, 4, 7}))"

text \<open>The body of a bit field, the only message after which a peer with an empty queue is asked for a piece.\<close>

definition bitfield_arrives :: "nat \<Rightarrow> world \<Rightarrow> event \<Rightarrow> bool" where
  "bitfield_arrives pid w e =
     (case e of Received q bytes \<Rightarrow> q = pid \<and> readCB (conn_of w pid) = Some Handle_body \<and> take 1 bytes = [5] | _ \<Rightarrow> False)"

lemma settled_same:
  assumes "settled pid w" "nextPeer w \<le> nextPeer w'" "readCB (conn_of w' pid) = readCB (conn_of w pid)"
    and "stage (conn_of w' pid) = stage (conn_of w pid) \<or> stage (conn_of w' pid) = NotConnecting"
  shows "settled pid w'"
  using assms by (auto simp: settled_def)

lemma idle_same:
  assumes "idle base pid w" "nextPeer w \<le> nextPeer w'" "readCB (conn_of w' pid) = readCB (conn_of w pid)"
    and "stage (conn_of w' pid) = stage (conn_of w pid) \<or> stage (conn_of w' pid) = NotConnecting"
    and "pieceQueue (peers w' pid) = pieceQueue (peers w pid)" "sent (conn_of w' pid) = sent (conn_of w pid)"
  shows "idle base pid w'"
  using assms settled_same [of pid w w'] by (auto simp: idle_def)

interpretation st: peer_frame "settled pid" q for pid q
  by unfold_locales (auto simp: settled_def conn_read_def conn_write_def conn_close_def setErrorCallback_def)

lemma idle_write:
  assumes "idle base pid w" "b ! 4 \<in> {1, 4, 7} \<or> q \<noteq> pid"
  shows "idle base pid (conn_write b q w)"
proof -
  have "settled pid (conn_write b q w)"
    using assms(1) by (auto simp: idle_def settled_def conn_write_def)
  then show ?thesis
    using assms by (auto simp: idle_def wr.out_put conn_write_def)
qed

lemma idle_frame:
  assumes "q \<noteq> pid"
  shows "peer_frame (idle base pid) q"
proof
  fix w p m
  assume "idle base pid w" "may_write q p w m"
  moreover from this assms have "p = pid \<Longrightarrow> encode_msg m ! 4 = 4"
    by (auto simp: may_write_def answer_ids)
  ultimately show "idle base pid (conn_write (encode_msg m) p w)"
    by (intro idle_write) auto
next
  fix w assume "idle base pid w"
  then show "idle base pid (conn_write (handshake (tor w)) q w)"
    using assms by (simp add: idle_write)
qed (use assms in \<open>auto simp: conn_read_def setErrorCallback_def conn_close_def elim!: idle_same\<close>)

text \<open>The handlers of the peer itself.\<close>

lemma idle_answers: "idle base pid w \<Longrightarrow> only_answers pid w w' \<Longrightarrow> settled pid w' \<Longrightarrow> idle base pid w'"
  by (fastforce simp: idle_def only_answers_def)

lemma idle_on_body:
  assumes w: "idle base pid w" and d: "data \<noteq> []" "hd data \<noteq> 5" and r: "on_body env pid data sz w = Inr w'"
  shows "idle base pid w'"
proof (rule idle_answers [OF w])
  obtain f where f: "message_case env pid (hd data) (IncomingMessage (drop 1 data) (of_nat sz - 1)) w = Inr f"
      "(case f of Return v \<Rightarrow> Inr v | Break v \<Rightarrow> Inr (conn_read 4 Handle pid v)) = (Inr w' :: world res)"
    using r d(1) by (auto simp: on_body_def handleMessage_def of_peek_def peek_def hd_conv_nth)
  have "only_answers pid w (flow_world f)"
    using only_answers_case [OF d(2), of w pid env "IncomingMessage (drop 1 data) (of_nat sz - 1)"] w f(1) by (simp add: idle_def)
  then show "only_answers pid w w'"
    by (rule only_answers_quiet) (use f(2) in \<open>auto simp: flow_world_def conn_read_def split: flow.splits\<close>)
  show "settled pid w'"
    using st.P_on_body [of pid w env pid data sz] w r by (simp add: idle_def)
qed

lemma idle_peer_handle:
  assumes w: "idle base pid w" and r: "peer_handle pid data sz w = Inr w'"
  shows "idle base pid w'"
proof (rule idle_answers [OF w])
  show "only_answers pid w w'"
    using r by (auto simp: peer_handle_def only_answers_fail conn_read_def only_answers_refl
        intro: only_answers_quiet [OF only_answers_refl] split: if_splits)
  show "settled pid w'"
    using st.P_peer_handle [of pid w pid data sz] w r by (simp add: idle_def)
qed

lemma idle_received:
  assumes "swarm_inv env w" "idle base pid w" "enabled (Received q bytes) w" "on_read env q bytes w = Inr w'"
    and "\<not> bitfield_arrives pid w (Received q bytes)"
  shows "idle base pid w'"
proof -
  let ?w1 = "upd_conn q (\<lambda>c. c\<lparr>inputStream := inputStream c @ bytes, reading := None\<rparr>) w"
  have w1: "idle base pid ?w1"
    using assms(2) by (rule idle_same) simp_all
  have c: "conn_inv (conn_of w q)" "reading (conn_of w q) \<noteq> None"
    using conns_invD [OF swarm_invD(2) [OF assms(1)]] assms(3) by simp_all
  then have input: "inputStream (conn_of w q) = []"
    by (auto simp: conn_inv_def reading_ok_def)
  have body: "bytes \<noteq> []" if "readCB (conn_of w q) = Some Handle_body"
    using c assms(3) that by (auto simp: conn_inv_def reading_ok_def)
  have "idle base pid v" if "run_read_cb env cb q bytes (length bytes) ?w1 = Inr v" "readCB (conn_of w q) = Some cb" for cb v
  proof (cases "q = pid")
    case False
    then show ?thesis
      using peer_frame.P_run_read_cb [OF idle_frame w1, of q env cb bytes "length bytes"] that(1) by simp
  next
    case True
    have "hd bytes \<noteq> 5" if "readCB (conn_of w q) = Some Handle_body"
      using assms(5) body [OF that] that True by (cases bytes) (auto simp: bitfield_arrives_def)
    then show ?thesis
      using that True w1 body assms(2)
      by (cases cb) (auto simp: run_read_cb_def idle_def [of _ _ w] settled_def intro: idle_on_body idle_peer_handle)
  qed
  moreover have "idle base pid (upd_conn q (\<lambda>c. c\<lparr>inputStream := x c\<rparr>) v)" if "idle base pid v" for v x
    using that by (rule idle_same) simp_all
  ultimately show ?thesis
    using assms(4) w1 input by (auto simp: on_read_def Let_def split: option.splits)
qed

lemma idle_connect_loop:
  "idle base pid w \<Longrightarrow> holds UNIV (idle base pid) (connect_loop mem sz i w)"
proof (induction mem sz i w rule: connect_loop.induct)
  case (1 mem sz i w)
  have d: "idle base pid (peer_connect h p (nextPeer w) (upd_tor (blacklist ip) (make_peer c w)))" for h p ip c
    using "1.prems"
    by (rule idle_same)
      (use "1.prems" in \<open>auto simp: idle_def settled_def peer_connect_def conn_connect_def setErrorCallback_def make_peer_def\<close>)
  show ?case
  proof (cases "readAsLE32 (drop i mem)")
    case None
    then show ?thesis using "1.prems" by (subst connect_loop.simps) simp
  next
    case (Some ip)
    show ?thesis
    proof (cases "readAsBE16 (drop (i + 4) mem)")
      case None
      with Some "1.IH"(1, 2) [of ip] "1.prems" show ?thesis
        by (subst connect_loop.simps) (simp add: Let_def)
    next
      case (Some port)
      with \<open>readAsLE32 _ = _\<close> "1.IH"(1, 2) [of ip] "1.IH"(3) [of ip "nextPeer w" "upd_tor (blacklist ip) (make_peer new_connection w)" port]
        "1.prems" show ?thesis
        by (subst connect_loop.simps) (simp add: Let_def d)
    qed
  qed
qed

lemma idle_fold_disconnect: "idle base pid w \<Longrightarrow> idle base pid (fold peer_disconnect ps w)"
proof (induction ps arbitrary: w)
  case (Cons p ps)
  have "idle base pid (peer_disconnect p w)"
    using Cons.prems by (rule idle_same) (auto simp: peer_disconnect_def conn_close_def setErrorCallback_def)
  with Cons.IH show ?case by simp
qed simp

lemma idle_conn_handleError: "idle base pid w \<Longrightarrow> idle base pid (conn_handleError ab msg q w)"
  by (erule idle_same)
    (auto simp: conn_handleError_def Let_def peer_handleError_def removePeer_def peer_disconnect_def conn_close_def
      setErrorCallback_def)

lemma net_other:
  "nextPeer (conn_read n cb q w) = nextPeer w" "nextPeer (conn_write b q w) = nextPeer w"
  "p \<noteq> q \<Longrightarrow> peers (conn_read n cb q w) p = peers w p" "p \<noteq> q \<Longrightarrow> peers (conn_write b q w) p = peers w p"
  by (simp_all add: conn_read_def conn_write_def)

lemma idle_step:
  assumes "swarm_inv env w" "idle base pid w" "swarm_step env w e w'" "\<not> bitfield_arrives pid w e"
  shows "idle base pid w'"
proof -
  have e: "enabled e w" "client_step env e w = Inr w'"
    using assms(3) by (auto elim: swarm_stepE)
  have stage: "stage (conn_of w pid) = NotConnecting" "pid < nextPeer w"
    using assms(2) by (simp_all add: idle_def settled_def)
  have upd: "idle base pid (upd_conn q f v)" if "idle base pid v" "\<And>c. readCB (f c) = readCB c" "\<And>c. sent (f c) = sent c"
    "\<And>c. stage (f c) = stage c \<or> stage (f c) = NotConnecting \<or> q \<noteq> pid" for q f v
    using that by (intro idle_same [OF that(1)]) auto
  show ?thesis
  proof (cases e)
    case (Received q bytes)
    then show ?thesis
      using idle_received [OF assms(1, 2)] e assms(4) by simp
  next
    case (Accepted a)
    with e(2) stage have "peers w' pid = peers w pid" "nextPeer w' = nextPeer w + 1"
      by (auto simp: on_accepted_def Let_def peer_authenticate_def setErrorCallback_def make_peer_def net_other)
    with assms(2) show ?thesis
      by (elim idle_same) simp_all
  next
    case (Resolved q)
    with e stage have "q \<noteq> pid" by auto
    with Resolved e(2) assms(2) show ?thesis
      by (auto simp: on_resolved_def intro: upd)
  next
    case (Connected q a)
    with e stage have q: "q \<noteq> pid" by auto
    then have "peers w' pid = peers w pid" "nextPeer w' = nextPeer w"
      using Connected e(2) by (auto simp: on_connect_done_def on_connected_def Let_def net_other)
    with assms(2) show ?thesis
      by (elim idle_same) simp_all
  next
    case (ReadFailed q bytes msg)
    with e(2) assms(2) show ?thesis
      by (auto simp: on_read_error_def intro!: idle_conn_handleError upd)
  next
    case (IoFailed q msg)
    with e(2) assms(2) show ?thesis
      by (auto simp: on_io_error_def intro!: idle_conn_handleError upd)
  next
    case (TrackerPeers info)
    with e(2) show ?thesis
      using idle_connect_loop [OF assms(2), of "info @ [0]" "length info" 0] by (simp add: connectToPeers_def)
  next
    case (StartAccepting p bound)
    with e(2) assms(2) show ?thesis
      by (auto simp: start_accepting_run elim!: idle_same split: if_splits)
  next
    case DownloadDone
    have "idle base pid (if acceptor (tor w) = None then w else upd_tor acceptor_stop w)"
      using assms(2) by (rule idle_same) simp_all
    with DownloadDone e(2) show ?thesis
      by (auto simp: disconnectPeers_def Let_def idle_fold_disconnect)
  qed
qed

text \<open>A run in which no bit field of the peer arrives.\<close>

definition silent_step :: "env \<Rightarrow> nat \<Rightarrow> world \<Rightarrow> event \<Rightarrow> world \<Rightarrow> bool" where
  "silent_step env pid w e w' \<longleftrightarrow> swarm_step env w e w' \<and> \<not> bitfield_arrives pid w e"

text \<open>Receiving does not start a connection.\<close>

lemma on_read_settled:
  assumes "settled pid w" "on_read env q bytes w = Inr w'"
  shows "settled pid w'"
proof -
  let ?w1 = "upd_conn q (\<lambda>c. c\<lparr>inputStream := inputStream c @ bytes, reading := None\<rparr>) w"
  have w1: "settled pid ?w1"
    using assms(1) by (rule settled_same) simp_all
  have "settled pid v" if "run_read_cb env cb q data sz ?w1 = Inr v" for cb data sz v
    using st.P_run_read_cb [OF w1, where q = q and env = env and cb = cb and data = data and sz = sz] that by simp
  moreover have "settled pid (upd_conn q (\<lambda>c. c\<lparr>inputStream := x c\<rparr>) v)" if "settled pid v" for x v
    using that by (rule settled_same) simp_all
  ultimately show ?thesis
    using assms(2) w1 by (auto simp: on_read_def Let_def split: option.splits)
qed

lemma deliver_settled: "settled pid w \<Longrightarrow> deliver env q m w = Inr v \<Longrightarrow> settled pid v"
  by (auto simp: deliver_def intro: on_read_settled)

interpretation idl: kept_by_steps "silent_step env pid" "\<lambda>w. swarm_inv env w \<and> idle base pid w" for env pid base
  by unfold_locales (auto simp: silent_step_def intro: idle_step sw.keeps)

section \<open>A block that comes too late\<close>

lemma late_block_run:
  assumes inv: "client_inv env w" and w: "awaits_prefix (conn_of w pid)" and q: "pieceQueue (peers w pid) = [q]" "index q = i"
    and fin: "finished (pieces (tor w) ! i)" and data: "length data = piece_len (tor w) i" "k < block_count (piece_len (tor w) i)"
  shows "\<exists>w'. deliver env pid (block_message i data k) w = Inr w' \<and> client_inv env w' \<and> awaits_prefix (conn_of w' pid) \<and>
    pieceQueue (peers w' pid) = [] \<and> tor w' = tor w \<and> errlog w' = errlog w \<and>
    sent (conn_of w' pid) = sent (conn_of w pid) @ piece_cancels (tor w) i"
proof -
  let ?m = "block_message i data k"
  let ?w = "body_arrived pid (message_id ?m # payload ?m) w"
  note geo = geometryD [OF client_invD(3) [OF inv]]
  have ok: "qpiece_ok (tor w) q"
    using queues_okD [OF client_invD(2) [OF inv], of q pid] q(1) by simp
  then have i: "i < length (pieces (tor w))" and tot: "\<not> totalBlocks q \<le> k"
    using q(2) data(2) by (simp_all add: qpiece_ok_def)
  define v where "v = upd_queue (remove_at 0) pid (wr.put_all (piece_cancels (tor w) i) pid ?w)"
  have c: "isConnected pid ?w"
    using w by (simp add: body_arrived_def isConnected_def awaits_prefix_def)
  have "sendCancelRequest q pid ?w = Inr (wr.put_all (piece_cancels (tor w) i) pid ?w)"
    using sendCancelRequest_run [of ?w q pid] geo(1) i q(2) by simp
  moreover have "pieceDone (tor w) i = Inr True"
    using i fin by (simp add: pieceDone_def peek_def)
  ultimately have "receive_block env pid i data k ?w = Inr (Break v)"
    using receive_block_cases [OF unat_index [OF geo(3) i] data(1) piece_len_32 [OF client_invD(3) [OF inv]] data(2), of env pid ?w] q tot
    by (simp add: Let_def v_def)
  then have run: "message_case env pid (message_id ?m) (incoming_of ?m) ?w = Inr (Break v)"
    by (simp add: message_case_block)
  note hush = hush_eqD [OF wr.rest_put_all [of "piece_cancels (tor w) i" pid ?w]]
  have view: "conn_view pid v = conn_view pid ?w"
    using conn_view_hush [OF wr.rest_put_all] by (simp add: v_def)
  have v: "isConnected pid v" "inputStream (conn_of v pid) = message_id ?m # payload ?m"
      "pieceQueue (peers v pid) = []" "tor v = tor w" "errlog v = errlog w"
      "sent (conn_of v pid) = sent (conn_of w pid) @ piece_cancels (tor w) i"
    using hush(1, 3, 6, 10) c q(1) stream_view [OF view] by (simp_all add: v_def remove_at_def wr.out_put_all)
      (simp add: body_arrived_def)
  have d: "deliver env pid ?m w = Inr (await_prefix pid v)"
    using deliver_break [OF w length_block_message run] view by blast
  have "sent (conn_of (await_prefix pid v) pid) = sent (conn_of v pid)"
    by (simp add: await_prefix_def)
  with d deliver_inv [OF inv w length_block_message d] v show ?thesis
    by simp
qed

section \<open>A block nobody asked for\<close>

lemma find_pos_None: "find_pos P xs = None \<longleftrightarrow> (\<forall>x \<in> set xs. \<not> P x)"
  by (induction xs) auto

lemma unasked_block_run:
  assumes inv: "client_inv env w" and w: "awaits_prefix (conn_of w pid)" and i: "i < length (pieces (tor w))"
    and q: "i \<notin> index ` set (pieceQueue (peers w pid))" and data: "length data = piece_len (tor w) i" "k < block_count (piece_len (tor w) i)"
  shows "\<exists>w'. deliver env pid (block_message i data k) w = Inr w' \<and> \<not> isConnected pid w' \<and>
    errlog w' = errlog w @ [(pid, NotAskedFor (of_nat i))]"
proof -
  let ?m = "block_message i data k"
  let ?w = "body_arrived pid (message_id ?m # payload ?m) w"
  note geo = client_invD(3) [OF inv]
  have "find_pos (\<lambda>p. index p = i) (pieceQueue (peers ?w pid)) = None"
    using q by (auto simp: find_pos_None)
  then have "receive_block env pid i data k ?w = fail_with (NotAskedFor (of_nat i)) pid ?w"
    using receive_block_cases [OF unat_index [OF geometryD(3) [OF geo] i] data(1) piece_len_32 [OF geo] data(2), of env pid ?w] by simp
  then have "message_case env pid (message_id ?m) (incoming_of ?m) ?w = Inr (Return (peer_handleError (NotAskedFor (of_nat i)) pid ?w))"
    by (simp add: message_case_block fail_with_def)
  then have "deliver env pid ?m w = Inr (consume (Suc (length (payload ?m))) pid (peer_handleError (NotAskedFor (of_nat i)) pid ?w))"
    using deliver_handleMessage [OF w length_block_message, of env i data k] by (simp add: handleMessage_def incoming_of_def)
  moreover have "\<not> isConnected pid (consume n pid x)" if "\<not> isConnected pid x" for n x
    using that by (simp add: consume_def isConnected_def)
  ultimately show ?thesis
    by (simp add: consume_def body_arrived_def)
qed

section \<open>Properties\<close>

text \<open>
  C24: a peer can be forgotten.  When the only piece asked of a peer has been finished by somebody else,
  its next block is answered with cancels and the piece leaves its queue, but no other piece is chosen;
  and from then on, in every run of the client, whatever this and all other peers, the tracker and the network do,
  as long as no bit field of this peer arrives, the client never asks it for anything again: its queue stays empty,
  and all it is sent are unchokes, blocks and announcements of pieces.
\<close>

theorem late_block_idles_peer:
  assumes "swarm_inv env w" "pid < nextPeer w" "awaits_prefix (conn_of w pid)" "stage (conn_of w pid) = NotConnecting"
    and "pieceQueue (peers w pid) = [q]" "index q = i" "finished (pieces (tor w) ! i)"
    and "length data = piece_len (tor w) i" "k < block_count (piece_len (tor w) i)"
  shows "\<exists>v. deliver env pid (block_message i data k) w = Inr v \<and>
    (\<forall>fs w'. run (silent_step env pid) v fs w' \<longrightarrow>
       pieceQueue (peers w' pid) = [] \<and>
       (\<exists>os. sent (conn_of w' pid) = sent (conn_of w pid) @ piece_cancels (tor w) i @ os \<and> (\<forall>b \<in> set os. b ! 4 \<in> {1, 4, 7})))"
proof -
  obtain v where v: "deliver env pid (block_message i data k) w = Inr v" "awaits_prefix (conn_of v pid)"
      "pieceQueue (peers v pid) = []" "sent (conn_of v pid) = sent (conn_of w pid) @ piece_cancels (tor w) i"
    using late_block_run [OF swarm_invD(1) [OF assms(1)] assms(3, 5-9)] by blast
  have "run (swarm_step env) w (message_events pid (block_message i data k)) v"
    by (rule deliver_events [OF assms(3, 2) length_block_message v(1)])
  then have inv: "swarm_inv env v"
    using assms(1) by (rule sw.run_keeps)
  have "idle (sent (conn_of v pid)) pid v"
    using v(3) deliver_settled [OF _ v(1), of pid] assms(2-4) by (simp add: idle_def settled_def awaits_prefix_def)
  then have "idle (sent (conn_of v pid)) pid w'" if "run (silent_step env pid) v fs w'" for fs w'
    using idl.run_keeps [OF that] inv by blast
  with v(1, 4) show ?thesis
    by (auto simp: idle_def)
qed

text \<open>
  C25: an honest peer is thrown out.  Two blocks of a piece that somebody else has finished meanwhile,
  both asked for and both on their way: the first one makes the client forget that it has asked, so
  that the second one counts as not asked for; the peer is given up and its connection closed.
\<close>

theorem second_late_block_disconnects:
  assumes "client_inv env w" "awaits_prefix (conn_of w pid)" "pieceQueue (peers w pid) = [q]" "index q = i"
    and "finished (pieces (tor w) ! i)" "length data = piece_len (tor w) i"
    and "k < block_count (piece_len (tor w) i)" "l < block_count (piece_len (tor w) i)"
  shows "\<exists>w'. bind_res (deliver env pid (block_message i data k) w) (deliver env pid (block_message i data l)) = Inr w' \<and>
    \<not> isConnected pid w' \<and> errlog w' = errlog w @ [(pid, NotAskedFor (of_nat i))]"
proof -
  obtain v where v: "deliver env pid (block_message i data k) w = Inr v" "client_inv env v" "awaits_prefix (conn_of v pid)"
      "pieceQueue (peers v pid) = []" "tor v = tor w" "errlog v = errlog w"
    using late_block_run [OF assms(1-7)] by blast
  have "qpiece_ok (tor w) q"
    using queues_okD [OF client_invD(2) [OF assms(1)], of q pid] assms(3) by simp
  then have "i < length (pieces (tor v))"
    using assms(4) v(5) by (simp add: qpiece_ok_def)
  from unasked_block_run [OF v(2, 3) this] v assms(6, 8) show ?thesis
    by simp
qed

end
