(* ===== verification/Choked_Transfer.thy ===== *)
theory Choked_Transfer
  imports Idle_Peer
begin

text \<open>
  A peer that chokes in the middle of a piece.  The requests still open are then void; when the peer
  unchokes, the client asks for the whole piece again, but goes on counting blocks where it was.
\<close>

section \<open>A piece on its way\<close>

text \<open>
  The only piece asked of the peer is \<open>i\<close>, unfinished; after \<open>h\<close> blocks received the blocks in \<open>S\<close> are
  there, with the bytes of \<open>data\<close>.
\<close>

definition getting :: "env \<Rightarrow> nat \<Rightarrow> nat \<Rightarrow> buffer \<Rightarrow> nat set \<Rightarrow> nat \<Rightarrow> world \<Rightarrow> bool" where
  "getting env pid i data S h w \<longleftrightarrow>
     client_inv env w \<and> awaits_prefix (conn_of w pid) \<and> pid < nextPeer w \<and> i < length (pieces (tor w)) \<and>
     \<not> finished (pieces (tor w) ! i) \<and> length data = piece_len (tor w) i \<and>
     pieceQueue (peers w pid) = [partial_qpiece (tor w) i data S h]"

lemma gettingD:
  assumes "getting env pid i data S h w"
  shows "client_inv env w" "awaits_prefix (conn_of w pid)" "pid < nextPeer w" "i < length (pieces (tor w))"
    "\<not> finished (pieces (tor w) ! i)" "length data = piece_len (tor w) i"
    "pieceQueue (peers w pid) = [partial_qpiece (tor w) i data S h]"
  using assms by (simp_all add: getting_def)

lemma body_view:
  assumes "awaits_prefix (conn_of w pid)"
  shows "conn_view pid (body_arrived pid b w) = (True, b, hasPieceIndexes (peers w pid), nextPeer w)"
  using assms by (simp add: conn_view_def awaits_prefix_def) (simp add: body_arrived_def isConnected_def)

text \<open>A message that leaves the torrent alone.\<close>

lemma gettingI:
  assumes g: "getting env pid i data S h w" and m: "length (payload m) < 4294967295"
    and run: "message_case env pid (message_id m) (incoming_of m) (body_arrived pid (message_id m # payload m) w) = Inr (Break v)"
    and v: "conn_view pid v = conn_view pid (body_arrived pid (message_id m # payload m) w)" "tor v = tor w"
      "pieceQueue (peers v pid) = [partial_qpiece (tor w) i data S' h']"
  shows "deliver env pid m w = Inr (await_prefix pid v) \<and> getting env pid i data S' h' (await_prefix pid v)"
proof -
  have d: "deliver env pid m w = Inr (await_prefix pid v)"
    using deliver_break [OF gettingD(2) [OF g] m run] v(1) by blast
  have "isConnected pid v" "nextPeer v = nextPeer w"
    using v(1) body_view [OF gettingD(2) [OF g]] by (simp_all add: conn_view_def)
  with d deliver_inv [OF gettingD(1, 2) [OF g] m d] v(2, 3) gettingD(3-6) [OF g] show ?thesis
    by (simp add: getting_def)
qed

lemma getting_block:
  assumes g: "getting env pid i data S h w" and k: "k < block_count (piece_len (tor w) i)"
    and more: "h + 1 < block_count (piece_len (tor w) i)"
  shows "\<exists>w'. handles env pid w [block_message i data k] [] w' \<and> tor w' = tor w \<and> disk w' = disk w \<and>
    wire_view pid w' = wire_view pid w \<and> getting env pid i data (insert k S) (h + 1) w'"
proof -
  let ?m = "block_message i data k"
  let ?w = "body_arrived pid (message_id ?m # payload ?m) w"
  let ?v = "upd_queue (\<lambda>qs. qs[0 := partial_qpiece (tor w) i data (insert k S) (h + 1)]) pid ?w"
  note w = gettingD [OF g]
  have "fetching pid i 0 (partial_qpiece (tor ?w) i data S h) ?w"
    using w(7) by (simp add: fetching_def)
  then have "receive_block env pid i data k ?w = Inr (Break ?v)"
    using receive_block_run [of pid i 0 ?w data S h k env] w(4-6) geometryD(3) [OF client_invD(3) [OF w(1)]] k more by simp
  moreover have "conn_view pid ?v = conn_view pid ?w"
    by simp
  ultimately have d: "deliver env pid ?m w = Inr (await_prefix pid ?v)"
    and g': "getting env pid i data (insert k S) (h + 1) (await_prefix pid ?v)"
    using gettingI [OF g length_block_message, of i data k ?v "insert k S" "h + 1"] w(7) by (simp_all add: message_case_block)
  have view: "wire_view pid (await_prefix pid ?v) = wire_view pid w"
    by simp
  from handles_one [OF w(2, 3) length_block_message d, of "[]"] view g' show ?thesis
    by (intro exI [of _ "await_prefix pid ?v"]) (simp add: wire_view_def)
qed

lemma getting_blocks:
  assumes "getting env pid i data S h w" "set ks \<subseteq> {..<block_count (piece_len (tor w) i)}"
    and "h + length ks < block_count (piece_len (tor w) i)"
  shows "\<exists>w'. handles env pid w (map (block_message i data) ks) [] w' \<and> tor w' = tor w \<and> disk w' = disk w \<and>
    wire_view pid w' = wire_view pid w \<and> getting env pid i data (S \<union> set ks) (h + length ks) w'"
  using assms
proof (induction ks arbitrary: S h w)
  case Nil
  then show ?case
    using handles.none by fastforce
next
  case (Cons k ks)
  obtain v where v: "handles env pid w [block_message i data k] [] v" "tor v = tor w" "disk v = disk w"
      "wire_view pid v = wire_view pid w" "getting env pid i data (insert k S) (h + 1) v"
    using getting_block [OF Cons.prems(1), of k] Cons.prems(2, 3) by auto
  obtain w' where w': "handles env pid v (map (block_message i data) ks) [] w'" "tor w' = tor v" "disk w' = disk v"
      "wire_view pid w' = wire_view pid v" "getting env pid i data (insert k S \<union> set ks) (h + 1 + length ks) w'"
    using Cons.IH [OF v(5)] Cons.prems(2, 3) v(2) by auto
  show ?case
    using handles_append [OF v(1) w'(1)] w'(2-5) v(2-4) by (intro exI [of _ w']) simp
qed

section \<open>Choke and unchoke\<close>

lemma getting_choke:
  assumes g: "getting env pid i data S h w"
  shows "\<exists>w'. handles env pid w [Choke] [] w' \<and> tor w' = tor w \<and> disk w' = disk w \<and> getting env pid i data S h w'"
proof -
  let ?v = "upd_peer pid (set_flag PEER_CHOKING True) (body_arrived pid [0] w)"
  note w = gettingD [OF g]
  have "conn_view pid ?v = conn_view pid (body_arrived pid [0] w)"
    by (simp add: conn_view_def isConnected_def)
  then have d: "deliver env pid Choke w = Inr (await_prefix pid ?v)" and g': "getting env pid i data S h (await_prefix pid ?v)"
    using gettingI [OF g, of Choke ?v S h] w(7)
    by (simp_all add: message_case_def on_choke_def incoming_of_def IncomingMessage_def getSize_def)
  have "sent (conn_of (await_prefix pid ?v) pid) = sent (conn_of w pid) @ map encode_msg []"
    by (simp add: await_prefix_def body_arrived_def)
  from handles_one [OF w(2, 3) _ d this] g' show ?thesis
    by (intro exI [of _ "await_prefix pid ?v"]) simp
qed

lemma getting_unchoke:
  assumes g: "getting env pid i data S h w"
  shows "\<exists>w'. handles env pid w [Unchoke] (request_messages (tor w) i) w' \<and> tor w' = tor w \<and> disk w' = disk w \<and>
    getting env pid i data S h w' \<and> \<not> flag w' pid PEER_CHOKING"
proof -
  let ?w = "body_arrived pid [1] w"
  let ?w1 = "upd_peer pid (set_flag PEER_CHOKING False) ?w"
  let ?v = "wr.put_all (piece_requests (tor w) i) pid ?w1"
  note w = gettingD [OF g]
  note hush = hush_eqD [OF wr.rest_put_all [of "piece_requests (tor w) i" pid ?w1]]
  have "requestPiece i pid ?w1 = Inr ?v"
    using requestPiece_run [of ?w1 i pid] geometryD(1) [OF client_invD(3) [OF w(1)]] w(4) by simp
  then have run: "message_case env pid (message_id Unchoke) (incoming_of Unchoke) ?w = Inr (Break ?v)"
    using w(7) by (simp add: message_case_def on_unchoke_def incoming_of_def IncomingMessage_def getSize_def Let_def)
  have view: "conn_view pid ?v = conn_view pid ?w"
    using conn_view_hush [OF wr.rest_put_all] by simp
  have d: "deliver env pid Unchoke w = Inr (await_prefix pid ?v)" and g': "getting env pid i data S h (await_prefix pid ?v)"
    using gettingI [OF g, of Unchoke ?v S h] run view hush(1, 6) w(7) by simp_all
  have "isConnected pid ?w1"
    using w(2) by (simp add: awaits_prefix_def isConnected_def body_arrived_def)
  then have wire: "wire_view pid (await_prefix pid ?v) =
      (sent (conn_of w pid) @ map encode_msg (request_messages (tor w) i), (pstate (peers w pid))(PEER_CHOKING := False))"
    by (simp add: wire_view_put_all piece_requests_messages) (simp add: body_arrived_def set_flag_def)
  then have "sent (conn_of (await_prefix pid ?v) pid) = sent (conn_of w pid) @ map encode_msg (request_messages (tor w) i)"
    "\<not> flag (await_prefix pid ?v) pid PEER_CHOKING"
    by (simp_all add: wire_view_def)
  with handles_one [OF w(2, 3) _ d this(1)] g' hush(1, 2) show ?thesis
    by (intro exI [of _ "await_prefix pid ?v"]) simp
qed

text \<open>The first blocks, choke, unchoke, and the first blocks again.\<close>

lemma getting_again:
  assumes g: "getting env pid i data {} 0 w" and m: "h + m < block_count (piece_len (tor w) i)"
  shows "\<exists>w'. handles env pid w (map (block_message i data) [0..<h] @ [Choke] @ [Unchoke] @ map (block_message i data) [0..<m])
      (request_messages (tor w) i) w' \<and> tor w' = tor w \<and> disk w' = disk w \<and> getting env pid i data ({..<h} \<union> {..<m}) (h + m) w'"
proof -
  let ?b = "block_message i data"
  obtain w1 where w1: "handles env pid w (map ?b [0..<h]) [] w1" "tor w1 = tor w" "disk w1 = disk w"
      "getting env pid i data {..<h} h w1"
    using getting_blocks [OF g, of "[0..<h]"] m by (auto simp: atLeast0LessThan)
  obtain w2 where w2: "handles env pid w1 [Choke] [] w2" "tor w2 = tor w" "disk w2 = disk w" "getting env pid i data {..<h} h w2"
    using getting_choke [OF w1(4)] w1(2, 3) by auto
  obtain w3 where w3: "handles env pid w2 [Unchoke] (request_messages (tor w) i) w3" "tor w3 = tor w" "disk w3 = disk w"
      "getting env pid i data {..<h} h w3"
    using getting_unchoke [OF w2(4)] w2(2, 3) by auto
  obtain w4 where w4: "handles env pid w3 (map ?b [0..<m]) [] w4" "tor w4 = tor w" "disk w4 = disk w"
      "getting env pid i data ({..<h} \<union> {..<m}) (h + m) w4"
    using getting_blocks [OF w3(4), of "[0..<m]"] w3(2, 3) m by (auto simp: atLeast0LessThan)
  have "handles env pid w (map ?b [0..<h] @ [Choke] @ [Unchoke] @ map ?b [0..<m]) ([] @ [] @ request_messages (tor w) i @ []) w4"
    by (rule handles_append [OF w1(1) handles_append [OF w2(1) handles_append [OF w3(1) w4(1)]]])
  with w4(2-4) show ?thesis
    by auto
qed

section \<open>The piece is given up\<close>

text \<open>
  The last block by the count, while a block is missing: the digest is wrong, the piece leaves the queue,
  and a piece is chosen anew, the same one or another.
\<close>

lemma getting_wrong:
  assumes g: "getting env pid i data S h w" and k: "k < block_count (piece_len (tor w) i)"
    and last: "h + 1 = block_count (piece_len (tor w) i)" "insert k S = {..<c}" "c \<le> block_count (piece_len (tor w) i)" "0 < c"
    and wrong: "digest_bytes env (take (16384 * c) data) \<noteq> hash (pieces (tor w) ! i)"
  shows "\<exists>w' ns. handles env pid w [block_message i data k] ns w' \<and> same_sizes (tor w') (tor w) \<and> disk w' = disk w \<and>
    \<not> finished (pieces (tor w') ! i) \<and> pieceHashMisses (tor w') = pieceHashMisses (tor w) + 1 \<and>
    client_inv env w' \<and> awaits_prefix (conn_of w' pid) \<and>
    (pieceQueue (peers w' pid) = [] \<or> (\<exists>j. pieceQueue (peers w' pid) = [fresh_qpiece (tor w) j]))"
proof -
  let ?m = "block_message i data k" and ?t = "tor w" and ?d = "take (16384 * c) data"
  let ?w = "body_arrived pid (message_id ?m # payload ?m) w"
  let ?w1 = "upd_queue (\<lambda>qs. qs[0 := partial_qpiece ?t i data {..<c} (h + 1)]) pid ?w"
  define w3 where "w3 = upd_queue (remove_at 0) pid
    (upd_tor (\<lambda>t. t\<lparr>pieceHashMisses := pieceHashMisses t + 1, wastedBytes := wastedBytes t + of_nat (length ?d)\<rparr>) ?w1)"
  note w = gettingD [OF g]
  note geo = geometryD [OF client_invD(3) [OF w(1)]] and marks = client_invD(4) [OF w(1)]
  have "0 < length data"
    using piece_len_pos [OF geo(1) w(4)] w(6) by simp
  then have d: "?d \<noteq> []"
    using last(4) by auto
  have chk: "\<not> checkPieceHash env (tor ?w1) ?d (unat (of_nat i :: u32))"
    using w(4) wrong unat_index [OF geo(3) w(4)] by (simp add: checkPieceHash_def)
  have "completedPieces ?t \<noteq> length (pieces ?t)"
    using isFullyDownloaded_iff [OF marks] w(4, 5) by (auto simp: isFullyDownloaded_def)
  then have run: "receive_block env pid i data k ?w = bind_res (selectPieceAndRequest pid w3) (\<lambda>w4. Inr (Break w4))"
    using receive_block_run [of pid i 0 ?w data S h k env] w k last(1, 2) geo(3) assemble_prefix [of data ?t i c "h + 1"] last(3)
      handlePieceCompleted_mismatch [OF d chk, of pid]
    by (simp add: fetching_def after_piece_def getTotalPieces_def Let_def w3_def)
  have t: "pieces (tor w3) = pieces ?t" "wf_sizes (tor w3)" "pieces_fit (tor w3)" "priorities_ok (pieces (tor w3))"
    and q: "pieceQueue (peers w3 pid) = []" and same: "same_sizes (tor w3) ?t"
    using geo(1, 3) marksD(3) [OF marks] w(7)
    by (simp_all add: w3_def remove_at_def wf_sizes_def pieces_fit_def same_sizes_def)
  have view: "conn_view pid w3 = conn_view pid ?w" "wire_view pid w3 = wire_view pid w" "disk w3 = disk w"
      "pieceHashMisses (tor w3) = pieceHashMisses ?t + 1"
    by (simp_all add: w3_def)
  have con: "isConnected pid w3"
    using view(1) body_view [OF w(2)] by (simp add: conn_view_def)
  obtain v ns where v: "selectPieceAndRequest pid w3 = Inr v" "conn_view pid v = conn_view pid ?w"
      "sent (conn_of v pid) = sent (conn_of w pid) @ map encode_msg ns" "same_sizes (tor v) ?t" "disk v = disk w"
      "\<not> finished (pieces (tor v) ! i)" "pieceHashMisses (tor v) = pieceHashMisses ?t + 1"
      "pieceQueue (peers v pid) = [] \<or> (\<exists>j. pieceQueue (peers v pid) = [fresh_qpiece ?t j])"
  proof -
    consider "selectPieceAndRequest pid w3 = Inr w3" | j where "selectPieceAndRequest pid w3 = Inr (request_best j pid w3)"
      using selectPieceAndRequest_run [OF t(2-4), of pid] by blast
    then show ?thesis
    proof cases
      case 1
      then show ?thesis
        using that [OF 1, of "[]"] view q t(1) w(5) same by (simp add: wire_view_def)
    next
      case (2 j)
      let ?v = "request_best j pid w3"
      let ?ns = "Interested # (if flag w3 pid PEER_CHOKING then [] else request_messages (tor w3) j)"
      have "sent (conn_of ?v pid) = sent (conn_of w pid) @ map encode_msg ?ns"
        using wire_view_request_best [OF con, of j] view(2) by (simp add: wire_view_def piece_requests_messages)
      moreover have "same_sizes (tor ?v) ?t"
        using same by (simp add: request_best_tor same_sizes_def set_priority_def)
      moreover have "pieceQueue (peers ?v pid) = [fresh_qpiece ?t j]"
        using q same_sizesD(4) [OF same] by (simp add: request_best_queue) (simp add: fresh_qpiece_def)
      then have "pieceQueue (peers ?v pid) = [] \<or> (\<exists>j. pieceQueue (peers ?v pid) = [fresh_qpiece ?t j])"
        by blast
      moreover have "\<not> finished (pieces (tor ?v) ! i)" "pieceHashMisses (tor ?v) = pieceHashMisses ?t + 1"
        using view(4) t(1) w(4, 5) by (auto simp: request_best_tor set_priority_misses)
      moreover have "conn_view pid ?v = conn_view pid ?w" "disk ?v = disk w"
        using view conn_view_request_best [of pid j w3] disk_request_best [of j pid w3] by simp_all
      ultimately show ?thesis
        using that [OF 2, of ?ns] by blast
    qed
  qed
  have "message_case env pid (message_id ?m) (incoming_of ?m) ?w = Inr (Break v)"
    using run v(1) by (simp add: message_case_block)
  then have d: "deliver env pid ?m w = Inr (await_prefix pid v)"
    using deliver_break [OF w(2) length_block_message] v(2) by blast
  have c: "isConnected pid v"
    using v(2) body_view [OF w(2)] by (simp add: conn_view_def)
  have "sent (conn_of (await_prefix pid v) pid) = sent (conn_of w pid) @ map encode_msg ns"
    using v(3) by (simp add: await_prefix_def)
  from handles_one [OF w(2, 3) length_block_message d this] show ?thesis
    using v(4-8) c deliver_inv [OF w(1, 2) length_block_message d] by (intro exI [of _ "await_prefix pid v"] exI [of _ ns]) simp
qed

section \<open>Properties\<close>

text \<open>
  C26: an honest peer that chokes in the middle of a piece.  It has sent the first \<open>h\<close> of the \<open>n\<close> blocks of
  the only piece asked of it, chokes and unchokes; the client answers with the requests of the whole
  piece, and the peer sends the blocks again, in the order of these requests.  After \<open>n - h\<close> of them the
  client believes it has all: it checks a part of the piece, counts a hash miss and throws away what it
  has.  And unless it asks for the same piece once more, the next block, which it has asked for, makes
  it disconnect the peer as one that sends what was not asked for.
\<close>

theorem choked_transfer_fails:
  assumes "client_inv env w" "awaits_prefix (conn_of w pid)" "pid < nextPeer w" "i < length (pieces (tor w))"
    and "\<not> finished (pieces (tor w) ! i)" "length data = piece_len (tor w) i"
    and "pieceQueue (peers w pid) = [fresh_qpiece (tor w) i]"
    and n_def: "n = block_count (piece_len (tor w) i)" and h: "0 < h" "h < n"
    and wrong: "digest_bytes env (take (16384 * max h (n - h)) data) \<noteq> hash (pieces (tor w) ! i)"
  shows "\<exists>w' ns. handles env pid w (map (block_message i data) [0..<h] @ [Choke, Unchoke] @ map (block_message i data) [0..<n - h])
      (request_messages (tor w) i @ ns) w' \<and>
    \<not> finished (pieces (tor w') ! i) \<and> pieceHashMisses (tor w') = pieceHashMisses (tor w) + 1 \<and> disk w' = disk w \<and>
    (pieceQueue (peers w' pid) = [fresh_qpiece (tor w) i] \<or>
     (\<exists>w''. deliver env pid (block_message i data (n - h)) w' = Inr w'' \<and> \<not> isConnected pid w'' \<and>
        errlog w'' = errlog w' @ [(pid, NotAskedFor (of_nat i))]))"
proof -
  let ?b = "block_message i data"
  have g: "getting env pid i data {} 0 w"
    using assms(1-7) by (simp add: getting_def fresh_partial [of _ _ data])
  define m where "m = n - h - 1"
  have m: "n - h = Suc m" "h + m + 1 = n"
    using h by (simp_all add: m_def)
  obtain w4 where w4: "handles env pid w (map ?b [0..<h] @ [Choke] @ [Unchoke] @ map ?b [0..<m]) (request_messages (tor w) i) w4"
      "tor w4 = tor w" "disk w4 = disk w" "getting env pid i data ({..<h} \<union> {..<m}) (h + m) w4"
    using getting_again [OF g, of h m] m(2) by (auto simp: n_def)
  have s: "insert m ({..<h} \<union> {..<m}) = {..<max h (n - h)}"
    by (auto simp: m(1))
  obtain w' ns where w': "handles env pid w4 [?b m] ns w'" "same_sizes (tor w') (tor w)" "disk w' = disk w"
      "\<not> finished (pieces (tor w') ! i)" "pieceHashMisses (tor w') = pieceHashMisses (tor w) + 1"
      "client_inv env w'" "awaits_prefix (conn_of w' pid)"
      "pieceQueue (peers w' pid) = [] \<or> (\<exists>j. pieceQueue (peers w' pid) = [fresh_qpiece (tor w) j])"
  proof -
    have "m < block_count (piece_len (tor w4) i)" "h + m + 1 = block_count (piece_len (tor w4) i)"
      "max h (n - h) \<le> block_count (piece_len (tor w4) i)" "0 < max h (n - h)"
      "digest_bytes env (take (16384 * max h (n - h)) data) \<noteq> hash (pieces (tor w4) ! i)"
      using m(2) h wrong w4(2) by (auto simp: n_def)
    from getting_wrong [OF w4(4) this(1, 2) s this(3-5)] that show ?thesis
      unfolding w4(2, 3) by blast
  qed
  have "handles env pid w ((map ?b [0..<h] @ [Choke] @ [Unchoke] @ map ?b [0..<m]) @ [?b m]) (request_messages (tor w) i @ ns) w'"
    by (rule handles_append [OF w4(1) w'(1)])
  then have run: "handles env pid w (map ?b [0..<h] @ [Choke, Unchoke] @ map ?b [0..<n - h]) (request_messages (tor w) i @ ns) w'"
    by (simp add: m(1))
  have next_block: "\<exists>w''. deliver env pid (?b (n - h)) w' = Inr w'' \<and> \<not> isConnected pid w'' \<and>
      errlog w'' = errlog w' @ [(pid, NotAskedFor (of_nat i))]" if "pieceQueue (peers w' pid) \<noteq> [fresh_qpiece (tor w) i]"
    using unasked_block_run [OF w'(6, 7), of i data "n - h"] that w'(8) assms(4, 6) h same_sizesD(1, 4) [OF w'(2)]
    by (auto simp: n_def fresh_qpiece_def)
  show ?thesis
    using run w'(3-5) next_block by blast
qed

end
