(* ===== verification/Selection_Order.thy ===== *)
theory Selection_Order
  imports Piece_Selection
begin

text \<open>
  The order in which \<open>Torrent::selectPieceAndRequest\<close> prefers pieces, as a linear order, and the selection
  as a minimum: the loop with its early return is the choice of the least element.
\<close>

section \<open>Pieces ranked by how often they were asked for\<close>

datatype ranked = Ranked (asked: int) (ranked_piece: nat)

instantiation ranked :: linorder
begin

fun less_eq_ranked :: "ranked \<Rightarrow> ranked \<Rightarrow> bool" where
  "Ranked p i \<le> Ranked q j \<longleftrightarrow> p < q \<or> p = q \<and> i \<le> j"

definition less_ranked :: "ranked \<Rightarrow> ranked \<Rightarrow> bool" where
  "less_ranked x y \<longleftrightarrow> x \<le> y \<and> \<not> y \<le> x"

instance
proof
  fix x y z :: ranked
  show "x < y \<longleftrightarrow> x \<le> y \<and> \<not> y \<le> x"
    by (rule less_ranked_def)
  show "x \<le> x"
    by (cases x) simp
  show "x \<le> y \<Longrightarrow> y \<le> z \<Longrightarrow> x \<le> z"
    by (cases x; cases y; cases z) auto
  show "x \<le> y \<Longrightarrow> y \<le> x \<Longrightarrow> x = y"
    by (cases x; cases y) auto
  show "x \<le> y \<or> y \<le> x"
    by (cases x; cases y) auto
qed

end

section \<open>The selection as a minimum\<close>

text \<open>The pieces a peer can be asked for, ranked; the counter of a piece must not leave 32 bits.\<close>

definition ranking :: "nat list \<Rightarrow> tpiece list \<Rightarrow> ranked list" where
  "ranking has ps =
     map (\<lambda>i. Ranked (priority (ps ! i)) i)
       (filter (\<lambda>i. \<not> finished (ps ! i) \<and> i \<in> set has \<and> priority (ps ! i) < INT32_MAX) [0..<length ps])"

definition best_piece :: "nat list \<Rightarrow> tpiece list \<Rightarrow> nat option" where
  "best_piece has ps =
     (if ranking has ps = [] then None else Some (ranked_piece (Min (set (ranking has ps)))))"

lemma ranking_set:
  "set (ranking has ps) = (\<lambda>i. Ranked (priority (ps ! i)) i) ` {i \<in> candidates has ps. priority (ps ! i) < INT32_MAX}"
  by (auto simp: ranking_def candidates_def)

lemma preferred_ranked: "preferred ps i j \<longleftrightarrow> Ranked (priority (ps ! i)) i \<le> Ranked (priority (ps ! j)) j"
  by (simp add: preferred_def)

lemma best_piece_None: "best_piece has ps = None \<longleftrightarrow> (\<forall>j \<in> candidates has ps. \<not> priority (ps ! j) < INT32_MAX)"
proof -
  have "ranking has ps = [] \<longleftrightarrow> set (ranking has ps) = {}"
    by simp
  then show ?thesis
    unfolding ranking_set by (auto simp: best_piece_def)
qed

lemma best_piece_Some:
  assumes "best_choice has ps i"
  shows "best_piece has ps = Some i"
proof -
  have i: "i \<in> candidates has ps" "priority (ps ! i) < INT32_MAX"
    and least: "\<And>j. j \<in> candidates has ps \<Longrightarrow> Ranked (priority (ps ! i)) i \<le> Ranked (priority (ps ! j)) j"
    using assms unfolding best_choice_def preferred_ranked by auto
  then have "Ranked (priority (ps ! i)) i \<in> set (ranking has ps)"
    by (auto simp: ranking_set)
  moreover from this have "Min (set (ranking has ps)) = Ranked (priority (ps ! i)) i"
    by (intro Min_eqI finite_set) (auto simp: ranking_set least simp del: less_eq_ranked.simps)
  ultimately show ?thesis
    by (auto simp: best_piece_def)
qed

section \<open>Properties\<close>

text \<open>
  The selection is equivalent to taking the least element: of the pieces the peer has and the client
  has not, ordered by how often they were asked for and then by their index, the first one is asked for,
  and if there is none nothing happens.
\<close>

lemma selection_takes_minimum:
  assumes "wf_sizes (tor w)" "pieces_fit (tor w)" "priorities_ok (pieces (tor w))"
  shows "selectPieceAndRequest pid w =
    Inr (case best_piece (hasPieceIndexes (peers w pid)) (pieces (tor w)) of None \<Rightarrow> w | Some i \<Rightarrow> request_best i pid w)"
  using selectPieceAndRequest_run [OF assms, of pid]
proof (elim disjE exE conjE)
  assume "selectPieceAndRequest pid w = Inr w"
    and "\<forall>j \<in> candidates (hasPieceIndexes (peers w pid)) (pieces (tor w)). priority (pieces (tor w) ! j) = INT32_MAX"
  then show ?thesis
    using best_piece_None [of "hasPieceIndexes (peers w pid)" "pieces (tor w)"] by simp
qed (simp add: best_piece_Some)

end
