(* ===== verification/Wire_Output.thy ===== *)
theory Wire_Output
  imports Swarm_Runs
begin

text \<open>
  What a client puts on the wire.  In every state it can reach, what has been written to a connection is
  nothing, or its handshake followed by messages, and each of them is one the protocol allows a client
  to send that has these pieces.
\<close>

section \<open>The messages a client may send\<close>

definition in_piece :: "torrent \<Rightarrow> u32 \<Rightarrow> u32 \<Rightarrow> u32 \<Rightarrow> bool" where
  "in_piece t i begin len \<longleftrightarrow>
     unat i < length (pieces t) \<and> 0 < unat len \<and> unat len \<le> 16384 \<and> unat begin + unat len \<le> piece_len t (unat i)"

definition has_piece :: "torrent \<Rightarrow> nat \<Rightarrow> bool" where
  "has_piece t i \<longleftrightarrow> i < length (pieces t) \<and> finished (pieces t ! i)"

fun legal :: "torrent \<Rightarrow> message \<Rightarrow> bool" where
  "legal t Choke = False"
| "legal t NotInterested = False"
| "legal t (Have i) = has_piece t (unat i)"
| "legal t (Bitfield b) =
     (length b = (length (pieces t) + 7) div 8 \<and> (\<forall>i \<in> set (bitfield_scan (length (pieces t)) 0 b). has_piece t i))"
| "legal t (Request i b l) = in_piece t i b l"
| "legal t (Cancel i b l) = in_piece t i b l"
| "legal t (PieceBlock i b d) = (has_piece t (unat i) \<and> length d \<le> 16384)"
| "legal t _ = True"

text \<open>A legal message stays legal while the torrent progresses.\<close>

lemma tor_grows_progressed: "tor_grows pid t t' \<Longrightarrow> progressed t t'"
  using progressed_step [OF progressed_refl] .

lemma progressedD:
  assumes "progressed t t'"
  shows "length (pieces t') = length (pieces t)" "piece_len t' i = piece_len t i" "handshake t' = handshake t"
    "has_piece t i \<Longrightarrow> has_piece t' i" "wf_sizes t' = wf_sizes t" "pieces_fit t' = pieces_fit t"
proof -
  show l: "length (pieces t') = length (pieces t)"
    using assms map_eq_imp_length_eq by (auto simp: progressed_def)
  show "piece_len t' i = piece_len t i" "handshake t' = handshake t"
    using assms by (simp_all add: progressed_def fixed_def piece_len_def piece_begin_def piece_end_def)
  show "has_piece t i \<Longrightarrow> has_piece t' i"
    using assms l by (auto simp: progressed_def has_piece_def)
  show "wf_sizes t' = wf_sizes t" "pieces_fit t' = pieces_fit t"
    using assms l by (auto simp: progressed_def fixed_def wf_sizes_def pieces_fit_def)
qed

lemma legal_progressed: "progressed t t' \<Longrightarrow> legal t m \<Longrightarrow> legal t' m"
  using progressedD [of t t'] by (cases m) (auto simp: in_piece_def)

lemma block_of_in_piece:
  assumes "wf_sizes t" "pieces_fit t" "k < length (pieces t)" "block_of t k b l"
  shows "in_piece t (of_nat k) b l"
proof -
  let ?n = "piece_len t k"
  obtain x y :: u64 where xy: "b = ucast x" "l = ucast y" "unat y \<le> 16384" "unat x + unat y \<le> ?n" "?n \<noteq> 0 \<longrightarrow> y \<noteq> 0"
    using assms(4) pieceSize_piece_len [OF assms(1, 3)] unat_piece_len [of t k] unat_eq_0
    by (fastforce simp: block_of_def)
  have n: "0 < ?n" "?n < 2 ^ 32"
    using piece_len_pos [OF assms(1, 3)] assms(2)
    by (auto simp: pieces_fit_def piece_len_def piece_end_def piece_begin_def)
  then have "unat b = unat x" "unat l = unat y" "unat y \<noteq> 0"
    using xy by (simp_all add: unsigned_ucast_eq take_bit_eq_mod unat_eq_0)
  then show ?thesis
    using xy n unat_index [OF assms(2, 3)] assms(3) by (simp add: in_piece_def)
qed

section \<open>The invariant of the outputs\<close>

text \<open>
  The output of a peer.  It is empty until the handshake is written, and a peer that is dialled, or whose
  handshake is awaited, has got nothing; a peer that is not choked, or whose messages are read, has.
\<close>

definition conforming :: "torrent \<Rightarrow> buffer list \<Rightarrow> bool" where
  "conforming t bs \<longleftrightarrow> bs = [] \<or> (\<exists>ms. bs = handshake t # map encode_msg ms \<and> (\<forall>m \<in> set ms. legal t m))"

lemma conforming_snoc:
  assumes "conforming t bs" "bs \<noteq> []" "legal t m"
  shows "conforming t (bs @ [encode_msg m])"
proof -
  obtain ms where "bs = handshake t # map encode_msg ms" "\<forall>m \<in> set ms. legal t m"
    using assms(1, 2) by (auto simp: conforming_def)
  with assms(3) have "bs @ [encode_msg m] = handshake t # map encode_msg (ms @ [m]) \<and> (\<forall>m \<in> set (ms @ [m]). legal t m)"
    by auto
  then show ?thesis
    unfolding conforming_def by blast
qed

lemma conforming_greeting: "conforming t [handshake t]"
  unfolding conforming_def by (intro disjI2 exI [of _ "[]"]) simp

lemma conforming_progressed: "progressed t t' \<Longrightarrow> conforming t bs \<Longrightarrow> conforming t' bs"
  using legal_progressed [of t t'] progressedD(3) [of t t'] by (auto simp: conforming_def)

definition output_ok :: "torrent \<Rightarrow> peer \<Rightarrow> bool" where
  "output_ok t p \<longleftrightarrow>
     conforming t (sent (conn p)) \<and>
     (\<not> pstate p AM_CHOKING \<longrightarrow> sent (conn p) \<noteq> []) \<and>
     (readCB (conn p) \<in> {Some Connect_handshake, Some Handle, Some Handle_body} \<longrightarrow> sent (conn p) \<noteq> []) \<and>
     (readCB (conn p) = Some Authenticate_handshake \<and> reading (conn p) \<noteq> None \<longrightarrow> sent (conn p) = []) \<and>
     (stage (conn p) \<noteq> NotConnecting \<longrightarrow> sent (conn p) = [] \<and> reading (conn p) = None) \<and>
     index ` set (pieceQueue p) \<subseteq> {..<length (pieces t)}"

definition outputs_ok :: "world \<Rightarrow> bool" where
  "outputs_ok w \<longleftrightarrow>
     wf_sizes (tor w) \<and> pieces_fit (tor w) \<and> bitfield (tor w) = map finished (pieces (tor w)) \<and>
     (\<forall>q. output_ok (tor w) (peers w q))"

text \<open>The handlers of a peer that has been greeted.\<close>

definition talking :: "nat \<Rightarrow> world \<Rightarrow> bool" where
  "talking pid w \<longleftrightarrow> outputs_ok w \<and> sent (conn_of w pid) \<noteq> []"

lemma outputs_okD:
  assumes "outputs_ok w"
  shows "wf_sizes (tor w)" "pieces_fit (tor w)" "bitfield (tor w) = map finished (pieces (tor w))"
    "output_ok (tor w) (peers w q)"
  using assms by (simp_all add: outputs_ok_def)

lemma output_progressed: "progressed t t' \<Longrightarrow> output_ok t p \<Longrightarrow> output_ok t' p"
  using conforming_progressed [of t t'] progressedD(1) [of t t'] by (auto simp: output_ok_def)

lemma outputs_ok_tor:
  assumes "outputs_ok w" "tor_grows pid (tor w) (f (tor w))"
  shows "outputs_ok (upd_tor f w)"
  using assms(1) progressedD(5, 6) [OF tor_grows_progressed [OF assms(2)]] output_progressed [OF tor_grows_progressed [OF assms(2)]]
    assms(2) by (simp add: outputs_ok_def tor_grows_def)

lemma outputs_ok_peer:
  "outputs_ok w \<Longrightarrow> (output_ok (tor w) (peers w q) \<Longrightarrow> output_ok (tor w) (g (peers w q))) \<Longrightarrow> outputs_ok (upd_peer q g w)"
  by (simp add: outputs_ok_def)

lemma outputs_ok_conn:
  "outputs_ok w \<Longrightarrow> (output_ok (tor w) (peers w q) \<Longrightarrow> output_ok (tor w) ((peers w q)\<lparr>conn := f (conn_of w q)\<rparr>)) \<Longrightarrow>
     outputs_ok (upd_conn q f w)"
  by (simp add: outputs_ok_def)

lemma outputs_ok_same:
  "outputs_ok w \<Longrightarrow> tor w' = tor w \<Longrightarrow> peers w' = peers w \<Longrightarrow> outputs_ok w'"
  by (simp add: outputs_ok_def)

text \<open>A message to a peer that has been greeted.\<close>

lemma may_send_legal:
  assumes "outputs_ok w" "may_send pid w m"
  shows "legal (tor w) m"
proof -
  note w = outputs_okD [OF assms(1)]
  have q: "k < length (pieces (tor w))" if "k \<in> queued pid w" for k
    using that w(4) [of pid] by (auto simp: queued_def output_ok_def)
  have len: "length (bitfield (tor w)) = length (pieces (tor w))"
    using w(3) by simp
  show ?thesis
    using assms(2) q block_of_in_piece [OF w(1, 2)] bitfield_scan_sent [OF len] w(3)
    by (cases m) (auto simp: has_piece_def length_getRawBitfield)
qed

lemma outputs_ok_write:
  assumes "outputs_ok w" "sent (conn_of w q) \<noteq> []" "legal (tor w) m"
  shows "outputs_ok (conn_write (encode_msg m) q w)"
  using assms conforming_snoc [of "tor w" "sent (conn_of w q)" m] unfolding conn_write_def
  by (auto simp: output_ok_def dest: outputs_okD(4) intro!: outputs_ok_conn)

lemma outputs_ok_close: "outputs_ok w \<Longrightarrow> outputs_ok (conn_close q w)"
  by (auto simp: conn_close_def output_ok_def intro!: outputs_ok_conn)

lemma outputs_ok_errcb: "outputs_ok w \<Longrightarrow> outputs_ok (setErrorCallback b q w)"
  by (auto simp: setErrorCallback_def output_ok_def intro!: outputs_ok_conn)

lemma sent_conn_read [simp]: "sent (conn_of (conn_read n cb pid w) q) = sent (conn_of w q)"
  "sent (conn_of (setErrorCallback b pid w) q) = sent (conn_of w q)"
  by (simp_all add: conn_read_def setErrorCallback_def)

lemma talking_read:
  assumes "talking pid w" "cb \<noteq> Authenticate_handshake"
  shows "talking pid (conn_read n cb pid w)"
  using assms by (auto simp: talking_def conn_read_def output_ok_def intro!: outputs_ok_conn)

lemma talking_write:
  assumes "talking pid w" "may_write pid q w m"
  shows "talking pid (conn_write (encode_msg m) q w)"
proof -
  have "sent (conn_of w q) \<noteq> []" "outputs_ok w" "legal (tor w) m"
    using assms outputs_okD(4) [of w q] may_send_legal [of w pid m] by (auto simp: talking_def may_write_def output_ok_def)
  from outputs_ok_write [OF this(2, 1, 3)] show ?thesis
    using assms(1) wr.out_put [of "encode_msg m" q w pid] by (simp add: talking_def)
qed

lemma talking_peer:
  assumes "talking pid w" "\<And>p. conn (g p) = conn p" "index ` set (pieceQueue (g (peers w pid))) \<subseteq> {..<length (pieces (tor w))}"
  shows "talking pid (upd_peer pid g w)"
  using assms by (auto simp: talking_def output_ok_def intro!: outputs_ok_peer)

lemma talking_queued: "talking pid w \<Longrightarrow> queued pid w \<subseteq> {..<length (pieces (tor w))}"
  using outputs_okD(4) [of w pid] by (simp add: talking_def output_ok_def queued_def)

lemma talking_pieces_fit: "talking pid w \<Longrightarrow> k < length (pieces (tor w)) \<Longrightarrow> unat (of_nat k :: u32) = k"
  using unat_index outputs_okD(2) by (auto simp: talking_def)

interpretation talk: message_frame "talking pid" pid for pid
proof
  fix w and g :: "peer \<Rightarrow> peer"
  assume w: "talking pid w" "\<And>p. conn (g p) = conn p" "index ` set (pieceQueue (g (peers w pid))) \<subseteq> queued pid w"
  show "talking pid (upd_peer pid g w)"
    using talking_peer [OF w(1, 2)] w(3) talking_queued [OF w(1)] by blast
next
  fix w k and x :: qpiece
  assume w: "talking pid w" "k < length (pieces (tor w))" "index x = unat (of_nat k :: u32)"
  then show "talking pid (upd_peer pid (\<lambda>p. p\<lparr>pieceQueue := pieceQueue p @ [x]\<rparr>) w)"
    using talking_queued [OF w(1)] talking_pieces_fit [OF w(1, 2)] by (intro talking_peer) (auto simp: queued_def)
next
  fix w f assume "talking pid w" "tor_step pid (tor w) (f (tor w))"
  then show "talking pid (upd_tor f w)"
    using outputs_ok_tor [of w pid f] by (simp add: talking_def tor_step_def)
qed (auto simp: talking_write talking_read, auto simp: talking_def outputs_ok_close outputs_ok_errcb intro: outputs_ok_same)

section \<open>The steps keep the outputs\<close>

lemma outputs_ok_handleError: "outputs_ok w \<Longrightarrow> outputs_ok (peer_handleError e q w)"
  unfolding peer_handleError_def peer_disconnect_def removePeer_def
  by (intro outputs_ok_errcb outputs_ok_close outputs_ok_tor [where pid = q] tor_grows_peers)
    (auto simp: fixed_def dest: subsetD [OF set_erase_first_subset] intro: outputs_ok_same)

lemma outputs_ok_conn_handleError: "outputs_ok w \<Longrightarrow> outputs_ok (conn_handleError ab msg q w)"
  by (simp add: conn_handleError_def Let_def outputs_ok_handleError outputs_ok_close)

lemma outputs_ok_disconnect: "outputs_ok w \<Longrightarrow> outputs_ok (fold peer_disconnect ps w)"
  by (induction ps arbitrary: w) (simp_all add: peer_disconnect_def outputs_ok_errcb outputs_ok_close)

text \<open>The handler that answers a handshake.\<close>

lemma authenticate_outputs:
  assumes w: "outputs_ok w" and fresh: "sent (conn_of w pid) = []" "reading (conn_of w pid) = None"
      "stage (conn_of w pid) = NotConnecting"
  shows "holds UNIV outputs_ok (on_authenticate_handshake pid data sz w)"
proof -
  let ?v = "set_peerId (slice 48 20 data) pid w"
  have v: "outputs_ok ?v" "tor ?v = tor w" "conn_of ?v pid = conn_of w pid" "isConnected pid ?v = isConnected pid w"
    unfolding set_peerId_def using w by (auto simp: output_ok_def isConnected_def intro!: outputs_ok_peer)
  have "holds UNIV outputs_ok (bind_res (sendBitfield (getRawBitfield (tor (handshaked pid (conn_write (handshake (tor w)) pid ?v)))) pid
      (handshaked pid (conn_write (handshake (tor w)) pid ?v))) (\<lambda>w2. Inr (conn_read 4 Handle pid w2)))"
  proof (cases "isConnected pid w")
    case False
    have "outputs_ok (handshaked pid ?v)"
      unfolding handshaked_def using v(1) by (intro outputs_ok_tor [where pid = pid] tor_grows_peers) (auto simp: addPeer_def fixed_def)
    then show ?thesis
      using False v(4) by (simp add: sendBitfield_encode conn_write_def conn_read_def handshaked_def)
  next
    case True
    let ?u = "conn_write (handshake (tor w)) pid ?v"
    have "output_ok (tor w) ((peers ?v pid)\<lparr>conn := (conn_of w pid)\<lparr>sent := [handshake (tor w)]\<rparr>\<rparr>)"
      using outputs_okD(4) [OF v(1), of pid] fresh v(2, 3) by (simp add: output_ok_def conforming_greeting)
    then have "outputs_ok ?u" "sent (conn_of ?u pid) = [handshake (tor w)]"
      using v True fresh by (simp_all add: conn_write_def outputs_ok_conn)
    then have "talking pid ?u"
      by (simp add: talking_def)
    note h = talk.P_handshaked [OF this]
    have read: "outputs_ok (conn_read 4 Handle pid x)" if "talking pid x" for x
      using talking_read [OF that, of Handle 4] by (simp add: talking_def)
    show ?thesis
      unfolding holds_bind using talk.P_sendBitfield [OF h] by (rule holds_mono) (simp add: read)
  qed
  then show ?thesis
    using w by (simp add: on_authenticate_handshake_def Let_def outputs_ok_handleError)
qed

lemma on_read_outputs:
  assumes w: "outputs_ok w" and en: "reading (conn_of w pid) \<noteq> None"
  shows "holds UNIV outputs_ok (on_read env pid bytes w)"
proof -
  let ?w1 = "upd_conn pid (\<lambda>c. c\<lparr>inputStream := inputStream c @ bytes, reading := None\<rparr>) w"
  have w1: "outputs_ok ?w1"
    using w by (auto simp: output_ok_def intro!: outputs_ok_conn)
  have fin: "outputs_ok v \<Longrightarrow> outputs_ok (upd_conn pid (\<lambda>c. c\<lparr>inputStream := drop n (inputStream c)\<rparr>) v)" for v n
    by (auto simp: output_ok_def intro!: outputs_ok_conn)
  note p = outputs_okD(4) [OF w, of pid]
  have stage: "stage (conn_of w pid) = NotConnecting"
    using p en by (auto simp: output_ok_def)
  have cb: "holds UNIV outputs_ok (run_read_cb env cb pid data sz ?w1)" if cb: "readCB (conn_of w pid) = Some cb" for cb data sz
  proof (cases "cb = Authenticate_handshake")
    case True
    then have "sent (conn_of w pid) = []"
      using p cb en by (simp add: output_ok_def)
    with True stage show ?thesis
      using authenticate_outputs [OF w1, of pid] by (simp add: run_read_cb_def)
  next
    case False
    then have "talking pid ?w1"
      using p cb w1 by (cases cb) (simp_all add: output_ok_def talking_def)
    then have "holds UNIV (talking pid) (run_read_cb env cb pid data sz ?w1)"
      using False by (simp add: run_read_cb_def split: read_cb.splits)
    then show ?thesis
      by (rule holds_mono) (simp add: talking_def)
  qed
  have "holds UNIV (\<lambda>v. outputs_ok (upd_conn pid (\<lambda>c. c\<lparr>inputStream := drop n (inputStream c)\<rparr>) v)) (run_read_cb env cb pid data sz ?w1)"
    if "readCB (conn_of w pid) = Some cb" for cb data sz n
    using cb [OF that] by (rule holds_mono) (rule fin)
  then show ?thesis
    using w1 fin by (simp add: on_read_def Let_def split: option.splits)
qed

lemma output_ok_new:
  "sent c = [] \<Longrightarrow> readCB c = None \<Longrightarrow> (stage c \<noteq> NotConnecting \<longrightarrow> reading c = None) \<Longrightarrow> output_ok t (new_peer c)"
  by (simp add: output_ok_def new_peer_def conforming_def)

lemma outputs_ok_make:
  "outputs_ok w \<Longrightarrow> output_ok (tor w) (new_peer c) \<Longrightarrow> outputs_ok (upd_tor (blacklist ip) (make_peer c w))"
  by (rule outputs_ok_tor [where pid = 0], simp add: outputs_ok_def make_peer_def)
    (rule tor_grows_peers, auto simp: blacklist_def fixed_def)

lemma accepted_outputs:
  assumes "outputs_ok w"
  shows "outputs_ok (on_accepted a w)"
proof -
  let ?v = "\<lambda>ip. upd_tor (blacklist ip) (make_peer (new_connection\<lparr>socket_open := True, remote := a\<rparr>) w)"
  have "outputs_ok (peer_authenticate (nextPeer w) (?v ip))" for ip
    unfolding peer_authenticate_def conn_read_def
    using outputs_ok_make [OF assms, of "new_connection\<lparr>socket_open := True, remote := a\<rparr>" ip]
    by (auto simp: output_ok_new new_connection_def make_peer_def new_peer_def output_ok_def setErrorCallback_def conforming_def
      intro!: outputs_ok_conn)
  then show ?thesis
    by (simp add: on_accepted_def Let_def)
qed

lemma connect_loop_outputs: "outputs_ok w \<Longrightarrow> holds UNIV outputs_ok (connect_loop mem sz i w)"
proof (induction mem sz i w rule: connect_loop.induct)
  case (1 mem sz i w)
  have d: "outputs_ok (peer_connect h p (nextPeer w) (upd_tor (blacklist ip) (make_peer new_connection w)))" for h p ip
    using outputs_ok_make [OF "1.prems", of new_connection ip]
    unfolding peer_connect_def conn_connect_def setErrorCallback_def
    by (auto simp: output_ok_new new_connection_def make_peer_def new_peer_def output_ok_def conforming_def intro!: outputs_ok_conn)
  show ?case
  proof (cases "readAsLE32 (drop i mem)")
    case None
    then show ?thesis
      using "1.prems" by (subst connect_loop.simps) simp
  next
    case (Some ip)
    show ?thesis
    proof (cases "readAsBE16 (drop (i + 4) mem)")
      case None
      with Some "1.IH"(1, 2) [of ip] "1.prems" show ?thesis
        by (subst connect_loop.simps) (simp add: Let_def)
    next
      case (Some port)
      with \<open>readAsLE32 _ = _\<close> "1.IH"(1, 2) [of ip] "1.IH"(3) [of ip] "1.prems" d
      show ?thesis
        by (subst connect_loop.simps) (simp add: Let_def)
    qed
  qed
qed

lemma connected_outputs:
  assumes "outputs_ok w" "stage (conn_of w pid) = Connecting"
  shows "outputs_ok (on_connect_done a pid w)"
proof -
  have p: "output_ok (tor w) (peers w pid)" "sent (conn_of w pid) = []" "reading (conn_of w pid) = None"
      "flag w pid AM_CHOKING" "readCB (conn_of w pid) \<notin> {Some Connect_handshake, Some Handle, Some Handle_body}"
    using outputs_okD(4) [OF assms(1), of pid] assms(2) by (auto simp: output_ok_def)
  show ?thesis
    using assms(1) p
    by (auto simp: conforming_greeting on_connect_done_def on_connected_def conn_read_def conn_write_def isConnected_def Let_def output_ok_def outputs_ok_def)
qed

lemma client_step_outputs:
  assumes w: "outputs_ok w" and en: "enabled e w" and st: "client_step env e w = Inr w'"
  shows "outputs_ok w'"
proof (cases e)
  case (Received pid bytes)
  then show ?thesis
    using on_read_outputs [OF w, of pid env bytes] en st by simp
next
  case (TrackerPeers info)
  then show ?thesis
    using connect_loop_outputs [OF w, of "info @ [0]" "length info" 0] st by (simp add: connectToPeers_def)
next
  case (Accepted a)
  then show ?thesis
    using accepted_outputs [OF w] st by auto
next
  case (Connected pid a)
  then show ?thesis
    using connected_outputs [OF w] en st by auto
next
  case (Resolved pid)
  then show ?thesis
    using w en st by (auto simp: on_resolved_def output_ok_def intro!: outputs_ok_conn)
next
  case (ReadFailed pid bytes msg)
  have "outputs_ok (upd_conn pid (\<lambda>c. c\<lparr>inputStream := inputStream c @ bytes, reading := None\<rparr>) w)"
    using w by (auto simp: output_ok_def intro!: outputs_ok_conn)
  then show ?thesis
    using ReadFailed st by (auto simp: on_read_error_def outputs_ok_conn_handleError)
next
  case (IoFailed pid msg)
  have "outputs_ok (upd_conn pid (\<lambda>c. c\<lparr>stage := NotConnecting\<rparr>) w)"
    using w by (auto simp: output_ok_def intro!: outputs_ok_conn)
  then show ?thesis
    using IoFailed st by (auto simp: on_io_error_def outputs_ok_conn_handleError)
next
  case (StartAccepting p bound)
  have "outputs_ok (upd_tor (listen p) w)"
    using w by (rule outputs_ok_tor [where pid = 0]) (rule tor_grows_peers, auto simp: fixed_def)
  then show ?thesis
    using StartAccepting st by (auto simp: start_accepting_run split: if_splits)
next
  case DownloadDone
  have "outputs_ok (upd_tor acceptor_stop w)"
    using w by (rule outputs_ok_tor [where pid = 0]) (rule tor_grows_peers, auto simp: fixed_def acceptor_stop_def)
  then show ?thesis
    using DownloadDone st w by (auto simp: disconnectPeers_def Let_def outputs_ok_disconnect)
qed

interpretation outp: kept_by_steps "swarm_step env" outputs_ok for env
  by unfold_locales (auto elim!: swarm_stepE dest: client_step_outputs)

lemma legal_payload: "legal t m \<Longrightarrow> pieces_fit t \<Longrightarrow> length (payload m) < 4294967295"
  by (cases m) (auto simp: be32.length_enc pieces_fit_def)

lemma start_outputs:
  assumes "sizes_consistent md"
  shows "outputs_ok (start_world (parsed env lib dir md) d)"
proof -
  let ?t = "parsed env lib dir md"
  have "map finished (pieces ?t) = replicate (length (m_hashes md)) False"
    by (simp add: parsed_def Torrent_def comp_def map_replicate_const) (simp add: new_piece_def map_replicate_const)
  then show ?thesis
    using geometryD(1, 3) [OF parsed_geometry [OF assms, of env lib dir]]
    by (simp add: outputs_ok_def start_world_def output_ok_new new_connection_def) (simp add: parsed_def Torrent_def)
qed

lemma client_run_outputs: "client_run env lib fs dir md es w \<Longrightarrow> outputs_ok w"
  using outp.run_keeps [OF client_run_start(1)] start_outputs [OF client_run_start(2)] by blast

lemma reachable_output:
  assumes "client_run env lib fs dir md es w"
  shows "sent (conn_of w pid) = [] \<or>
    (\<exists>ms. sent (conn_of w pid) = handshake (tor w) # map encode_msg ms \<and>
       (\<forall>m \<in> set ms. legal (tor w) m \<and> length (payload m) < 4294967295))"
proof -
  have w: "outputs_ok w"
    by (rule client_run_outputs [OF assms])
  then show ?thesis
    using outputs_okD(4) [OF w, of pid] legal_payload [OF _ outputs_okD(2) [OF w]] by (auto simp: output_ok_def conforming_def)
qed

section \<open>Properties\<close>

text \<open>
  C9: the client obeys the protocol.  In every state a client can reach, whatever its peers sent it, what
  it has written to a connection is nothing, or its handshake and then messages, each framed by its
  length: never a message before the handshake or a second one.  It has announced and served only pieces
  it has, in blocks of at most 16 KiB, its bit field claims only such pieces, and it has asked for and
  cancelled only blocks inside a piece; it never sends \<open>CHOKE\<close> or \<open>NOT INTERESTED\<close>.
\<close>

theorem output_conforms:
  assumes "client_run env lib fs dir md es w"
  shows "sent (conn_of w pid) = [] \<or>
    (\<exists>ms. sent (conn_of w pid) = handshake (tor w) # map encode_msg ms \<and>
       (\<forall>m \<in> set ms. legal (tor w) m \<and> length (payload m) < 4294967295))"
  using assms by (rule reachable_output)

end
