(* ===== verification/Conforming_Peers.thy ===== *)
theory Conforming_Peers
  imports Wire_Output Honest_Seed
begin

text \<open>
  Clients among themselves.  What one client can write, another one for the same torrent can read: the
  unchecked index of a request, by which a peer can make a client read outside its pieces, is never out of
  range in what a client of this program sends.
\<close>

section \<open>A request in range\<close>

lemma request_in_range_safe:
  assumes inv: "client_inv env w" and i: "unat i < length (pieces (tor w))"
  shows "holds {} (flow_holds (client_inv env)) (on_request env pid (incoming_of (Request i b l)) w)"
proof -
  let ?m = "incoming_of (Request i b l)"
  have p: "payload (Request i b l) = writeAsBE32 i @ writeAsBE32 b @ writeAsBE32 l @ []"
    by simp
  have x: "extract3 ?m = Some ((i, b, l), \<lparr>dataBuffer = payload (Request i b l), buffSize = 12, readIndex = 12\<rparr>)"
    "getSize ?m = 12"
    using extract3_payload [OF p, of 12] by (simp_all add: incoming_of_def getSize_def IncomingMessage_def be32.length_enc)
  have serve: "holds {} (client_inv env) (handleBlockRequest env pid i b l w)"
    by (rule holds_mono [OF handleBlockRequest_safe [OF client_invD(3) [OF inv]]]) (simp add: client_inv_core inv)
  have fail: "holds {} (flow_holds (client_inv env)) (fail_with e pid w)" for e
    using inv client_inv_core [OF core_peer_handleError, of env e pid w] by (simp add: fail_with_def)
  show ?thesis
    using i serve inv fail by (auto simp: on_request_def x pieceDone_def peek_def)
qed

lemma handleMessage_in_range:
  assumes inv: "client_inv env w" and len: "length (payload m) < 4294967295"
    and range: "\<And>i b l. m = Request i b l \<Longrightarrow> unat i < length (pieces (tor w))"
  shows "holds {Uncaught ''fwrite failed''} (client_inv env) (handleMessage env pid (message_id m) (incoming_of m) w)"
proof (cases "\<exists>i b l. m = Request i b l")
  case True
  then obtain i b l where m: "m = Request i b l"
    by blast
  have "holds {} (flow_holds (client_inv env)) (message_case env pid 6 (incoming_of m) w)"
    using request_in_range_safe [OF inv range [OF m]] by (simp add: message_case_def m)
  then have "holds {} (client_inv env) (handleMessage env pid 6 (incoming_of m) w)"
    unfolding handleMessage_def holds_bind
    by (rule holds_mono) (auto simp: flow_holds_def client_inv_core [OF core_conn_read] split: flow.splits)
  then show ?thesis
    using holds_faults by (fastforce simp: m)
next
  case False
  have "unat (of_nat (length (payload m)) :: u64) = length (payload m)"
    using len by (intro unat_of_nat_u64) simp
  then have "msg_ok (incoming_of m)"
    by (simp add: msg_ok_def incoming_of_def IncomingMessage_def)
  from handleMessage_keeps_inv [OF inv this] show ?thesis
    by (rule holds_faults) (use False in \<open>cases m; simp add: message_faults_def\<close>)
qed

section \<open>Properties\<close>

text \<open>
  C10: a client does no harm to another one.  Let two clients run on torrents of as many pieces, each in any
  state it can reach, with whatever other peers.  Whatever the one has written to a connection after its
  handshake, the other one, reading it as a message, keeps its invariant and ends in no fault but a failing
  write to its own disk.
\<close>

theorem clients_do_no_harm:
  assumes reader: "client_run env lib fs dir md es w" "awaits_prefix (conn_of w p)"
    and writer: "client_run env' lib' fs' dir' md' es' w'" "b \<in> set (tl (sent (conn_of w' q)))"
    and same: "length (m_hashes md') = length (m_hashes md)"
  shows "holds {Uncaught ''fwrite failed''} (client_inv env) (bind_res (on_read env p (take 4 b) w) (on_read env p (drop 4 b)))"
proof -
  obtain m where m: "b = encode_msg m" "legal (tor w') m" "length (payload m) < 4294967295"
    using reachable_output [OF writer(1), of q] writer(2) by auto
  let ?v = "body_arrived p (message_id m # payload m) w"
  have inv: "client_inv env ?v"
    using swarm_invD(1) [OF client_run_inv [OF reader(1)]] client_inv_core [of ?v w]
    by (simp add: body_arrived_def core_upd_conn)
  have "length (pieces (tor w')) = length (pieces (tor w))"
    using client_run_fixed(4) [OF reader(1)] client_run_fixed(4) [OF writer(1)] same by simp
  then have "\<And>i b l. m = Request i b l \<Longrightarrow> unat i < length (pieces (tor ?v))"
    using m(2) by (simp add: in_piece_def body_arrived_def)
  from handleMessage_in_range [OF inv m(3) this]
  have "holds {Uncaught ''fwrite failed''} (client_inv env) (deliver env p m w)"
    unfolding deliver_handleMessage [OF reader(2) m(3)] incoming_of_def holds_bind
    by (rule holds_mono) (use client_inv_core [OF core_upd_conn] in \<open>auto simp: consume_def\<close>)
  then show ?thesis
    by (simp add: m(1) deliver_def)
qed

end
