(* ===== verification/Examples.thy ===== *)
theory Examples
  imports Statistics Client Two_Clients Choked_Transfer Selection_Order Conforming_Peers
begin

text \<open>
  Concrete instances: a torrent of two pieces, of four and of two bytes, a digest that adds up the
  bytes, one connected peer, and each property with hypotheses applied to them.
\<close>

section \<open>The data\<close>

definition ex_env :: env where
  "ex_env = \<lparr>sha1_digest = (\<lambda>d i. of_nat (sum_list (map unat d) + i)), fwrite_count = (\<lambda>s d. length d),
             reopen_ok = True, uninitialised = (\<lambda>_. 0)\<rparr>"

definition ex_data :: buffer where
  "ex_data = [1, 2, 3, 4, 5, 6]"

definition ex_hashes :: "buffer list" where
  "ex_hashes = [digest_bytes ex_env [1, 2, 3, 4], digest_bytes ex_env [5, 6]]"

definition ex_torrent :: torrent where
  "ex_torrent = Torrent\<lparr>pieces := map new_piece ex_hashes, bitfield := [False, False], pieceLength := 4,
     totalSize := 6, tfile := \<lparr>path = '''', fp = True, fbegin = 0, flength = 0\<rparr>, activePeers := [0]\<rparr>"

definition ex_connection :: connection where
  "ex_connection = new_connection\<lparr>socket_open := True, remote := Some 0x01020304, errorCB := True\<rparr>"

definition ex_peer :: peer where
  "ex_peer = (new_peer ex_connection)
     \<lparr>pstate := (\<lambda>s. s = PEER_INTERESTED), hasPieceIndexes := [0, 1]\<rparr>"

definition ex_world :: world where
  "ex_world = \<lparr>tor = ex_torrent, peers = (\<lambda>q. if q = 0 then ex_peer else new_peer new_connection), nextPeer = 1,
     disk = \<lparr>contents = ex_data, fpos = 0\<rparr>, errlog = [], accepted = []\<rparr>"

lemmas ex_defs = ex_world_def ex_peer_def ex_connection_def ex_torrent_def ex_hashes_def new_peer_def
  new_connection_def Torrent_def

lemma ex_torrent_simps [simp]:
  "pieces ex_torrent = map new_piece ex_hashes" "bitfield ex_torrent = [False, False]" "activePeers ex_torrent = [0]"
  "totalSize ex_torrent = 6" "pieceLength ex_torrent = 4" "fp (tfile ex_torrent)" "fbegin (tfile ex_torrent) = 0"
  "blackListed ex_torrent = {}" "length ex_hashes = 2"
  by (simp_all add: ex_torrent_def ex_hashes_def Torrent_def)

lemma ex_world_simps [simp]:
  "tor ex_world = ex_torrent" "contents (disk ex_world) = ex_data" "nextPeer ex_world = 1"
  "conn_of ex_world 0 = ex_connection" "isConnected 0 ex_world" "hasPieceIndexes (peers ex_world 0) = [0, 1]"
  "flag ex_world 0 s = (s = PEER_INTERESTED)" "length ex_data = 6" "accepted ex_world = []"
  by (simp_all add: ex_world_def ex_peer_def ex_connection_def new_peer_def new_connection_def isConnected_def
    ex_data_def)

lemma ex_wf [simp]: "wf_sizes ex_torrent" "offsets_fit ex_torrent" "pieces_fit ex_torrent"
  by (simp_all add: wf_sizes_def offsets_fit_def pieces_fit_def ex_hashes_def)

lemma ex_piece_len [simp]: "piece_len ex_torrent 0 = 4" "piece_begin ex_torrent 0 = 0" "piece_end ex_torrent 0 = 4"
  by (simp_all add: piece_len_def piece_end_def piece_begin_def)

section \<open>Text, geometry and registry\<close>

lemma ex_lang: "''/announce'' \<in> lang re_path" "''?passkey=x'' \<in> lang re_passkey"
  by (simp_all add: lang_path lang_passkey path_char_def dot_char_def)

lemma parseTrackerUrl_parts_example:
  "parseTrackerUrl (''http://'' @ ''tr'' @ '':'' @ ''80'' @ ''/announce'' @ ''?passkey=x'') =
      \<lparr>protocol = ''http://'', host = ''tr'', port = ''80'', announcePath = ''/announce'',
       passKeyParam = replace_query ''?passkey=x''\<rparr>"
  using parseTrackerUrl_parts [of "''http://''" "''tr''" "''80''" "''/announce''" "''?passkey=x''"] ex_lang
  by (simp add: host_char_def is_digit_def)

lemma pieceSize_partition_example:
  "\<exists>s. pieceSize ex_torrent 1 = Inr s \<and> 0 < unat s \<and> piece_begin ex_torrent 1 + unat s = 6"
  using pieceSize_partition [of ex_torrent 1] by simp

lemma buildTrackerQuery_counts_example:
  "\<exists>q. buildTrackerQuery EV_STARTED ex_torrent = Inr q \<and> unat (downloaded q) + unat (remaining q) = 6"
  using buildTrackerQuery_counts [of ex_torrent EV_STARTED] by auto

lemma handleError_removes_exactly_example:
  "activePeers (tor (peer_handleError HandshakeMismatch 0 ex_world)) = []"
  using handleError_removes_exactly [of 0 ex_world HandshakeMismatch] by simp

lemma requestPiece_covers_piece_example:
  "\<exists>w' bs. requestPiece 0 0 ex_world = Inr w' \<and> sent (conn_of w' 0) =
     map (\<lambda>(b, l). encode_msg (Request 0 (of_nat b) (of_nat l))) bs"
  using requestPiece_covers_piece [of ex_world 0 0] by (auto simp: ex_connection_def new_connection_def)

section \<open>Storing and serving\<close>

lemma ex_fwrite: "fwrite_count ex_env s d = length d"
  by (simp add: ex_env_def)

lemma ex_check: "checkPieceHash ex_env ex_torrent [1, 2, 3, 4] 0"
  by (simp add: checkPieceHash_def new_piece_def ex_hashes_def)

lemma handlePieceCompleted_correct_example:
  "\<exists>w'. handlePieceCompleted ex_env 0 0 [1, 2, 3, 4] ex_world = Inr w' \<and> finished (pieces (tor w') ! 0)
      \<and> slice 0 (length [1, 2, 3, 4 :: u8]) (contents (disk w')) = [1, 2, 3, 4]"
  using handlePieceCompleted_correct [of ex_world "[1, 2, 3, 4]" ex_env 0 0] ex_check by (auto simp: ex_fwrite)

lemma handleBlockRequest_serves_example:
  "\<exists>w'. handleBlockRequest ex_env 0 0 1 2 ex_world = Inr w' \<and>
      sent (conn_of w' 0) = sent (conn_of ex_world 0) @ [encode_msg (PieceBlock 0 1 (slice 1 2 ex_data))]"
  using handleBlockRequest_serves [of ex_world 0 0 2 1 ex_env] by auto

lemma handleBlockRequest_rejects_example:
  "handleBlockRequest ex_env 0 0 3 2 ex_world = Inr (peer_disconnect 0 ex_world)"
  using handleBlockRequest_rejects [of ex_world 0 3 2 ex_env 0] by simp

section \<open>Selection and discovery\<close>

lemma selectPieceAndRequest_best_example:
  "\<exists>w'. selectPieceAndRequest 0 ex_world = Inr w' \<and> priorities_ok (pieces (tor w'))"
  using selectPieceAndRequest_best [of ex_world 0] by (auto simp: priorities_ok_def new_piece_def)

lemma selection_takes_minimum_example:
  "selectPieceAndRequest 0 ex_world = Inr (request_best 0 0 ex_world)"
proof -
  have "best_choice [0, 1] (pieces ex_torrent) 0"
    by (auto simp: best_choice_def candidates_def preferred_def new_piece_def ex_hashes_def less_Suc_eq numeral_2_eq_2)
  then show ?thesis
    using selection_takes_minimum [of ex_world 0] by (simp add: best_piece_Some priorities_ok_def new_piece_def)
qed

lemma connectToPeers_dials_fresh_example:
  "\<exists>w' (new :: (u32 \<times> u16) list). connectToPeers (compact [(7, 80), (7, 81)]) 12 ex_world = Inr w' \<and>
     distinct (map fst new) \<and> fst ` set new = {7} \<and> nextPeer w' = 1 + length new"
proof -
  have "known_ips ex_world = {67305985}"
    by (simp add: known_ips_def getRawIp_def getIP_def ex_connection_def new_connection_def htonl_def)
  then have ips: "{ip \<in> fst ` set [(7 :: u32, 80 :: u16), (7, 81)]. ip \<noteq> 0 \<and> ip \<notin> known_ips ex_world} = {7}"
    by auto
  have "peers_known ex_world"
    by (simp add: peers_known_def)
  from connectToPeers_dials_fresh [OF this, of "compact [(7, 80), (7, 81)]" "[(7, 80), (7, 81)]" "[]"]
  show ?thesis
    unfolding ips append_Nil2 length_compact by auto
qed

lemma connectToPeers_trailing_bytes_example:
  "connectToPeers ([1] @ [0]) 1 ex_world = Inl OutOfBounds"
  using connectToPeers_trailing_bytes [of ex_world "[1]" "[]" "[1]"]
  by (simp add: peers_known_def compact_def)

section \<open>The range check\<close>

definition ex_zeros :: buffer where
  "ex_zeros = replicate 6442450944 0"

definition ex_big_torrent :: torrent where
  "ex_big_torrent = ex_torrent\<lparr>pieces := map new_piece [[], [], []], bitfield := [True, True, True],
     pieceLength := 2147483648, totalSize := 6442450944\<rparr>"

definition ex_big_world :: world where
  "ex_big_world = ex_world\<lparr>tor := ex_big_torrent, disk := \<lparr>contents = ex_zeros, fpos = 0\<rparr>\<rparr>"

lemma length_ex_zeros: "length ex_zeros = 6442450944"
  unfolding ex_zeros_def by (rule length_replicate)

lemma ex_big_simps [simp]:
  "length (pieces ex_big_torrent) = 3" "totalSize ex_big_torrent = 6442450944"
  "pieceLength ex_big_torrent = 2147483648" "fp (tfile ex_big_torrent)" "fbegin (tfile ex_big_torrent) = 0"
  "tor ex_big_world = ex_big_torrent" "contents (disk ex_big_world) = ex_zeros" "isConnected 0 ex_big_world"
  "peers ex_big_world = peers ex_world"
  by (simp_all add: ex_big_torrent_def ex_big_world_def isConnected_def) (simp add: ex_connection_def)

lemma ex_big_wf: "wf_sizes ex_big_torrent" "offsets_fit ex_big_torrent"
proof -
  have "pieces ex_big_torrent \<noteq> []"
    by (simp add: ex_big_torrent_def)
  then show "wf_sizes ex_big_torrent" "offsets_fit ex_big_torrent"
    by (simp_all add: wf_sizes_def offsets_fit_def)
qed

lemma handleBlockRequest_range_bypass_example:
  "\<exists>w'. handleBlockRequest ex_env 0 0 0xFFFFFFFF 2 ex_big_world = Inr w' \<and>
      sent (conn_of w' 0) = sent (conn_of ex_big_world 0) @
        [encode_msg (PieceBlock 0 0xFFFFFFFF (slice 4294967295 2 ex_zeros))]"
  using handleBlockRequest_range_bypass [of ex_big_world 0 0 2 "0xFFFFFFFF" ex_env] ex_big_wf
  by (simp add: length_ex_zeros piece_len_def piece_end_def piece_begin_def)

section \<open>The torrent file\<close>

definition ex_info :: "(string \<times> bitem) list" where
  "ex_info = [(''name'', BString ''f''), (''piece length'', BInteger 4),
     (''pieces'', BString (byte_string (concat ex_hashes))), (''length'', BInteger 6)]"

definition ex_lib :: bencoding where
  "ex_lib = \<lparr>decode = (\<lambda>s. Some (BDictionary [(''announce'', BString s), (''info'', BDictionary ex_info),
     (''peers'', BString (byte_string (compact [(7, 80)]))), (''interval'', BInteger 1800)])),
             encode = (\<lambda>_. ''x'')\<rparr>"

definition ex_fs :: file_system where
  "ex_fs = \<lparr>torrent_file = Some ''http://tr/announce'', download_file = None, fopen_ok = True\<rparr>"

definition ex_md :: metadata where
  "ex_md = \<lparr>m_url = ''http://tr/announce'', m_info = ex_info, m_name = ''f'', m_plen = 4, m_hashes = ex_hashes,
            m_total = 6\<rparr>"

lemma length_digest: "length (digest_bytes env d) = 20"
proof -
  have "length (writeAsBE32 v) = 4" for v
    by (rule be32.length_enc)
  then show ?thesis
    by (simp add: digest_bytes_def upt_rec)
qed

lemma ex_describes: "describes ex_lib ex_fs ex_md" "sizes_consistent ex_md" "fopen_ok ex_fs"
  by (auto simp: describes_def ex_lib_def ex_fs_def ex_md_def ex_info_def ex_hashes_def length_digest)
    (simp add: sizes_consistent_def ex_hashes_def)

lemma parseFile_establishes_invariant_example:
  "\<exists>t d. parseFile ex_env ex_lib ex_fs ''d'' Torrent = Inr (SUCCESS, t, d) \<and> swarm_inv ex_env (start_world t d)"
  using parseFile_establishes_invariant [OF ex_describes, of ex_env "''d''"] by blast

lemma parseFile_pieces_overrun_example:
  "parseFile ex_env \<lparr>decode = (\<lambda>s. Some (BDictionary [(''announce'', BString s), (''info'', BDictionary
      [(''name'', BString ''f''), (''piece length'', BInteger 4), (''pieces'', BString ''abc'')])])),
      encode = (\<lambda>_. ''x'')\<rparr> ex_fs ''d'' Torrent = Inl OutOfBounds"
  by (rule parseFile_pieces_overrun [where s = "''http://tr/announce''" and url = "''http://tr/announce''" and nm = "''f''"
      and L = 4 and p = "''abc''" and d = "[(''name'', BString ''f''), (''piece length'', BInteger 4), (''pieces'', BString ''abc'')]"])
    (simp add: ex_fs_def)+

section \<open>The protocol\<close>

definition ex_ready :: world where
  "ex_ready = upd_conn 0 (\<lambda>c. c\<lparr>readCB := Some Handle, reading := Some 4\<rparr>) ex_world"

lemma ex_ready_simps [simp]:
  "awaits_prefix (conn_of ex_ready 0)" "tor ex_ready = ex_torrent" "isConnected 0 ex_ready"
  by (simp_all add: ex_ready_def awaits_prefix_def ex_connection_def new_connection_def isConnected_def)

lemma encoded_message_is_handled_example:
  "deliver ex_env 0 (Have 1) ex_ready =
    bind_res (handleMessage ex_env 0 4 (IncomingMessage [0, 0, 0, 1] (of_nat (length [0, 0, 0, 1 :: u8])))
               (body_arrived 0 [4, 0, 0, 0, 1] ex_ready))
      (\<lambda>w'. Inr (consume (Suc (length [0, 0, 0, 1 :: u8])) 0 w'))"
proof -
  have p: "payload (Have 1) = [0, 0, 0, 1]"
    by (simp add: writeAsBE32_def drop_bit_eq_div)
  show ?thesis
    by (rule encoded_message_is_handled [of ex_ready 0 "Have 1" ex_env, unfolded p message_id.simps]) simp_all
qed

definition ex_hash :: buffer where
  "ex_hash = slice 28 20 (handshake ex_torrent)"

lemma length_ex_hash: "length ex_hash = 20"
  by (simp add: ex_hash_def ex_torrent_def Torrent_def slice_def)

lemma authenticate_decides_example:
  "\<exists>w'. on_authenticate_handshake 0 (handshake_of 19 protocol_name (replicate 8 0) ex_hash (replicate 20 7)) 68 ex_ready = Inr w'
    \<and> activePeers (tor w') = [0, 0] \<and> peerId (peers w' 0) = replicate 20 7"
proof -
  have "length protocol_name = 19"
    by (simp add: protocol_name_def)
  from authenticate_decides [OF this _ length_ex_hash, of "replicate 8 0" "replicate 20 7" 0 ex_ready 19]
  show ?thesis
    by (auto simp: ex_hash_def)
qed

lemma wrong_protocol_accepted_example:
  "0 \<in> set (activePeers (tor (on_connect_handshake 0
      (handshake_of 19 (replicate 19 88) (replicate 8 0) ex_hash (replicate 20 7)) 68 ex_ready)))"
  using wrong_protocol_accepted [of "replicate 19 88" "replicate 8 0" "replicate 20 7" 0 ex_ready] length_ex_hash
  by (simp add: ex_hash_def)

lemma request_index_unchecked_example:
  "bind_res (deliver ex_env 0 Interested ex_ready) (deliver ex_env 0 (Request 9 0 4)) = Inl OutOfBounds"
  using request_index_unchecked [of ex_ready 0 9 4 ex_env 0] by simp

section \<open>A whole download\<close>

text \<open>The torrent of \<open>ex_md\<close>, whose file is \<open>ex_data\<close>, and one peer that has it.\<close>

definition ex_parsed :: torrent where
  "ex_parsed = parsed ex_env ex_lib ''d'' ex_md"

lemma ex_parsed_simps [simp]:
  "pieces ex_parsed = map new_piece ex_hashes" "totalSize ex_parsed = 6" "pieceLength ex_parsed = 4"
  by (simp_all add: ex_parsed_def parsed_def Torrent_def ex_md_def)

lemma ex_parse: "parseFile ex_env ex_lib ex_fs ''d'' Torrent = Inr (SUCCESS, ex_parsed, opened ex_fs)"
  unfolding ex_parsed_def by (rule parseFile_described [OF ex_describes(1, 3)])

lemma below_two: "i < 2 \<longleftrightarrow> i = 0 \<or> i = (1 :: nat)"
  by auto

lemma ex_file_of: "file_of ex_env ex_parsed ex_data"
proof -
  have "part ex_parsed ex_data 0 = [1, 2, 3, 4]" "part ex_parsed ex_data 1 = [5, 6]"
    by (simp_all add: part_def slice_def piece_begin_def piece_len_def piece_end_def ex_data_def)
  moreover have "hash (pieces ex_parsed ! 0) = digest_bytes ex_env [1, 2, 3, 4]"
    "hash (pieces ex_parsed ! 1) = digest_bytes ex_env [5, 6]" "length (pieces ex_parsed) = 2"
    by (simp_all add: ex_hashes_def new_piece_def)
  ultimately show ?thesis
    by (auto simp: file_of_def below_two)
qed

definition ex_order :: "nat \<Rightarrow> nat list" where
  "ex_order i = [0]"

lemma ex_block_orders: "block_orders ex_parsed ex_order"
proof -
  have "piece_len ex_parsed 0 = 4" "piece_len ex_parsed 1 = 2"
    by (simp_all add: piece_len_def piece_end_def piece_begin_def)
  then show ?thesis
    by (auto simp: block_orders_def ex_order_def block_count_def below_two)
qed

definition ex_events :: "event list" where
  "ex_events = seed_events 63333 ex_parsed ex_data ex_order 7 (replicate 8 0) (replicate 20 1)"

lemma ex_full_run:
  "\<exists>w. client_run ex_env ex_lib ex_fs ''d'' ex_md ex_events w \<and> isFullyDownloaded (tor w) \<and>
     contents (disk w) = ex_data @ drop (length ex_data) (contents (opened ex_fs)) \<and> full_length w"
  unfolding ex_events_def
  by (rule honest_client_run [OF ex_describes(1, 2) ex_parse ex_file_of ex_block_orders]) (simp_all add: ex_fwrite)

lemma honest_seed_completes_example:
  "\<exists>w. client_run ex_env ex_lib ex_fs ''d'' ex_md ex_events w \<and> contents (disk w) = ex_data"
  using honest_seed_completes [OF ex_describes(1, 2) ex_parse ex_file_of ex_block_orders,
      of "replicate 8 0" "replicate 20 1" 63333 7]
  by (auto simp: ex_fwrite ex_events_def opened_def ex_fs_def)

section \<open>Requests and repeated blocks\<close>

definition ex_fin_world :: world where
  "ex_fin_world = ex_world\<lparr>tor := ex_torrent\<lparr>pieces := [(new_piece (hd ex_hashes))\<lparr>finished := True\<rparr>, new_piece []]\<rparr>\<rparr>"

lemma ex_fin_simps [simp]:
  "length (pieces (tor ex_fin_world)) = 2" "finished (pieces (tor ex_fin_world) ! 0)" "wf_sizes (tor ex_fin_world)"
  "offsets_fit (tor ex_fin_world)" "fp (tfile (tor ex_fin_world))" "peers ex_fin_world = peers ex_world"
  "contents (disk ex_fin_world) = ex_data" "piece_len (tor ex_fin_world) 0 = 4" "piece_begin (tor ex_fin_world) 0 = 0"
  by (simp_all add: ex_fin_world_def wf_sizes_def offsets_fit_def piece_len_def piece_end_def piece_begin_def)

lemma request_answer_is_allowed_example:
  "\<exists>w'. handleMessage ex_env 0 6 (incoming_of (Request 0 1 2)) ex_fin_world = Inr w' \<and>
     sent (conn_of w' 0) \<noteq> sent (conn_of ex_fin_world 0) \<and> flag ex_fin_world 0 PEER_INTERESTED"
proof -
  let ?m = "incoming_of (Request 0 1 2)"
  have p: "payload (Request 0 1 2) = writeAsBE32 0 @ writeAsBE32 1 @ writeAsBE32 2 @ []"
    by simp
  have l: "length (payload (Request 0 1 2)) = 12"
    by (simp add: be32.length_enc)
  have c: "isConnected 0 ex_fin_world"
    by (simp add: isConnected_def ex_connection_def)
  obtain v where v: "handleBlockRequest ex_env 0 0 1 2 ex_fin_world = Inr v"
      "sent (conn_of v 0) = sent (conn_of ex_fin_world 0) @ [encode_msg (PieceBlock 0 1 [2, 3])]"
    using handleBlockRequest_run [of ex_fin_world 0 1 2 1 "[2, 3]" ex_env 0] c
    by (simp add: slice_def ex_data_def wr.out_put) (simp add: isConnected_def)
  have "on_request ex_env 0 ?m ex_fin_world = Inr (Break v)"
    using v extract3_payload [OF p, of 12]
    by (simp add: on_request_def getSize_def incoming_of_def IncomingMessage_def l pieceDone_def peek_def del: payload.simps)
  then have "\<exists>w'. handleMessage ex_env 0 6 ?m ex_fin_world = Inr w' \<and> sent (conn_of w' 0) \<noteq> sent (conn_of ex_fin_world 0)"
    using v by (simp add: handleMessage_def message_case_def conn_read_def)
  then show ?thesis
    using request_answer_is_allowed [of ex_env 0 ?m ex_fin_world _ 0] by blast
qed

text \<open>A torrent of one piece of two blocks, all ones.\<close>

definition ex_size :: nat where
  "ex_size = 20000"

definition ex_ones :: buffer where
  "ex_ones = replicate ex_size 1"

definition ex_ones_md :: metadata where
  "ex_ones_md = \<lparr>m_url = '''', m_info = [], m_name = '''', m_plen = of_nat ex_size,
     m_hashes = [digest_bytes ex_env ex_ones], m_total = of_nat ex_size\<rparr>"

definition ex_ones_torrent :: torrent where
  "ex_ones_torrent = parsed ex_env ex_lib ''d'' ex_ones_md"

lemma unat_ex_size: "unat (of_nat ex_size :: u64) = ex_size"
  by (rule unat_of_nat_u64) (simp add: ex_size_def)

lemma ex_ones_simps [simp]:
  "pieces ex_ones_torrent = map new_piece [digest_bytes ex_env ex_ones]" "totalSize ex_ones_torrent = of_nat ex_size"
  "pieceLength ex_ones_torrent = of_nat ex_size" "piece_len ex_ones_torrent 0 = ex_size" "length ex_ones = ex_size"
  by (simp_all add: ex_ones_torrent_def ex_ones_md_def parsed_def Torrent_def piece_len_def piece_end_def
      piece_begin_def unat_ex_size ex_ones_def)

lemma digest_first_word: "readAsBE32 (digest_bytes env d) = Some (sha1_digest env d 0)"
  by (simp add: digest_bytes_def upt_rec be32.dec_enc)

lemma ex_ones_digest: "digest_bytes ex_env (block_at ex_ones 0) \<noteq> digest_bytes ex_env ex_ones"
proof
  assume "digest_bytes ex_env (block_at ex_ones 0) = digest_bytes ex_env ex_ones"
  from arg_cong [OF this, of readAsBE32] have "sha1_digest ex_env (block_at ex_ones 0) 0 = sha1_digest ex_env ex_ones 0"
    by (simp add: digest_first_word)
  moreover have "sha1_digest ex_env (replicate n 1) 0 = of_nat n" for n
    by (simp add: ex_env_def sum_list_replicate)
  moreover have "block_at ex_ones 0 = replicate (min 16384 ex_size) 1"
    by (simp only: block_at_def ex_ones_def mult_0_right drop_0 take_replicate)
  ultimately have "(of_nat (min 16384 ex_size) :: u32) = of_nat ex_size"
    by (simp only: ex_ones_def)
  then show False
    by (simp add: ex_size_def)
qed

lemma ex_ones_requested:
  "\<exists>w. client_inv ex_env w \<and> awaits_prefix (conn_of w 0) \<and> 0 < nextPeer w \<and>
     pieceQueue (peers w 0) = [fresh_qpiece (tor w) 0] \<and> piece_len (tor w) 0 = ex_size \<and>
     length (pieces (tor w)) = 1 \<and> \<not> finished (pieces (tor w) ! 0) \<and> hash (pieces (tor w) ! 0) = digest_bytes ex_env ex_ones"
proof -
  have "sizes_consistent ex_ones_md"
    by (simp add: sizes_consistent_def ex_ones_md_def unat_ex_size) (simp add: ex_size_def)
  then have inv: "swarm_inv ex_env (start_world ex_ones_torrent \<lparr>contents = [], fpos = 0\<rparr>)"
    unfolding ex_ones_torrent_def by (rule start_inv)
  have "length (handshake ex_ones_torrent) = 68"
    by (simp add: ex_ones_torrent_def parsed_def make_handshake_def length_digest to_bytes_def peer_id_bytes_def)
  then obtain w where w: "greeted ex_env ex_ones_torrent 0 w"
    using run_greeting [OF inv, of "replicate 8 0" "replicate 20 1" 7] by auto
  have "file_of ex_env ex_ones_torrent ex_ones"
    by (simp add: file_of_def unat_ex_size part_def slice_def piece_begin_def new_piece_def)
  from deliver_full_bitfield [OF w ex_ones_simps(1) this] obtain w' where w': "same_sizes (tor w') ex_ones_torrent"
      "seeding ex_env 0 ex_ones 0 (next_queue (tor w') 0) w'"
    by blast
  moreover from w'(2) have st: "seed_state ex_env 0 ex_ones 0 w'"
    by (simp add: seeding_def)
  have n: "length (pieces (tor w')) = 1" "piece_len (tor w') 0 = ex_size"
    using same_sizesD(1, 4) [OF w'(1)] by simp_all
  moreover have "hash (pieces (tor w') ! 0) = digest_bytes ex_env (part (tor w') ex_ones 0)"
    using st n by (simp add: seed_state_def file_of_def)
  moreover have "part (tor w') ex_ones 0 = ex_ones"
    unfolding part_same [OF w'(1)] by (simp add: part_def slice_def piece_begin_def)
  ultimately show ?thesis
    using st by (intro exI [of _ w']) (auto simp: seeding_def seed_state_def pieces_upto_def next_queue_def)
qed

lemma ex_ones_blocks: "block_count ex_size = 2"
  by (simp add: block_count_def ex_size_def)

lemma duplicate_blocks_waste_piece_example:
  "\<exists>w w'. receive_blocks ex_env 0 0 ex_ones (replicate (block_count ex_size) 0) w = Inr w' \<and>
     pieceHashMisses (tor w') = pieceHashMisses (tor w) + 1"
proof -
  obtain w where w: "client_inv ex_env w" "pieceQueue (peers w 0) = [fresh_qpiece (tor w) 0]" "piece_len (tor w) 0 = ex_size"
      "length (pieces (tor w)) = 1" "\<not> finished (pieces (tor w) ! 0)" "hash (pieces (tor w) ! 0) = digest_bytes ex_env ex_ones"
    using ex_ones_requested by blast
  have "fetching 0 0 0 (fresh_qpiece (tor w) 0) w"
    using w(2) by (simp add: fetching_def fresh_qpiece_def)
  then show ?thesis
    using duplicate_blocks_waste_piece [OF w(1) _ _ w(5), of 0 0 ex_ones] w(3, 4, 6) ex_ones_digest ex_ones_blocks by auto
qed

lemma choked_transfer_fails_example:
  "\<exists>w w' ns. handles ex_env 0 w [block_message 0 ex_ones 0, Choke, Unchoke, block_message 0 ex_ones 0]
      (request_messages (tor w) 0 @ ns) w' \<and> \<not> finished (pieces (tor w') ! 0)"
proof -
  obtain w where w: "client_inv ex_env w" "awaits_prefix (conn_of w 0)" "0 < nextPeer w"
      "pieceQueue (peers w 0) = [fresh_qpiece (tor w) 0]" "piece_len (tor w) 0 = ex_size"
      "length (pieces (tor w)) = 1" "\<not> finished (pieces (tor w) ! 0)" "hash (pieces (tor w) ! 0) = digest_bytes ex_env ex_ones"
    using ex_ones_requested by blast
  have "take (16384 * max 1 (2 - 1)) ex_ones = block_at ex_ones 0"
    by (simp add: block_at_def)
  then have wrong: "digest_bytes ex_env (take (16384 * max 1 (2 - 1)) ex_ones) \<noteq> hash (pieces (tor w) ! 0)"
    using w(8) ex_ones_digest by simp
  show ?thesis
    using choked_transfer_fails [OF w(1-3) _ w(7) _ w(4) _ _ _ wrong] w(5, 6) ex_ones_blocks by (fastforce simp: upt_rec)
qed


section \<open>The tracker\<close>

definition ex_tracker :: tracker where
  "ex_tracker = new_tracker 63333 \<lparr>protocol = ''http://'', host = ''tr'', port = ''80'', announcePath = ''/announce'',
     passKeyParam = ''''\<rparr>"

definition ex_query :: TrackerQuery where
  "ex_query = \<lparr>event = EV_NONE, downloaded = 0, uploaded = 0, remaining = 6\<rparr>"

definition ex_answer :: "string list" where
  "ex_answer = [header_text [status_line CHR ''0'' '' OK''] @ ''x'']"

definition ex_net :: tracker_net where
  "ex_net = \<lparr>resolve = (\<lambda>h p. if h = ''tr'' then Some [0] else None), connects = (\<lambda>_. True), write_ok = True,
     answer = (\<lambda>_. ex_answer), uninit_int = 0\<rparr>"

definition ex_tracker_lib :: bencoding where
  "ex_tracker_lib = \<lparr>decode = (\<lambda>s. Some (BDictionary [(''interval'', BInteger 1800),
     (''peers'', BString (byte_string (compact [(7, 80)])))])), encode = (\<lambda>_. ''x'')\<rparr>"

lemma ex_answers: "answers ex_answer ''x''"
  unfolding answers_def
  by (rule exI [of _ "CHR ''0''"], rule exI [of _ "'' OK''"], rule exI [of _ "[]"], rule exI [of _ "[]"],
      rule exI [of _ "hd ex_answer"])
    (simp add: ex_answer_def is_digit_def plain_line_def header_text_def crlf_def)

lemma query_dials_peers_example:
  "tracker_query ex_tracker_lib ex_net 5 ex_query ex_tracker ex_world =
    Inr (True, ex_tracker\<lparr>timeToNextRequest := 1800000005\<rparr>, dial (7, 80) ex_world)"
proof -
  have "known_ips ex_world = {67305985}"
    by (simp add: known_ips_def getRawIp_def getIP_def ex_connection_def new_connection_def htonl_def)
  then have "fresh_addresses (known_ips ex_world) [(7, 80)] = [(7, 80)]"
    by simp
  then show ?thesis
    using query_dials_peers [of ex_net ex_tracker "[0]" ex_query ex_world "''x''" ex_tracker_lib _ _ 1800 "[(7, 80)]" 5] ex_answers
    by (simp add: ex_net_def ex_tracker_def new_tracker_def ex_query_def ex_tracker_lib_def peers_known_def fits_int64_def)
qed

lemma bad_body_ends_client_example:
  "tracker_query (ex_tracker_lib\<lparr>decode := (\<lambda>s. None)\<rparr>) ex_net 5 ex_query ex_tracker ex_world =
      Inl (Uncaught ''bencoding::DecodingError'') \<and>
   tracker_query (ex_tracker_lib\<lparr>decode := (\<lambda>s. Some (BDictionary [(''failure reason'', BString ''x'')]))\<rparr>) ex_net 5
      ex_query ex_tracker ex_world = Inl NullDeref"
proof -
  have net: "resolve ex_net (host (urlMeta ex_tracker)) (port (urlMeta ex_tracker)) = Some [0]"
      "try_connect (connects ex_net) [0] = Inr True" "write_ok ex_net"
      "answers (answer ex_net (request_text ex_query ex_tracker (tor ex_world))) ''x''"
    using ex_answers by (simp_all add: ex_net_def ex_tracker_def new_tracker_def)
  show ?thesis
    using bad_body_ends_client [OF net, of "ex_tracker_lib\<lparr>decode := (\<lambda>s. None)\<rparr>"]
      bad_body_ends_client [OF net, of "ex_tracker_lib\<lparr>decode := (\<lambda>s. Some (BDictionary [(''failure reason'', BString ''x'')]))\<rparr>"]
    by simp
qed

lemma failed_query_changes_nothing_example:
  "tracker_query ex_tracker_lib (ex_net\<lparr>resolve := (\<lambda>h p. None)\<rparr>) 5 ex_query ex_tracker ex_world =
     Inr (False, ex_tracker, ex_world) \<and> ex_tracker = ex_tracker"
proof -
  have "tracker_query ex_tracker_lib (ex_net\<lparr>resolve := (\<lambda>h p. None)\<rparr>) 5 ex_query ex_tracker ex_world =
      Inr (False, ex_tracker, ex_world)"
    by (simp add: tracker_query_def httpRequest_def)
  from this failed_query_changes_nothing [OF this] show ?thesis
    by simp
qed


section \<open>The main thread\<close>

definition ex_exchange :: exchange where
  "ex_exchange = \<lparr>meanwhile = [], network = ex_net, answered = 0\<rparr>"

text \<open>The handlers of the peer run in two ticks: those of the handshake and the rest.\<close>

abbreviation ex_peer_events :: "event list" where
  "ex_peer_events \<equiv> dialled_events 0 ex_parsed ex_data ex_order 7 (replicate 8 0) (replicate 20 1)"

definition ex_tick :: "event list \<Rightarrow> tick" where
  "ex_tick es = \<lparr>meanwhile = [], network = ex_net, answered = 0, before = es, clock = 0\<rparr>"

abbreviation ex_ticks :: "tick list" where
  "ex_ticks \<equiv> [ex_tick (take 3 ex_peer_events), ex_tick (drop 3 ex_peer_events)]"

definition ex_um :: UrlMeta where
  "ex_um = parseTrackerUrl ''http://tr/announce''"

lemma ex_um: "ex_um = \<lparr>protocol = ''http://'', host = ''tr'', port = ''80'', announcePath = ''/announce'', passKeyParam = ''''\<rparr>"
  using parse_url [of "''http://''" "''tr''" "''80''" "''/announce''" "''''"] ex_lang
  by (simp add: ex_um_def host_char_def is_digit_def replace_query_def)

lemma ex_up:
  assumes "\<And>s. \<exists>m p. decode lib s = Some (BDictionary m) \<and> map_of m ''peers'' = Some (BString p) \<and>
    to_bytes p = compact es \<and> map_of m ''interval'' = Some (BInteger 1800)"
  shows "tracker_up lib ex_um es 1800 ex_exchange"
proof -
  have "sint (1800 :: u64) = 1800"
    by simp
  then have "\<exists>body m p i. answers ex_answer body \<and> decode lib body = Some (BDictionary m) \<and>
      map_of m ''peers'' = Some (BString p) \<and> to_bytes p = compact es \<and> map_of m ''interval'' = Some (BInteger i) \<and> sint i = 1800"
    using assms [of "''x''"] ex_answers by blast
  then show ?thesis
    by (simp add: tracker_up_def ex_exchange_def ex_net_def ex_um fits_int64_def)
qed

lemma ex_lib_up: "tracker_up ex_lib ex_um [(7, 80)] 1800 ex_exchange"
  by (rule ex_up) (simp add: ex_lib_def)

abbreviation ex_download :: "bool \<Rightarrow> (DownloadError option \<times> tracker option \<times> world) res" where
  "ex_download seedAfter \<equiv>
     download ex_env ex_lib (\<lambda>_. True) ex_exchange ex_ticks ex_exchange 63333 seedAfter None (start_world ex_parsed (opened ex_fs))"

lemma ex_um_host: "ex_um = parseTrackerUrl (m_url ex_md)" "host ex_um \<noteq> []"
  by (simp add: ex_um_def ex_md_def) (simp add: ex_um)

lemma ex_ticks: "concat (map before ex_ticks) = ex_peer_events" "\<forall>k \<in> set ex_ticks. clock k < answered ex_exchange + 1800 * 1000000"
  by (simp_all add: ex_tick_def ex_exchange_def)

lemma ex_seed: "length (replicate 8 (0 :: u8)) = 8" "length (replicate 20 (1 :: u8)) = 20"
  "0 < length (fresh_addresses {} [(7 :: u32, 80 :: u16)])" "\<And>s d. length d \<le> fwrite_count ex_env s d"
  by (simp_all add: ex_fwrite)

lemma honest_download_returns_example:
  "\<exists>tr w. ex_download False = Inr (Some COMPLETED, Some tr, w) \<and> contents (disk w) = ex_data"
  using honest_download_returns [where bound = "\<lambda>_. True" and p = 63333 and ks' = "[]" and seedAfter = False,
      OF ex_describes(1, 2) ex_parse ex_file_of ex_block_orders ex_seed(4, 1-3) ex_um_host ex_lib_up ex_lib_up TrueI
      ex_ticks]
  by (auto simp: opened_def ex_fs_def)

lemma ex_download_done:
  "\<exists>tr w es. ex_download seedAfter = Inr (Some COMPLETED, Some tr, w) \<and> full_length w \<and>
     client_run ex_env ex_lib ex_fs ''d'' ex_md es w"
  using download_succeeds [where bound = "\<lambda>_. True" and p = 63333 and ks' = "[]" and seedAfter = seedAfter and mt = None,
      OF ex_describes(1, 2) ex_parse ex_file_of ex_block_orders ex_seed(4, 1-3) ex_um_host ex_lib_up ex_lib_up TrueI
      ex_ticks] by auto

lemma ex_start_run: "client_run ex_env ex_lib ex_fs ''d'' ex_md [] (start_world ex_parsed (opened ex_fs))"
  using ex_describes ex_parse by (auto simp: client_run_def intro: run_nil)


lemma query_fails_only_here_example:
  "tracker_query (ex_tracker_lib\<lparr>decode := (\<lambda>s. None)\<rparr>) ex_net 5 ex_query ex_tracker (start_world ex_parsed (opened ex_fs)) =
     Inl (Uncaught ''bencoding::DecodingError'') \<and>
   (\<exists>body. read_response 0 ex_answer = Some body)"
proof -
  let ?w = "start_world ex_parsed (opened ex_fs)"
  have q: "tracker_query (ex_tracker_lib\<lparr>decode := (\<lambda>s. None)\<rparr>) ex_net 5 ex_query ex_tracker ?w =
      Inl (Uncaught ''bencoding::DecodingError'')"
    using bad_body_ends_client [of ex_net ex_tracker "[0]" ex_query ?w "''x''" "ex_tracker_lib\<lparr>decode := (\<lambda>s. None)\<rparr>"] ex_answers
    by (simp add: ex_net_def ex_tracker_def new_tracker_def)
  from query_fails_only_here [OF ex_start_run q] q show ?thesis
    by (auto simp: ex_net_def)
qed

definition ex_options :: options where
  "ex_options = \<lparr>argc = 3, well_formed = True, help_opt = False, version_opt = False, log_opens = True,
     torrent_opt = Some ''t'', dir_opt = Some ''d'', seed_opt = False, port_opt = None\<rparr>"

lemma main_success_means_file_example:
  "\<exists>tr w ds. main ex_env ex_lib (\<lambda>_. ex_fs) (\<lambda>_. True) ex_exchange ex_ticks ex_exchange ex_exchange [] ([], []) ex_options =
       Inr (Exit 0, Some (Some tr, w)) \<and>
     contents (disk w) = concat ds \<and> map (digest_bytes ex_env) ds = ex_hashes"
proof -
  obtain tr v where d: "ex_download False = Inr (Some COMPLETED, Some tr, v)" "full_length v"
    using ex_download_done by blast
  obtain w where w: "shut_down ex_env ([], []) v = Inr w" "left_of v w"
    using shut_down_now by blast
  have m: "main ex_env ex_lib (\<lambda>_. ex_fs) (\<lambda>_. True) ex_exchange ex_ticks ex_exchange ex_exchange [] ([], []) ex_options =
      Inr (Exit 0, Some (Some tr, w))"
    by (simp add: main_def startport_def ex_options_def ex_parse d(1) after_download_def w(1))
  have "m_total ex_md = 6" "m_hashes ex_md = ex_hashes"
    by (simp_all add: ex_md_def)
  with m main_success_means_file [OF m, of "''t''" ex_md] ex_describes d(2) left_ofD(3) [OF w(2)] show ?thesis
    by (auto simp: ex_options_def opened_def ex_fs_def)
qed

text \<open>A torrent without pieces is complete from the start.\<close>

definition ex_none_info :: "(string \<times> bitem) list" where
  "ex_none_info = [(''name'', BString ''f''), (''piece length'', BInteger 4), (''pieces'', BString ''''), (''length'', BInteger 0)]"

definition ex_none_lib :: bencoding where
  "ex_none_lib = \<lparr>decode = (\<lambda>s. Some (BDictionary [(''announce'', BString s), (''info'', BDictionary ex_none_info),
      (''peers'', BString ''''), (''interval'', BInteger 1800)])), encode = (\<lambda>_. ''x'')\<rparr>"

definition ex_none_md :: metadata where
  "ex_none_md = \<lparr>m_url = ''http://tr/announce'', m_info = ex_none_info, m_name = ''f'', m_plen = 4, m_hashes = [], m_total = 0\<rparr>"

lemma ex_none_describes: "describes ex_none_lib ex_fs ex_none_md"
  by (auto simp: describes_def ex_none_lib_def ex_fs_def ex_none_md_def ex_none_info_def)
    (simp add: to_bytes_def)

lemma ex_none_up: "tracker_up ex_none_lib ex_um [] 1800 ex_exchange"
  by (rule ex_up) (simp add: ex_none_lib_def to_bytes_def compact_def)

definition ex_none_world :: world where
  "ex_none_world = upd_tor (listen 63333) (start_world (parsed ex_env ex_none_lib ''d'' ex_none_md) (opened ex_fs))"

lemma ex_none_download:
  "\<exists>tr. download ex_env ex_none_lib (\<lambda>_. True) ex_exchange [ex_tick []] ex_exchange 63333 True None
     (start_world (parsed ex_env ex_none_lib ''d'' ex_none_md) (opened ex_fs)) = Inr (Some COMPLETED, Some tr, ex_none_world)"
proof -
  let ?s = "start_world (parsed ex_env ex_none_lib ''d'' ex_none_md) (opened ex_fs)"
  have s: "mainTrackerUrl (tor ?s) = ''http://tr/announce''" "pieces (tor ?s) = []" "completedPieces (tor ?s) = 0"
      "peers_known ?s"
    by (simp_all add: start_world_def parsed_def ex_none_md_def Torrent_def peers_known_def)
  have q: "\<exists>q. buildTrackerQuery ev (tor w) = Inr q" if "pieces (tor w) = []" for ev w
    using that by (simp add: buildTrackerQuery_def)
  let ?tr = "(new_tracker 63333 ex_um)\<lparr>timeToNextRequest := 1800000000\<rparr>"
  have tr: "find_tracker ex_env ex_none_lib 63333 ex_exchange ?s = Inr (Some ?tr, ?s)"
    using find_tracker_up [OF ex_none_up, of ?s ex_env 63333] ex_um_host q [OF s(2)] s(1, 4)
    by (simp add: ex_um_def ex_exchange_def)
  have "query_main ex_env ex_none_lib EV_COMPLETED ex_exchange ?tr ex_none_world = Inr (True, ?tr, ex_none_world)"
    using closing_query_up [of ex_none_lib ?tr "[]" 1800 ex_exchange ex_none_world ex_env] ex_none_up
      q [of ex_none_world EV_COMPLETED] s(2, 4) by (simp add: ex_none_world_def peers_known_def new_tracker_def ex_exchange_def)
  with tr s show ?thesis
    by (simp add: download_def start_accepting_run ex_none_world_def ex_tick_def)
qed

lemma main_seeds_on_other_port_example:
  "\<exists>tr. main ex_env ex_none_lib (\<lambda>_. ex_fs) (\<lambda>_. True) ex_exchange [ex_tick []] ex_exchange ex_exchange [] ([], [])
       (ex_options\<lparr>seed_opt := True\<rparr>) = Inr (Seeding, Some (Some tr, ex_none_world)) \<and>
     announced_port ex_query tr (tor ex_none_world) = Some ''63334'' \<and>
     acceptor (tor ex_none_world) = Some \<lparr>local_port = 63333, started = True\<rparr>"
proof -
  let ?p = "parsed ex_env ex_none_lib ''d'' ex_none_md"
  have s: "mainTrackerUrl (tor ex_none_world) = ''http://tr/announce''" "pieces (tor ex_none_world) = []"
      "acceptor (tor ex_none_world) = Some \<lparr>local_port = 63333, started = True\<rparr>" "peers_known ex_none_world"
    by (simp_all add: ex_none_world_def start_world_def parsed_def ex_none_md_def Torrent_def peers_known_def)
  let ?tr = "(new_tracker 63334 ex_um)\<lparr>timeToNextRequest := 1800000000\<rparr>"
  have "find_tracker ex_env ex_none_lib 63334 ex_exchange ex_none_world = Inr (Some ?tr, ex_none_world)"
    using find_tracker_up [OF ex_none_up, of ex_none_world ex_env 63334] ex_um_host s
    by (simp add: ex_um_def buildTrackerQuery_def ex_exchange_def)
  then have sd: "seed ex_env ex_none_lib ex_exchange [] 63334 mt ex_none_world = Inr (False, Some ?tr, ex_none_world)" for mt
    using s(3) by (simp add: seed_def acceptor_isStarted_def)
  have "parseFile ex_env ex_none_lib ex_fs ''d'' Torrent = Inr (SUCCESS, ?p, opened ex_fs)"
    by (rule parseFile_described [OF ex_none_describes ex_describes(3)])
  with ex_none_download sd have m: "main ex_env ex_none_lib (\<lambda>_. ex_fs) (\<lambda>_. True) ex_exchange [ex_tick []]
      ex_exchange ex_exchange [] ([], []) (ex_options\<lparr>seed_opt := True\<rparr>) = Inr (Seeding, Some (Some ?tr, ex_none_world))"
    by (auto simp: main_def startport_def ex_options_def after_download_def)
  have "to_string 63334 = ''63334''"
    by (simp add: to_string.simps digit_char_def char_of_def bit_0)
  with m main_seeds_on_other_port [OF m, of "''t''" 63333] show ?thesis
    by (simp add: ex_options_def)
qed


section \<open>Two clients\<close>

lemma ex_one_fresh: "0 < length (fresh_addresses {} [(7 :: u32, 80 :: u16)])"
  by simp

text \<open>The end of the download above is the client that has the file.\<close>

abbreviation ex_dialled :: world where
  "ex_dialled \<equiv> dialled_world 63333 ex_parsed (opened ex_fs) [(7, 80)]"

lemma two_clients_share_example:
  "\<exists>wb l. client_run ex_env ex_lib ex_fs ''d'' ex_md ex_events wb \<and>
     takes (turn_a ex_env 0) (turn_b ex_env (nextPeer wb)) (link_up 0 7 8 ex_dialled wb) (sharing_turns ex_parsed) l \<and>
     take (unat (totalSize ex_parsed)) (contents (disk (side_a l))) = take (unat (totalSize ex_parsed)) (contents (disk wb))"
proof -
  obtain wb where wb: "client_run ex_env ex_lib ex_fs ''d'' ex_md ex_events wb" "isFullyDownloaded (tor wb)" "full_length wb"
    using ex_full_run by blast
  from two_clients_share [OF ex_describes(1, 2) ex_parse ex_one_fresh wb refl ex_seed(4) refl] wb(1) show ?thesis
    by blast
qed

lemma link_sides_run_example:
  "\<exists>wb u es. takes (turn_a ex_env 0) (turn_b ex_env (nextPeer wb)) (link_up 0 7 8 ex_dialled wb) (sharing_turns ex_parsed) u \<and>
     run (swarm_step ex_env) (side_a (link_up 0 7 8 ex_dialled wb)) es (side_a u)"
proof -
  obtain wb where wb: "client_run ex_env ex_lib ex_fs ''d'' ex_md ex_events wb" "isFullyDownloaded (tor wb)" "full_length wb"
    using ex_full_run by blast
  obtain u where u: "takes (turn_a ex_env 0) (turn_b ex_env (nextPeer wb)) (link_up 0 7 8 ex_dialled wb) (sharing_turns ex_parsed) u"
    using clients_share [OF ex_describes(1, 2) ex_parse ex_one_fresh wb refl ex_seed(4)] by blast
  moreover have "0 < nextPeer (side_a (link_up 0 7 8 ex_dialled wb))"
    by (simp add: link_up_def Let_def on_connect_done_def on_connected_def on_resolved_def conn_read_def conn_write_def
        dialled_world_def fold_dial start_world_def)
  moreover have "nextPeer wb < nextPeer (side_b (link_up 0 7 8 ex_dialled wb))"
    using accepted_connection(7) [OF refl, of 7 wb] by (simp add: link_up_def Let_def)
  ultimately show ?thesis
    using link_sides_run [OF u] by blast
qed

text \<open>The handlers of one dialled peer leave the others waiting.\<close>

definition of_peer :: "nat \<Rightarrow> event \<Rightarrow> bool" where
  "of_peer p e \<longleftrightarrow> e = Resolved p \<or> (\<exists>a. e = Connected p a) \<or> (\<exists>bs. e = Received p bs)"

lemma of_peer_step:
  assumes "of_peer p e" "client_step env e w = Inr w'" "q \<noteq> p"
  shows "peer_hush (peers w' q) = peer_hush (peers w q) \<and> nextPeer w' = nextPeer w"
proof -
  consider "e = Resolved p" | a where "e = Connected p a" | bs where "e = Received p bs"
    using assms(1) by (auto simp: of_peer_def)
  then show ?thesis
  proof cases
    case 3
    then show ?thesis
      using on_read_isolated [of env p bs w w'] assms(2, 3) by (simp add: isolated_def)
  qed (use assms(2, 3) in \<open>auto simp: on_resolved_def on_connect_done_def on_connected_def conn_read_def conn_write_def Let_def\<close>)
qed

lemma of_peer_run:
  assumes "run (swarm_step env) w es w'" "\<forall>e \<in> set es. of_peer p e" "q \<noteq> p"
  shows "peer_hush (peers w' q) = peer_hush (peers w q) \<and> nextPeer w' = nextPeer w"
  using assms by (induction rule: run.induct) (auto simp: swarm_step_iff dest: of_peer_step)

lemma of_peer_blocks: "\<forall>e \<in> set (block_events p t file k bs). of_peer p e"
  by (induction bs) (auto simp: message_events_def of_peer_def block_events_def)

lemma of_peer_dialled: "\<forall>e \<in> set (dialled_events p t file ord a reserved i). of_peer p e"
  using of_peer_blocks by (auto simp: dialled_events_def sharing_events_def message_events_def file_events_def of_peer_def)

text \<open>The tracker has named two peers; the download is done with the first one, and the second one is dialled only then.\<close>

lemma ex_dialling_seed:
  "\<exists>w es. client_run ex_env ex_lib ex_fs ''d'' ex_md es w \<and> isFullyDownloaded (tor w) \<and> 1 < nextPeer w \<and>
     stage (conn_of w 1) = Resolving \<and> connCB (conn_of w 1)"
proof -
  let ?es = "[(7 :: u32, 80 :: u16), (9, 80)]"
  let ?w0 = "dialled_world 63333 ex_parsed (opened ex_fs) ?es"
  have f: "fresh_addresses {} ?es = ?es"
    by simp
  obtain w where w: "run (swarm_step ex_env) ?w0 (dialled_events 0 ex_parsed ex_data ex_order 7 (replicate 8 0) (replicate 20 1)) w"
      "client_run ex_env ex_lib ex_fs ''d'' ex_md ([TrackerPeers (compact ?es), StartAccepting 63333 True] @
         dialled_events 0 ex_parsed ex_data ex_order 7 (replicate 8 0) (replicate 20 1)) w" "isFullyDownloaded (tor w)"
    using dialled_download [OF ex_describes(1, 2) ex_parse ex_file_of ex_block_orders ex_seed(4, 1, 2), of 0 ?es 63333 7] by auto
  have "peers ?w0 1 = dialling (9, 80)" "nextPeer ?w0 = 2"
    unfolding dialled_world_def f by (simp_all add: fold_dial start_world_def)
  moreover have h: "peer_hush (peers w 1) = peer_hush (peers ?w0 1)" "nextPeer w = nextPeer ?w0"
    using of_peer_run [OF w(1) of_peer_dialled, of 1] by simp_all
  moreover have "stage (conn_of w 1) = stage (conn_of ?w0 1)" "connCB (conn_of w 1) = connCB (conn_of ?w0 1)"
    using arg_cong [OF h(1), of "\<lambda>p. stage (conn p)"] arg_cong [OF h(1), of "\<lambda>p. connCB (conn p)"] by (simp_all add: peer_hush_def)
  ultimately have "stage (conn_of w 1) = Resolving" "connCB (conn_of w 1)" "1 < nextPeer w"
    using dialling_conn(1, 2) [of ?w0 1 "(9, 80)"] by simp_all
  with w(2, 3) show ?thesis
    by blast
qed

lemma dialling_seed_uploads_nothing_example:
  "\<exists>wa l. isFullyDownloaded (tor wa) \<and> takes (turn_a ex_env 1) (turn_b ex_env 0)
     (link_up 1 7 8 wa (start_world ex_parsed (opened ex_fs))) 4 l \<and> pieceQueue (peers (side_b l) 0) = []"
proof -
  obtain wa es where wa: "client_run ex_env ex_lib ex_fs ''d'' ex_md es wa" "isFullyDownloaded (tor wa)" "1 < nextPeer wa"
      "stage (conn_of wa 1) = Resolving" "connCB (conn_of wa 1)"
    using ex_dialling_seed by blast
  have "0 = nextPeer (start_world ex_parsed (opened ex_fs))"
    by (simp add: start_world_def)
  from dialling_seed_uploads_nothing [OF wa ex_start_run refl refl this, of 7 8] wa(2) show ?thesis
    by blast
qed

section \<open>Late blocks\<close>

text \<open>The client of the first download when a new peer still has the first piece, now finished, to send.\<close>

definition ex_late :: "world \<Rightarrow> world" where
  "ex_late w = w\<lparr>peers := (peers w)(nextPeer w := (new_peer ex_connection)\<lparr>pieceQueue := [fresh_qpiece (tor w) 0],
     conn := ex_connection\<lparr>readCB := Some Handle, reading := Some 4\<rparr>\<rparr>), nextPeer := nextPeer w + 1\<rparr>"

lemma ex_late_world:
  "\<exists>w pid. swarm_inv ex_env w \<and> pid < nextPeer w \<and> awaits_prefix (conn_of w pid) \<and> stage (conn_of w pid) = NotConnecting \<and>
     pieceQueue (peers w pid) = [fresh_qpiece (tor w) 0] \<and> finished (pieces (tor w) ! 0) \<and> piece_len (tor w) 0 = 4"
proof -
  obtain w where w: "client_run ex_env ex_lib ex_fs ''d'' ex_md ex_events w" "isFullyDownloaded (tor w)"
    using ex_full_run by blast
  have inv: "client_inv ex_env w"
    using client_run_inv [OF w(1)] by (simp add: swarm_inv_def)
  note fixed = client_run_fixed [OF w(1)]
  have n: "length (pieces (tor w)) = 2" "piece_len (tor w) 0 = 4"
    using fixed(2-4) by (simp_all add: ex_md_def piece_len_def piece_end_def piece_begin_def)
  have fin: "finished (pieces (tor w) ! 0)"
    using w(2) n(1) isFullyDownloaded_iff [OF client_invD(4) [OF inv]] by simp
  have q: "qpiece_ok (tor w) (fresh_qpiece (tor w) 0)"
    using fresh_qpiece_ok [OF geometryD(1) [OF client_invD(3) [OF inv]]] n(1) by simp
  have t: "tor (ex_late w) = tor w" "disk (ex_late w) = disk w" "accepted (ex_late w) = accepted w" "nextPeer (ex_late w) = nextPeer w + 1"
      "peers (ex_late w) pid = (if pid = nextPeer w then (new_peer ex_connection)\<lparr>pieceQueue := [fresh_qpiece (tor w) 0],
         conn := ex_connection\<lparr>readCB := Some Handle, reading := Some 4\<rparr>\<rparr> else peers w pid)" for pid
    by (simp_all add: ex_late_def)
  have "queues_ok (ex_late w)"
    using q queues_okD [OF client_invD(2) [OF inv]] by (auto simp: queues_ok_def t)
  moreover have "store_inv ex_env (ex_late w)"
    using client_invD(1) [OF inv] by (simp add: store_inv_def accepted_ok_def data_ok_def full_length_def t)
  moreover have "conns_inv (ex_late w)"
    using swarm_invD(2) [OF client_run_inv [OF w(1)]]
    by (simp add: conns_inv_def t ex_connection_def new_connection_def conn_inv_def reading_ok_def)
  moreover have "peers_known (ex_late w)"
    using swarm_invD(3) [OF client_run_inv [OF w(1)]] by (auto simp: peers_known_def t)
  ultimately show ?thesis
    using n fin by (intro exI [of _ "ex_late w"] exI [of _ "nextPeer w"])
      (simp add: swarm_inv_def client_inv_def t awaits_prefix_def ex_connection_def new_connection_def)
qed

lemma late_block_idles_peer_example:
  "\<exists>w v pid. deliver ex_env pid (block_message 0 [1, 2, 3, 4] 0) w = Inr v \<and> pieceQueue (peers w pid) \<noteq> [] \<and>
     run (silent_step ex_env pid) v [DownloadDone] (disconnectPeers v) \<and> pieceQueue (peers (disconnectPeers v) pid) = []"
proof -
  obtain w pid where w: "swarm_inv ex_env w" "pid < nextPeer w" "awaits_prefix (conn_of w pid)" "stage (conn_of w pid) = NotConnecting"
      "pieceQueue (peers w pid) = [fresh_qpiece (tor w) 0]" "finished (pieces (tor w) ! 0)" "piece_len (tor w) 0 = 4"
    using ex_late_world by blast
  have q: "index (fresh_qpiece (tor w) 0) = 0" "0 < block_count (piece_len (tor w) 0)" "length [1, 2, 3, 4 :: u8] = piece_len (tor w) 0"
    using w(7) by (simp_all add: fresh_qpiece_def block_count_def)
  obtain v where v: "deliver ex_env pid (block_message 0 [1, 2, 3, 4] 0) w = Inr v"
      "\<And>fs w'. run (silent_step ex_env pid) v fs w' \<Longrightarrow> pieceQueue (peers w' pid) = []"
    using late_block_idles_peer [OF w(1-5) q(1) w(6) q(3, 2)] by blast
  have "silent_step ex_env pid v DownloadDone (disconnectPeers v)"
    by (simp add: silent_step_def bitfield_arrives_def swarm_step_iff)
  then have r: "run (silent_step ex_env pid) v [DownloadDone] (disconnectPeers v)"
    using run_snoc [OF run_nil, of "silent_step ex_env pid" v DownloadDone] by simp
  from v(1) r v(2) [OF r] w(5) show ?thesis
    by fastforce
qed

lemma second_late_block_disconnects_example:
  "\<exists>w w' pid. bind_res (deliver ex_env pid (block_message 0 [1, 2, 3, 4] 0) w) (deliver ex_env pid (block_message 0 [1, 2, 3, 4] 0)) = Inr w' \<and>
     awaits_prefix (conn_of w pid) \<and> \<not> isConnected pid w'"
proof -
  obtain w pid where w: "client_inv ex_env w" "awaits_prefix (conn_of w pid)" "pieceQueue (peers w pid) = [fresh_qpiece (tor w) 0]"
      "finished (pieces (tor w) ! 0)" "piece_len (tor w) 0 = 4"
    using ex_late_world swarm_invD(1) by blast
  have "index (fresh_qpiece (tor w) 0) = 0" "0 < block_count (piece_len (tor w) 0)"
    using w(5) by (simp_all add: fresh_qpiece_def block_count_def)
  from second_late_block_disconnects [OF w(1-3) this(1) w(4) _ this(2) this(2), of "[1, 2, 3, 4]"] w(2, 5) show ?thesis
    by auto
qed


section \<open>What is displayed\<close>

text \<open>Floating point without rounding errors.\<close>

definition ex_fpu :: fpu where
  "ex_fpu = \<lparr>rnd = (\<lambda>x. x), logd = (\<lambda>n. ln (real n))\<rparr>"

lemma calculateETA_result_example:
  "\<exists>e. calculateETA ex_fpu 3 (ex_torrent\<lparr>downloadedBytes := 6, totalSize := 26\<rparr>) = Inr e \<and> \<bar>real (unat e) - 10\<bar> \<le> 1 \<and>
     (\<exists>x. displayDownloadProgress ex_fpu 0 ex_torrent = Inl x)"
proof -
  let ?t = "ex_torrent\<lparr>downloadedBytes := 6, totalSize := 26\<rparr>"
  have f: "precise ex_fpu"
    by (simp add: precise_def ex_fpu_def)
  have s: "unat (totalSize ?t - downloadedBytes ?t) < 2 ^ 63" "unat (totalSize ex_torrent - downloadedBytes ex_torrent) < 2 ^ 63"
    by (simp_all add: ex_torrent_def Torrent_def)
  have d: "(6 :: u64) div 3 = 2" "(26 :: u64) - 6 = 20"
    by simp_all
  show ?thesis
    using calculateETA_result [OF f s(1), of 3] calculateETA_result [OF f s(2), of 0] by (auto simp: d Let_def)
qed

lemma bytesToHumanReadable_in_range_example:
  "bytesToHumanReadable ex_fpu 999 True = Inr ''999 B'' \<and> bytesToHumanReadable ex_fpu 123456789 True = Inr (in_unit ex_fpu 123456789 True 2)"
proof -
  have a: "accurate ex_fpu"
    by (simp add: accurate_def precise_def ex_fpu_def)
  have "e = 2" if "e \<in> {1..3}" "1000 ^ e \<le> (123456789 :: nat)" "(123456789 :: nat) \<le> 1000 ^ (e + 1)" for e :: nat
  proof -
    from that(1) consider "e = 1" | "e = 2" | "e = 3"
      by fastforce
    then show ?thesis
      using that(2, 3) by cases simp_all
  qed
  moreover have "to_string (unat (999 :: u32)) = ''999''"
    by code_simp
  ultimately show ?thesis
    using bytesToHumanReadable_in_range [OF a, of 999 True] bytesToHumanReadable_in_range [OF a, of 123456789 True] by auto
qed

end
