(* ===== verification/Accessors.thy ===== *)
theory Accessors
  imports Peer_Handler
begin

text \<open>
  The one-line members of \<open>peer.hpp\<close>, \<open>torrent.hpp\<close> and \<open>connection.hpp\<close>.  The operations read the fields
  they stand for; the lemmas tell where.
\<close>

section \<open>Peer and Torrent\<close>

definition getPieces :: "peer \<Rightarrow> nat list" where
  "getPieces p = hasPieceIndexes p"

definition hasPiece :: "nat \<Rightarrow> peer \<Rightarrow> bool" where
  "hasPiece i p \<longleftrightarrow> List.member (hasPieceIndexes p) i"

definition setId :: "buffer \<Rightarrow> peer \<Rightarrow> peer" where
  "setId i p = p\<lparr>peerId := i\<rparr>"

definition getPeerId :: "torrent \<Rightarrow> buffer" where
  "getPeerId t = ownPeerId t"

definition getHandshake :: "torrent \<Rightarrow> buffer" where
  "getHandshake t = handshake t"

definition getCompletedPieces :: "torrent \<Rightarrow> nat" where
  "getCompletedPieces t = completedPieces t"

text \<open>A piece is passed over by the selection if it is finished or the peer has not got it.\<close>

lemma select_scan_hasPiece:
  "finished p \<or> \<not> hasPiece i r \<Longrightarrow>
     select_scan (getPieces r) i (p # ps) idx prio = select_scan (getPieces r) (Suc i) ps idx prio"
  by (auto simp: hasPiece_def getPieces_def)

lemma set_peerId_setId: "set_peerId i pid = upd_peer pid (setId i)"
  by (simp add: set_peerId_def setId_def fun_eq_iff)

section \<open>Connection\<close>

text \<open>\<open>port\<close> is the port of the remote end point; without one, asking for it throws.  The result has eight bits.\<close>

definition getPort :: "u16 option \<Rightarrow> u8 res" where
  "getPort port = (case port of None \<Rightarrow> Inl (Uncaught ''boost::system::system_error'') | Some p \<Rightarrow> Inr (ucast p))"

lemma getPort_low_byte: "getPort (Some p) = Inr q \<Longrightarrow> unat q = unat p mod 256"
  by (auto simp: getPort_def unsigned_ucast_eq take_bit_eq_mod)

end
