(* ===== verification/Spec2Isabelle.thy ===== *)
theory Spec2Isabelle
  imports Client Examples Teardown Accessors
begin

text \<open>
  A verification of YTorrent, a BitTorrent client for torrents of one file.

  The program and the model.  \<open>main\<close> reads a torrent file (\<open>Torrent::parseFile\<close>), starts the network
  thread and runs \<open>Torrent::download\<close>: it asks the tracker for peers, accepts connections and waits until
  all pieces are there; then it may go on with \<open>Torrent::seed\<close>.  The network thread runs the
  completion handlers of Boost.Asio one after the other; all work is done in them: the handshakes, the
  messages of the peers, storing and serving pieces, choosing the next piece.  The model has the data of the program as records (\<open>world\<close> is the heap, the
  torrent and the file), one definition per function, and every completion handler as a step of a
  transition system, in which the peers, the tracker and the network may do anything at any time.

  The theories, from the bottom up:
  \<^item> \<open>YT_Prelude\<close>: words, bounds-checked access, faults as values, the predicate \<open>holds\<close> on results.
  \<^item> \<open>Transcoder\<close>: \<open>utils/transcoder.hpp\<close>, and the locale \<open>codec\<close> of a reader and a writer that fit.
  \<^item> \<open>Messages\<close>: \<open>net/incomingmessage.hpp\<close>, \<open>net/outgoingmessage.hpp\<close>.
  \<^item> \<open>Text_Format\<close>, \<open>Tracker_Url\<close>: \<open>utils/utils.cpp\<close>, with the regular expressions of \<open>parseTrackerUrl\<close>.
  \<^item> \<open>Swarm_State\<close>: the records for \<open>torrent.hpp\<close>, \<open>peer.hpp\<close>, \<open>connection.hpp\<close>.
  \<^item> \<open>Torrent_Geometry\<close>: sizes and positions of pieces, the tracker query (\<open>torrent.cpp\<close>).
  \<^item> \<open>Net_Connection\<close>: \<open>net/connection.cpp\<close>, \<open>net/acceptor.cpp\<close>, and the locale \<open>wire\<close> of an output.
  \<^item> \<open>Peer_Registry\<close>: the active peers and the blacklist, errors, disconnecting.
  \<^item> \<open>Peer_Wire\<close>: the messages a peer sends, and the wire format as their specification.
  \<^item> \<open>Torrent_Store\<close>: checking, storing and serving pieces, the bit field.
  \<^item> \<open>Piece_Selection\<close>: which piece to ask for; \<open>Selection_Order\<close>: the order of the pieces as an instance of
    \<open>linorder\<close>, and the selection as its minimum.
  \<^item> \<open>Peer_Handler\<close>: the handshakes, \<open>Peer::handle\<close>, every case of \<open>Peer::handleMessage\<close>, the read handler.
  \<^item> \<open>Peer_Discovery\<close>: accepting connections and dialling the peers of the tracker.
  \<^item> \<open>Swarm_Invariant\<close>, \<open>Handler_Safety\<close>, \<open>Handler_Frame\<close>: the invariant of the client, the proof that the
    handlers keep it and which faults they can end in, and what a handler writes and leaves alone (the
    locale \<open>message_frame\<close> of the primitive effects of a handler, extended by \<open>peer_frame\<close> with the answer to a
    handshake; interpreted for the reads, the isolation of the peers, the active peers, the progress of the
    torrent, the acceptor, the output, and the peer that is asked for nothing any more).
  \<^item> \<open>Swarm_Steps\<close>: the events, the step relation, runs (the locale \<open>kept_by_steps\<close> of what every step keeps, and
    \<open>store_kept\<close> of what holds of the pieces and the file, for which the step that completes a piece is enough).
  \<^item> \<open>Metainfo\<close>: the constructor of \<open>Torrent\<close>, \<open>parseFile\<close>, the initial state.
  \<^item> \<open>Peer_Protocol\<close>, \<open>Piece_Transfer\<close>: framing, handshakes, requests, the transfer of a piece.
  \<^item> \<open>Swarm_Runs\<close> and this theory: what holds in every state a client can reach (a finished file is the pieces
    of the torrent file, followed by what a longer file that was there before has beyond them: the code opens an
    existing file for update and never truncates it); \<open>Wire_Output\<close>: what such a
    client has written to its connections; \<open>Conforming_Peers\<close>: that another client can read it.
  \<^item> \<open>Honest_Seed\<close>, \<open>Dialled_Seed\<close>: a peer that has the file and sends it makes the client complete it,
    whether it connects to the client or is dialled because the tracker named it.
  \<^item> \<open>Link\<close>, \<open>Serving\<close>, \<open>Two_Clients\<close>: two clients joined by a connection, each with its own world, that take
    turns: every schedule ends alike (the locale \<open>commuting\<close>), each side makes a run of the transition
    system, and the client that has the file gives it to the one that dialled it.
  \<^item> \<open>Idle_Peer\<close>: what a block does that arrives after its piece was finished, and that the peer that sent it may be
    asked for nothing from then on, whatever all the others do; \<open>Choked_Transfer\<close>: an honest peer
    that chokes in the middle of a piece.
  \<^item> \<open>Tracker\<close>: \<open>torrent/tracker.cpp\<close> and \<open>validateTracker\<close>: the text of the request, the response as it is
    read from the stream, and what is done with it; the time of the next request in the nanoseconds of the system
    clock, with the overflow of its 64 bits.
  \<^item> \<open>Client\<close>: \<open>download\<close>, \<open>seed\<close> and \<open>main.cpp\<close>, interleaved with the handlers, and the proof that they only
    make steps of the transition system; the outcomes of \<open>download\<close>, the faults of a query; \<open>Connection::start\<close> and \<open>stop\<close> with the flag of the event loop, and
    how \<open>main\<close> shuts down: the loop is stopped, the network thread joined, and the torrent destroyed.
  \<^item> \<open>Statistics\<close>: the lines that are displayed, \<open>getDownloadSpeed\<close>, \<open>calculateETA\<close>, \<open>bytesToHumanReadable\<close>,
    over real numbers with the rounding of the floating point and \<open>std::log\<close> as parameters; of both only
    the documented accuracy is used.
  \<^item> \<open>Teardown\<close>: what the destructors do beside freeing memory.
  \<^item> \<open>Accessors\<close>: the members that only read or set a field.
  \<^item> \<open>Examples\<close>: each property with hypotheses applied to a concrete torrent.

  Conventions.  A \<open>size_t\<close> that counts objects in memory is a \<open>nat\<close>; a byte count, an offset or a field
  of a message is a word of its width, with the wrap-around of the code.  An access outside a buffer, a
  null pointer, a division by zero, an overflow of a signed integer and an exception nothing catches are the
  values of type \<open>fault\<close>.  All
  loops over data are total functions; the ones that run over a 64-bit length terminate by a measure on
  it.  The loops of the main thread wait for others: they run over a list of ticks, the beginning of an
  execution, and their result tells whether the loop was left; that a download returns is proved for the
  peer of \<open>Dialled_Seed\<close>, whose handlers may be spread over the ticks in any way: the loop is left in the tick
  in which the last of them has run, if not before.  SHA-1, the bencoding decoder and encoder, what
  \<open>fwrite\<close> manages to write, the contents of fresh memory, and what the resolver and the socket of the
  tracker deliver are parameters (\<open>env\<close>, \<open>bencoding\<close>, \<open>file_system\<close>, \<open>tracker_net\<close>).  The field \<open>accepted\<close>
  of the world is not state of the program: it records the data whose digest was right, and states the
  one assumption of the integrity theorems, that no data of a wrong length had the right digest (the
  code compares no lengths).

  A connected pair of clients takes the same steps: a turn of a side is the read handler of its end of
  the connection, and what a side writes is what the other one reads, in order.  A transfer needs
  \<open>sharing_turns\<close> turns, counted exactly, so no bound is guessed.

  What is not modelled: the output streams themselves and the log file (the lines are; the loops of
  \<open>Client\<close> leave the display out, since a conversion without a result is undefined and not an exception),
  the parsing of the command line by Boost, the failure of a buffer of up to four GiB to be allocated for a message
  that announces as much, the freeing of memory and with it what a handler does to an object that is gone,
  and the bencoding library, of which the repository has only the headers.  The handlers and the main thread are interleaved
  by whole steps; data races on the fields the mutexes do not protect are not modelled.
\<close>

section \<open>Properties of the runs of the client\<close>

text \<open>
  C11: in every state a client started on a well-formed torrent file can reach, whatever the peers, the
  tracker and the network do, the bit field, the marks of the pieces and the counter of the completed
  pieces agree, every queued piece has the blocks its length asks for and waits for at least one of
  them, and the active peers exist.
\<close>

theorem run_keeps_books:
  assumes "client_run env lib fs dir md es w"
  shows "bitfield (tor w) = map finished (pieces (tor w))
    \<and> length (pieces (tor w)) = length (m_hashes md)
    \<and> completedPieces (tor w) = length (filter finished (pieces (tor w)))
    \<and> (\<forall>pid. \<forall>q \<in> set (pieceQueue (peers w pid)). index q < length (pieces (tor w))
         \<and> length (blocks q) = block_count (piece_len (tor w) (index q)) \<and> haveBlocks q < length (blocks q))
    \<and> (\<forall>q \<in> set (activePeers (tor w)). q < nextPeer w)"
proof -
  note inv = client_run_inv [OF assms]
  note marks = marksD [OF client_invD(4) [OF swarm_invD(1) [OF inv]]]
  have "card {i. i < length (pieces (tor w)) \<and> finished (pieces (tor w) ! i)} = length (filter finished (pieces (tor w)))"
    by (simp add: length_filter_conv_card)
  moreover have "bitfield (tor w) = map finished (pieces (tor w))"
    by (rule nth_equalityI) (simp_all add: marks(1, 4))
  moreover have queue: "\<forall>pid. \<forall>q \<in> set (pieceQueue (peers w pid)). index q < length (pieces (tor w))
      \<and> length (blocks q) = block_count (piece_len (tor w) (index q)) \<and> haveBlocks q < length (blocks q)"
  proof (intro allI ballI)
    fix pid q assume "q \<in> set (pieceQueue (peers w pid))"
    from queues_okD [OF client_invD(2) [OF swarm_invD(1) [OF inv]] this]
    show "index q < length (pieces (tor w)) \<and> length (blocks q) = block_count (piece_len (tor w) (index q))
        \<and> haveBlocks q < length (blocks q)"
      by (simp add: qpiece_ok_def)
  qed
  ultimately show ?thesis
    using marks(2) client_run_fixed(4) [OF assms] swarm_invD(3) [OF inv]
    by (intro conjI queue) (simp_all add: finished_set_def peers_known_def)
qed

text \<open>
  C1: in every state a client can reach, a piece that is marked finished is in the download file, at
  its place and complete, with the digest the torrent file asks for, unless data of a wrong length
  with the right digest was accepted before.
\<close>

theorem run_stores_verified_data:
  assumes "client_run env lib fs dir md es w" "full_length w"
    and "i < length (m_hashes md)" "finished (pieces (tor w) ! i)"
  shows "piece_end (tor w) i \<le> length (contents (disk w))
    \<and> digest_bytes env (slice (piece_begin (tor w) i) (piece_len (tor w) i) (contents (disk w))) = m_hashes md ! i"
proof -
  have "store_inv env w"
    using client_invD(1) [OF swarm_invD(1) [OF client_run_inv [OF assms(1)]]] .
  moreover have "i < length (pieces (tor w))" "hash (pieces (tor w) ! i) = m_hashes md ! i"
    using client_run_fixed(1, 4) [OF assms(1)] assms(3) by (metis nth_map)+
  ultimately show ?thesis
    using finished_on_disk [of env w i] assms(2, 4) by (simp add: part_def)
qed

text \<open>
  C7: when the client has counted as many completed pieces as there are, the download file is the
  concatenation of pieces with the digests of the torrent file, of the length the torrent file says, followed
  only by what a longer file that was there before had beyond this length (the client never truncates it; if
  there was no file, nothing follows).  The exception is a client that has accepted data of a wrong length with
  the right digest.
\<close>

theorem run_completes_file:
  assumes "client_run env lib fs dir md es w" "full_length w" "isFullyDownloaded (tor w)"
  shows "\<exists>ds. contents (disk w) = concat ds @ drop (unat (m_total md)) (contents (opened fs))
    \<and> map (digest_bytes env) ds = m_hashes md \<and> length (concat ds) = unat (m_total md)"
  using assms by (rule client_run_file)


text \<open>
  Along a run a finished piece stays finished, and what was read from the torrent file stays.
\<close>

lemma run_only_progresses:
  assumes "run (swarm_step env) w es w'"
  shows "map hash (pieces (tor w')) = map hash (pieces (tor w))
    \<and> pieceLength (tor w') = pieceLength (tor w) \<and> totalSize (tor w') = totalSize (tor w)
    \<and> handshake (tor w') = handshake (tor w)
    \<and> (\<forall>i < length (pieces (tor w)). finished (pieces (tor w) ! i) \<longrightarrow> finished (pieces (tor w') ! i))"
  using prog.run_keeps [OF assms progressed_refl] by (simp add: progressed_def fixed_def)

text \<open>
  C15: whatever a peer sends, another peer keeps its queue, its flags, its pieces and its connection;
  all that can happen to it is that something is sent to it.
\<close>

theorem peers_are_isolated:
  assumes "on_read env pid bytes w = Inr w'" "q \<noteq> pid"
  shows "\<exists>bs. peers w' q = (peers w q)\<lparr>conn := (conn_of w q)\<lparr>sent := sent (conn_of w q) @ bs\<rparr>\<rparr>"
proof -
  note iso = on_read_isolated [OF assms(1)]
  obtain bs where bs: "sent (conn_of w' q) = sent (conn_of w q) @ bs"
    using iso by (auto simp: isolated_def dest!: spec [of _ q])
  have "peer_hush (peers w' q) = peer_hush (peers w q)"
    using iso assms(2) by (simp add: isolated_def)
  then have "peers w' q = (peers w q)\<lparr>conn := (conn_of w q)\<lparr>sent := sent (conn_of w' q)\<rparr>\<rparr>"
    by (cases "peers w' q", cases "peers w q", cases "conn_of w' q", cases "conn_of w q") (simp add: peer_hush_def)
  with bs show ?thesis
    by auto
qed

section \<open>Instances\<close>

text \<open>The client of the example torrent, right after the torrent file was read.\<close>

definition ex_start :: world where
  "ex_start = start_world (parsed ex_env ex_lib ''d'' ex_md) (opened ex_fs)"

lemma ex_client_start: "client_run ex_env ex_lib ex_fs ''d'' ex_md [] ex_start"
  using ex_describes parseFile_described [OF ex_describes(1, 3), of ex_env "''d''"]
  by (auto simp: client_run_def ex_start_def intro: run_nil)

lemma ex_start_simps [simp]:
  "activePeers (tor ex_start) = []" "accepted ex_start = []" "pieces (tor ex_start) = map new_piece ex_hashes"
  "nextPeer ex_start = 0"
  by (simp_all add: ex_start_def start_world_def parsed_def Torrent_def ex_md_def)

lemma run_keeps_books_example:
  "bitfield (tor ex_start) = map finished (pieces (tor ex_start)) \<and> completedPieces (tor ex_start) = 0"
  using run_keeps_books [OF ex_client_start] by (simp add: ex_hashes_def new_piece_def)


lemma ex_run_accepting: "run (swarm_step ex_env) ex_start [StartAccepting 63333 True] (upd_tor (listen 63333) ex_start)"
  using run_snoc [OF run_nil, of "swarm_step ex_env" ex_start "StartAccepting 63333 True"]
  by (simp add: swarm_step_iff start_accepting_run)

text \<open>The client has accepted a connection and a peer has greeted it: it has written its handshake and its bit field.\<close>

lemma ex_greeted:
  "\<exists>w es m. client_run ex_env ex_lib ex_fs ''d'' ex_md es w \<and> awaits_prefix (conn_of w 0) \<and>
     sent (conn_of w 0) = [handshake (tor w), encode_msg m]"
proof -
  let ?w1 = "upd_tor (listen 63333) ex_start"
  define w2 where "w2 = on_accepted (Some 7) ?w1"
  note c = accepted_connection [OF w2_def, simplified]
  let ?hs = "seed_handshake (tor ex_start) (replicate 8 0) (replicate 20 1)"
  have "length (handshake (tor ex_start)) = 68"
    by (simp add: ex_start_def start_world_def parsed_def make_handshake_def length_digest to_bytes_def peer_id_bytes_def)
  from seed_handshake_ok [OF this _ _ c(12)] have hs: "length ?hs = 68" "\<not> handshake_mismatch (handshake (tor w2)) ?hs 68"
    by simp_all
  obtain w3 where w3: "on_read ex_env 0 ?hs w2 = Inr w3" "agreed 0 w2 w3"
      "sent (conn_of w3 0) = [handshake (tor w2), encode_msg (Bitfield (getRawBitfield (tor w2)))]"
    using on_read_authenticate [OF c(1, 2, 4) hs, of ex_env] c(9) by auto
  have "swarm_step ex_env ?w1 (Accepted (Some 7)) w2" "swarm_step ex_env w2 (Received 0 ?hs) w3"
    using c(3, 7) hs(1) w3(1) by (simp_all add: swarm_step_iff w2_def)
  then have "run (swarm_step ex_env) ex_start (([StartAccepting 63333 True] @ [Accepted (Some 7)]) @ [Received 0 ?hs]) w3"
    by (blast intro: run_snoc ex_run_accepting)
  moreover have "client_run ex_env ex_lib ex_fs ''d'' ex_md es w" if "run (swarm_step ex_env) ex_start es w" for es w
    using that ex_describes parseFile_described [OF ex_describes(1, 3), of ex_env "''d''"]
    by (auto simp: client_run_def ex_start_def)
  ultimately have run: "client_run ex_env ex_lib ex_fs ''d'' ex_md (([StartAccepting 63333 True] @ [Accepted (Some 7)]) @ [Received 0 ?hs]) w3"
    by blast
  moreover have "handshake (tor w3) = handshake (tor w2)"
    using client_run_handshake [OF run] c(12) by (simp add: ex_start_def start_world_def)
  ultimately show ?thesis
    using w3(2, 3) by (fastforce simp: agreed_def)
qed

lemma output_conforms_example:
  "\<exists>w es m. client_run ex_env ex_lib ex_fs ''d'' ex_md es w \<and> encode_msg m \<in> set (sent (conn_of w 0)) \<and> legal (tor w) m"
proof -
  obtain w es m where w: "client_run ex_env ex_lib ex_fs ''d'' ex_md es w" "sent (conn_of w 0) = [handshake (tor w), encode_msg m]"
    using ex_greeted by blast
  from output_conforms [OF w(1), of 0] w show ?thesis
    by (intro exI [of _ w] exI [of _ es]) auto
qed

lemma clients_do_no_harm_example:
  "\<exists>w b. b \<in> set (tl (sent (conn_of w 0))) \<and>
     holds {Uncaught ''fwrite failed''} (client_inv ex_env) (bind_res (on_read ex_env 0 (take 4 b) w) (on_read ex_env 0 (drop 4 b)))"
proof -
  obtain w es m where w: "client_run ex_env ex_lib ex_fs ''d'' ex_md es w" "awaits_prefix (conn_of w 0)"
      "sent (conn_of w 0) = [handshake (tor w), encode_msg m]"
    using ex_greeted by blast
  then have "encode_msg m \<in> set (tl (sent (conn_of w 0)))"
    by simp
  with clients_do_no_harm [OF w(1, 2) w(1) this] show ?thesis
    by blast
qed

lemma run_only_progresses_example:
  "map hash (pieces (tor (upd_tor (listen 63333) ex_start))) = map hash (pieces (tor ex_start))"
  using run_only_progresses [OF ex_run_accepting] by simp

lemma peers_are_isolated_example:
  "\<exists>w' bs. on_read ex_env 0 [0, 0, 0, 0] ex_ready = Inr w' \<and>
     peers w' 1 = (peers ex_ready 1)\<lparr>conn := (conn_of ex_ready 1)\<lparr>sent := sent (conn_of ex_ready 1) @ bs\<rparr>\<rparr>"
proof -
  have "\<exists>w'. on_read ex_env 0 [0, 0, 0, 0] ex_ready = Inr w'"
    by (simp add: on_read_def ex_ready_def ex_connection_def new_connection_def run_read_cb_def peer_handle_def
        readAsBE32_def readAsBE16_Cons)
  then show ?thesis
    using peers_are_isolated [of ex_env 0 "[0, 0, 0, 0]" ex_ready _ 1] by fastforce
qed

lemma run_stores_verified_data_example:
  "\<exists>w. client_run ex_env ex_lib ex_fs ''d'' ex_md ex_events w \<and>
     digest_bytes ex_env (slice (piece_begin (tor w) 1) (piece_len (tor w) 1) (contents (disk w))) = ex_hashes ! 1"
proof -
  obtain w where w: "client_run ex_env ex_lib ex_fs ''d'' ex_md ex_events w" "isFullyDownloaded (tor w)" "full_length w"
    using ex_full_run by blast
  have "marks_ok (tor w)"
    using client_invD(4) [OF swarm_invD(1) [OF client_run_inv [OF w(1)]]] .
  then have "finished (pieces (tor w) ! 1)"
    using isFullyDownloaded_iff [of "tor w"] w(2) client_run_fixed(4) [OF w(1)] by (simp add: ex_md_def)
  then show ?thesis
    using run_stores_verified_data [OF w(1, 3), of 1] w(1) by (auto simp: ex_md_def)
qed

lemma run_completes_file_example:
  "\<exists>w ds. client_run ex_env ex_lib ex_fs ''d'' ex_md ex_events w \<and> contents (disk w) = concat ds \<and>
     map (digest_bytes ex_env) ds = ex_hashes"
proof -
  obtain w where w: "client_run ex_env ex_lib ex_fs ''d'' ex_md ex_events w" "isFullyDownloaded (tor w)" "full_length w"
    using ex_full_run by blast
  from run_completes_file [OF w(1, 3, 2)] w(1) show ?thesis
    by (auto simp: ex_md_def opened_def ex_fs_def)
qed

end
